(* ===== verification/Prelude.thy ===== *)
theory Prelude
  imports Main "HOL-Library.AList" "HOL-Library.Multiset" "HOL-Library.Word"
    "HOL-Library.Char_ord" "HOL-Library.List_Lexorder"
begin

section \<open>Shared vocabulary of the development\<close>

text \<open>
  What every component uses of the Go language and its run time:
  \<^item> \<open>time\<close>: a \<^verbatim>\<open>time.Time\<close> as the number of nanoseconds since Go's zero time, so that
    \<^verbatim>\<open>time.Time{}\<close> is \<open>0\<close>, \<^verbatim>\<open>t.IsZero()\<close> is \<open>t = 0\<close>, \<^verbatim>\<open>t.After(u)\<close> is \<open>u < t\<close> and
    \<^verbatim>\<open>t.Add(d)\<close> is \<open>t + d\<close>; the wall clock is an argument \<open>now\<close> of the operation that reads it;
  \<^item> \<open>'a go\<close>: the outcome of a function that may panic (a nil pointer is dereferenced);
  \<^item> Go's maps as association lists with distinct keys (\<open>gm_ok\<close>), with \<open>map_of\<close> for a read,
    \<open>AList.update\<close> for \<^verbatim>\<open>m[k] = v\<close>, \<open>AList.delete\<close> for \<^verbatim>\<open>delete(m, k)\<close>, \<open>length\<close> for
    \<^verbatim>\<open>len(m)\<close>, \<open>gm_adjust\<close> and \<open>gm_map\<close> for writes through the pointers a map holds;
  \<^item> the order in which a \<^verbatim>\<open>range\<close> loop visits a map, which the language leaves open: an
    operation whose result depends on it takes the order as an argument, a function that
    rearranges the keys (\<open>range_order\<close>), and the theorems hold for every such function;
  \<^item> \<^verbatim>\<open>sort.Sort\<close>, which is not stable: an argument that rearranges a list into one sorted by
    the comparison of the source (\<open>sort_spec\<close>).
\<close>

named_theorems gm_simps \<open>reading, writing and counting association lists\<close>
named_theorems frame_simps \<open>what an operation leaves unchanged\<close>

type_synonym time = int
type_synonym duration = int

abbreviation second :: duration where
  "second \<equiv> 1000000000"

abbreviation minute :: duration where
  "minute \<equiv> 60 * second"

datatype 'a go = Ret 'a | Panic

subsection \<open>Lists\<close>

lemma length_filter_split:
  "length xs = length (filter P xs) + length (filter (\<lambda>x. \<not> P x) xs)"
  by (induction xs) auto

lemma length_filter_mono:
  "(\<And>x. x \<in> set xs \<Longrightarrow> P x \<Longrightarrow> Q x) \<Longrightarrow> length (filter P xs) \<le> length (filter Q xs)"
  by (induction xs) (simp_all add: le_SucI)

lemma mset_eq_set: "mset xs = mset ys \<Longrightarrow> set xs = set ys"
  by (metis set_mset_mset)

lemma find_Some_D: "find P xs = Some x \<Longrightarrow> x \<in> set xs \<and> P x"
  by (induction xs) (auto split: if_splits)

lemma find_None_D: "find P xs = None \<Longrightarrow> x \<in> set xs \<Longrightarrow> \<not> P x"
  by (induction xs) (auto split: if_splits)

lemma find_not_None: "x \<in> set xs \<Longrightarrow> P x \<Longrightarrow> find P xs \<noteq> None"
  by (induction xs) auto

subsection \<open>Go maps as association lists\<close>

type_synonym ('k, 'v) gomap = "('k \<times> 'v) list"

abbreviation keys :: "('k, 'v) gomap \<Rightarrow> 'k list" where
  "keys m \<equiv> map fst m"

abbreviation vals :: "('k, 'v) gomap \<Rightarrow> 'v list" where
  "vals m \<equiv> map snd m"

definition gm_ok :: "('k, 'v) gomap \<Rightarrow> bool" where
  "gm_ok m \<longleftrightarrow> distinct (keys m)"

text \<open>A write through the pointer stored at one key, and one through the pointers of all keys.\<close>

definition gm_adjust :: "'k \<Rightarrow> ('v \<Rightarrow> 'v) \<Rightarrow> ('k, 'v) gomap \<Rightarrow> ('k, 'v) gomap" where
  "gm_adjust k f m = map (\<lambda>(k', v). if k' = k then (k', f v) else (k', v)) m"

definition gm_map :: "('v \<Rightarrow> 'w) \<Rightarrow> ('k, 'v) gomap \<Rightarrow> ('k, 'w) gomap" where
  "gm_map f m = map (\<lambda>(k, v). (k, f v)) m"

definition gm_count :: "('v \<Rightarrow> bool) \<Rightarrow> ('k, 'v) gomap \<Rightarrow> nat" where
  "gm_count P m = length (filter P (vals m))"

lemma gm_okD: "gm_ok m \<Longrightarrow> (k, v) \<in> set m \<Longrightarrow> map_of m k = Some v"
  by (simp add: gm_ok_def)

lemma gm_ok_Nil [simp]: "gm_ok []"
  by (simp add: gm_ok_def)

lemma gm_ok_update [simp]: "gm_ok m \<Longrightarrow> gm_ok (AList.update k v m)"
  by (simp add: gm_ok_def distinct_update)

lemma gm_ok_delete [simp]: "gm_ok m \<Longrightarrow> gm_ok (AList.delete k m)"
  by (simp add: gm_ok_def distinct_delete)

lemma keys_adjust [simp]: "keys (gm_adjust k f m) = keys m"
  by (simp add: gm_adjust_def case_prod_beta comp_def if_distrib cong: if_cong)

lemma keys_gm_map [simp]: "keys (gm_map f m) = keys m"
  by (simp add: gm_map_def case_prod_beta comp_def)

lemma gm_ok_adjust [simp]: "gm_ok (gm_adjust k f m) = gm_ok m"
  by (simp add: gm_ok_def)

lemma gm_ok_gm_map [simp]: "gm_ok (gm_map f m) = gm_ok m"
  by (simp add: gm_ok_def)

lemma length_adjust [simp]: "length (gm_adjust k f m) = length m"
  by (simp add: gm_adjust_def)

lemma length_gm_map [simp]: "length (gm_map f m) = length m"
  by (simp add: gm_map_def)

lemma map_of_adjust [gm_simps]:
  "map_of (gm_adjust k f m) k' = (if k' = k then map_option f (map_of m k) else map_of m k')"
  by (induction m) (auto simp: gm_adjust_def)

lemma map_of_gm_map [gm_simps]: "map_of (gm_map f m) k = map_option f (map_of m k)"
  by (induction m) (auto simp: gm_map_def)

lemma map_of_update [gm_simps]:
  "map_of (AList.update k v m) k' = (if k' = k then Some v else map_of m k')"
  by (simp add: AList.update_conv')

lemma map_of_delete [gm_simps]:
  "map_of (AList.delete k m) k' = (if k' = k then None else map_of m k')"
  by (simp add: AList.delete_conv')

lemma map_of_Some_in: "map_of m k = Some v \<Longrightarrow> (k, v) \<in> set m"
  by (rule map_of_SomeD)

lemma map_of_None_keys: "map_of m k = None \<longleftrightarrow> k \<notin> set (keys m)"
  by (simp add: map_of_eq_None_iff)

lemma length_update_new:
  "k \<notin> set (keys m) \<Longrightarrow> length (AList.update k v m) = Suc (length m)"
  by (induction m) auto

lemma length_update_old:
  "k \<in> set (keys m) \<Longrightarrow> length (AList.update k v m) = length m"
  by (induction m) auto

lemma length_update_le: "length (AList.update k v m) \<le> Suc (length m)"
  by (cases "k \<in> set (keys m)") (simp_all add: length_update_new length_update_old)

lemma gm_count_le: "gm_count P m \<le> length m"
  unfolding gm_count_def by (metis length_filter_le length_map)

lemma gm_count_pos: "(0 < gm_count P m) = (\<exists>k v. (k, v) \<in> set m \<and> P v)"
  by (force simp: gm_count_def filter_empty_conv)

lemma gm_count_zero: "gm_count P m = 0 \<longleftrightarrow> (\<forall>(k, v) \<in> set m. \<not> P v)"
  using gm_count_pos [of P m] by auto

lemma gm_adjust_notin: "k \<notin> set (keys m) \<Longrightarrow> gm_adjust k f m = m"
  by (induction m) (auto simp: gm_adjust_def)

lemma gm_count_Cons [simp]: "gm_count P ((k, v) # m) = (if P v then 1 else 0) + gm_count P m"
  by (simp add: gm_count_def)

lemma gm_adjust_Cons [simp]:
  "gm_adjust k f ((k', v) # m) = (k', if k' = k then f v else v) # gm_adjust k f m"
  by (simp add: gm_adjust_def)

lemma gm_count_adjust:
  assumes "gm_ok m"
  shows "gm_count P m \<le> Suc (gm_count P (gm_adjust k f m))"
  using assms
proof (induction m)
  case (Cons kv m)
  obtain k' v where kv: "kv = (k', v)" by (cases kv)
  have ok: "gm_ok m" and new: "k' \<notin> set (keys m)" using Cons.prems by (simp_all add: kv gm_ok_def)
  show ?case
  proof (cases "k' = k")
    case True
    then show ?thesis using new by (simp add: kv gm_adjust_notin)
  next
    case False
    then show ?thesis using Cons.IH [OF ok] by (simp add: kv)
  qed
qed (simp add: gm_count_def)

lemma gm_map_Cons [simp]: "gm_map f ((k, v) # m) = (k, f v) # gm_map f m"
  by (simp add: gm_map_def)

lemma gm_count_gm_map:
  assumes "\<forall>v. P (f v) = P v"
  shows "gm_count P (gm_map f m) = gm_count P m"
proof (induction m)
  case (Cons kv m)
  then show ?case using assms by (cases kv) simp
qed (simp add: gm_count_def gm_map_def)

definition key_keeping :: "('k \<times> 'v \<Rightarrow> ('k \<times> 'w) option) \<Rightarrow> bool" where
  "key_keeping f \<longleftrightarrow> (\<forall>k v kv. f (k, v) = Some kv \<longrightarrow> fst kv = k)"

lemma key_keepingD: "key_keeping f \<Longrightarrow> f (k, v) = Some (j, w) \<Longrightarrow> j = k"
  unfolding key_keeping_def by fastforce

lemma keys_map_filter:
  assumes "key_keeping f"
  shows "set (keys (List.map_filter f m)) \<subseteq> set (keys m)"
proof
  fix j assume "j \<in> set (keys (List.map_filter f m))"
  then obtain w where "(j, w) \<in> set (List.map_filter f m)" by auto
  then obtain k v where "(k, v) \<in> set m" "f (k, v) = Some (j, w)" by (auto simp: List.map_filter_def)
  then show "j \<in> set (keys m)" using key_keepingD [OF assms, of k v j w] by force
qed

lemma gm_ok_map_filter:
  assumes "key_keeping f" and "gm_ok m"
  shows "gm_ok (List.map_filter f m)"
  using assms(2)
proof (induction m)
  case (Cons kv m)
  obtain k v where kv: "kv = (k, v)" by (cases kv)
  have k: "k \<notin> set (keys (List.map_filter f m))" and ok: "gm_ok m"
    using keys_map_filter [OF assms(1), of m] Cons.prems by (auto simp: kv gm_ok_def)
  show ?case
  proof (cases "f (k, v)")
    case None
    then show ?thesis using Cons.IH [OF ok] by (simp add: kv map_filter_simps)
  next
    case (Some jw)
    obtain j w where jw: "jw = (j, w)" by (cases jw)
    have "j = k" using key_keepingD [OF assms(1)] Some jw by blast
    then show ?thesis using Cons.IH [OF ok] k Some jw by (simp add: kv map_filter_simps gm_ok_def)
  qed
qed (simp add: map_filter_simps)

lemma map_of_map_filter:
  assumes "key_keeping f" and "gm_ok m"
  shows "map_of (List.map_filter f m) k = (case map_of m k of None \<Rightarrow> None | Some v \<Rightarrow> map_option snd (f (k, v)))"
  using assms(2)
proof (induction m)
  case (Cons kv m)
  obtain j v where kv: "kv = (j, v)" by (cases kv)
  have j: "j \<notin> set (keys m)" and ok: "gm_ok m" using Cons.prems by (simp_all add: kv gm_ok_def)
  have jn: "map_of (List.map_filter f m) j = None"
    using keys_map_filter [OF assms(1), of m] j unfolding map_of_eq_None_iff by auto
  show ?case
  proof (cases "f (j, v)")
    case None
    then show ?thesis using Cons.IH [OF ok] jn by (cases "k = j") (simp_all add: kv map_filter_simps)
  next
    case (Some iw)
    obtain i w where iw: "iw = (i, w)" by (cases iw)
    have "i = j" using key_keepingD [OF assms(1)] Some iw by blast
    then show ?thesis using Cons.IH [OF ok] Some iw by (simp add: kv map_filter_simps)
  qed
qed (simp add: map_filter_simps)

lemma map_of_filter_key:
  assumes "gm_ok m"
  shows "map_of (filter (\<lambda>(k, v). P k) m) k = (if P k then map_of m k else None)"
  using assms by (induction m) (auto simp: gm_ok_def)

lemma gm_ok_filter: "gm_ok m \<Longrightarrow> gm_ok (filter P m)"
  by (induction m) (auto simp: gm_ok_def)

lemma gm_ok_append: "gm_ok (a @ b) \<longleftrightarrow> gm_ok a \<and> gm_ok b \<and> set (keys a) \<inter> set (keys b) = {}"
  by (simp add: gm_ok_def)

subsection \<open>Ranging over a map\<close>

definition range_order :: "('k list \<Rightarrow> 'k list) \<Rightarrow> bool" where
  "range_order ord \<longleftrightarrow> (\<forall>ks. mset (ord ks) = mset ks)"

text \<open>The first value, in the order of the loop, that satisfies a condition.\<close>

definition range_find :: "('k list \<Rightarrow> 'k list) \<Rightarrow> ('v \<Rightarrow> bool) \<Rightarrow> ('k, 'v) gomap \<Rightarrow> 'k option" where
  "range_find ord P m =
     find (\<lambda>k. case map_of m k of None \<Rightarrow> False | Some v \<Rightarrow> P v) (ord (keys m))"

lemma range_order_id [simp]: "range_order (\<lambda>ks. ks)"
  by (simp add: range_order_def)

lemma range_order_rev [simp]: "range_order rev"
  by (simp add: range_order_def)

lemma range_order_set: "range_order ord \<Longrightarrow> set (ord ks) = set ks"
  unfolding range_order_def by (metis mset_eq_set)

lemma range_order_length: "range_order ord \<Longrightarrow> length (ord ks) = length ks"
  unfolding range_order_def by (metis size_mset)

lemma range_find_Some:
  "range_find ord P m = Some k \<Longrightarrow> \<exists>v. map_of m k = Some v \<and> P v"
  unfolding range_find_def by (drule find_Some_D) (auto split: option.splits)

lemma range_find_None:
  assumes "range_order ord" and "range_find ord P m = None" and "map_of m k = Some v"
  shows "\<not> P v"
proof -
  have "k \<in> set (ord (keys m))"
    using assms(1,3) by (auto simp: range_order_set dest: map_of_SomeD intro: rev_image_eqI)
  with assms(2,3) show ?thesis
    unfolding range_find_def by (auto dest: find_None_D)
qed

lemma range_find_exists:
  assumes "range_order ord" and "map_of m k = Some v" and "P v"
  shows "\<exists>k'. range_find ord P m = Some k'"
  using assms range_find_None by fastforce

text \<open>The entries in the order of the loop.\<close>

definition range_list :: "('k list \<Rightarrow> 'k list) \<Rightarrow> ('k, 'v) gomap \<Rightarrow> ('k \<times> 'v) list" where
  "range_list ord m = List.map_filter (\<lambda>k. map_option (Pair k) (map_of m k)) (ord (keys m))"

lemma mset_map_filter_cong: "mset xs = mset ys \<Longrightarrow> mset (List.map_filter f xs) = mset (List.map_filter f ys)"
  by (simp add: List.map_filter_def)

lemma map_filter_keys:
  assumes "\<forall>(k, v) \<in> set m. f k = Some (k, v)"
  shows "List.map_filter f (keys m) = m"
  using assms by (induction m) (auto simp: map_filter_simps)

lemma mset_range_list:
  assumes "range_order ord" and "gm_ok m"
  shows "mset (range_list ord m) = mset m"
proof -
  let ?f = "\<lambda>k. map_option (Pair k) (map_of m k)"
  have "mset (range_list ord m) = mset (List.map_filter ?f (keys m))"
    using assms(1) unfolding range_list_def range_order_def by (intro mset_map_filter_cong) blast
  also have "List.map_filter ?f (keys m) = m"
    using assms(2) by (intro map_filter_keys) (auto dest: gm_okD)
  finally show ?thesis .
qed

lemma map_filter_mem: "y \<in> set (List.map_filter f xs) \<longleftrightarrow> (\<exists>x \<in> set xs. f x = Some y)"
  by (induction xs) (auto simp: map_filter_simps split: option.splits)

lemma range_list_mem:
  assumes "range_order ord"
  shows "(k, v) \<in> set (range_list ord m) \<longleftrightarrow> map_of m k = Some v"
proof -
  have "(k, v) \<in> set (range_list ord m) \<longleftrightarrow> k \<in> set (keys m) \<and> map_of m k = Some v"
    unfolding range_list_def map_filter_mem range_order_set [OF assms] by (auto split: option.splits)
  also have "\<dots> \<longleftrightarrow> map_of m k = Some v" using map_of_None_keys [of m k] by auto
  finally show ?thesis .
qed

lemma range_list_set: "range_order ord \<Longrightarrow> gm_ok m \<Longrightarrow> set (range_list ord m) = set m"
  using mset_range_list by (rule mset_eq_set)

lemma range_list_distinct:
  assumes "range_order ord" and "gm_ok m"
  shows "distinct (map fst (range_list ord m))"
proof -
  have "mset (map fst (range_list ord m)) = mset (keys m)" using mset_range_list [OF assms] by simp
  then show ?thesis using assms(2) unfolding gm_ok_def by (metis mset_eq_imp_distinct_iff)
qed

subsection \<open>Sorting with a comparison\<close>

text \<open>
  \<^verbatim>\<open>sort.SliceStable\<close>: elements that the comparison does not tell apart keep their order.
\<close>

fun insort_by :: "('a \<Rightarrow> 'a \<Rightarrow> bool) \<Rightarrow> 'a \<Rightarrow> 'a list \<Rightarrow> 'a list" where
  "insort_by lt x [] = [x]"
| "insort_by lt x (y # ys) = (if lt y x then y # insort_by lt x ys else x # y # ys)"

definition stable_sort :: "('a \<Rightarrow> 'a \<Rightarrow> bool) \<Rightarrow> 'a list \<Rightarrow> 'a list" where
  "stable_sort lt xs = foldr (insort_by lt) xs []"

lemma mset_insort_by [simp]: "mset (insort_by lt x xs) = add_mset x (mset xs)"
  by (induction xs) auto

lemma mset_stable_sort [simp]: "mset (stable_sort lt xs) = mset xs"
  unfolding stable_sort_def by (induction xs) simp_all

lemma set_stable_sort [simp]: "set (stable_sort lt xs) = set xs"
  by (rule mset_eq_set) simp

lemma length_stable_sort [simp]: "length (stable_sort lt xs) = length xs"
  by (metis mset_stable_sort size_mset)

text \<open>
  \<^verbatim>\<open>sort.Sort\<close> and \<^verbatim>\<open>sort.Slice\<close>: the result holds the same elements, and no element comes
  before one that the comparison puts strictly first.
\<close>

definition sort_spec :: "('a \<Rightarrow> 'a \<Rightarrow> bool) \<Rightarrow> ('a list \<Rightarrow> 'a list) \<Rightarrow> bool" where
  "sort_spec lt srt \<longleftrightarrow>
     (\<forall>xs. mset (srt xs) = mset xs \<and> sorted_wrt (\<lambda>a b. \<not> lt b a) (srt xs))"

lemma sort_spec_set: "sort_spec lt srt \<Longrightarrow> set (srt xs) = set xs"
  unfolding sort_spec_def by (metis mset_eq_set)

lemma sort_spec_length: "sort_spec lt srt \<Longrightarrow> length (srt xs) = length xs"
  unfolding sort_spec_def by (metis size_mset)

lemma sort_spec_key: "sort_spec (\<lambda>a b. (f a :: int) < f b) (sort_key f)"
proof -
  have "sorted_wrt (\<lambda>a b. \<not> f b < f a) (sort_key f xs)" for xs
    using sorted_sort_key [of f xs] by (simp add: sorted_map not_less)
  then show ?thesis by (simp add: sort_spec_def)
qed

end
