(* ===== verification/NetAddr.thy ===== *)
theory NetAddr
  imports Prelude
begin

unbundle bit_operations_syntax

section \<open>Addresses and prefixes\<close>

text \<open>
  What the code uses of Go's \<^verbatim>\<open>net\<close> and \<^verbatim>\<open>net/netip\<close>: an address (\<^verbatim>\<open>netip.Addr\<close>, whose zero
  value \<open>NoAddr\<close> is the invalid address), \<^verbatim>\<open>netip.ParseAddr\<close>, a network (\<^verbatim>\<open>*net.IPNet\<close>: the
  width of its mask, the number of ones and the masked address as a number) and \<^verbatim>\<open>net.ParseCIDR\<close>.
  Addresses with a zone (\<^verbatim>\<open>fe80::1%eth0\<close>) are left out: the parser here refuses them.
\<close>

datatype addr = NoAddr | Addr4 "32 word" | Addr6 "128 word"

definition Addr_IsValid :: "addr \<Rightarrow> bool" where
  "Addr_IsValid a \<longleftrightarrow> a \<noteq> NoAddr"

definition Addr_Is4 :: "addr \<Rightarrow> bool" where
  "Addr_Is4 a \<longleftrightarrow> (case a of Addr4 _ \<Rightarrow> True | _ \<Rightarrow> False)"

text \<open>The bytes of an address read as a big-endian number, and how many bits they are.\<close>

definition Addr_num :: "addr \<Rightarrow> int" where
  "Addr_num a = (case a of NoAddr \<Rightarrow> 0 | Addr4 w \<Rightarrow> uint w | Addr6 w \<Rightarrow> uint w)"

definition Addr_BitLen :: "addr \<Rightarrow> nat" where
  "Addr_BitLen a = (case a of NoAddr \<Rightarrow> 0 | Addr4 _ \<Rightarrow> 32 | Addr6 _ \<Rightarrow> 128)"

subsection \<open>netip.ParseAddr\<close>

definition dec_digit :: "char \<Rightarrow> int option" where
  "dec_digit c = (let n = of_char c :: int in if 48 \<le> n \<and> n \<le> 57 then Some (n - 48) else None)"

definition hex_digit :: "char \<Rightarrow> int option" where
  "hex_digit c = (let n = of_char c :: int in
     if 48 \<le> n \<and> n \<le> 57 then Some (n - 48)
     else if 97 \<le> n \<and> n \<le> 102 then Some (n - 87)
     else if 65 \<le> n \<and> n \<le> 70 then Some (n - 55)
     else None)"

fun split_at :: "char \<Rightarrow> string \<Rightarrow> string list" where
  "split_at sep [] = [[]]"
| "split_at sep (c # cs) =
     (if c = sep then [] # split_at sep cs
      else case split_at sep cs of [] \<Rightarrow> [[c]] | f # fs \<Rightarrow> (c # f) # fs)"

fun dec_num :: "int \<Rightarrow> string \<Rightarrow> int option" where
  "dec_num acc [] = Some acc"
| "dec_num acc (c # cs) =
     (case dec_digit c of None \<Rightarrow> None | Some d \<Rightarrow> dec_num (10 * acc + d) cs)"

text \<open>One octet: digits only, no leading zero, at most 255.\<close>

definition octet :: "string \<Rightarrow> int option" where
  "octet s =
     (if s = [] \<or> (length s > 1 \<and> hd s = CHR ''0'') then None
      else case dec_num 0 s of None \<Rightarrow> None | Some n \<Rightarrow> if n \<le> 255 then Some n else None)"

definition parse_ipv4 :: "string \<Rightarrow> int option" where
  "parse_ipv4 s =
     (case split_at CHR ''.'' s of
        [a, b, c, d] \<Rightarrow>
          (case (octet a, octet b, octet c, octet d) of
             (Some a, Some b, Some c, Some d) \<Rightarrow> Some (((a * 256 + b) * 256 + c) * 256 + d)
           | _ \<Rightarrow> None)
      | _ \<Rightarrow> None)"

text \<open>The leading hex digits of a group: their value, how many they are, and the rest.\<close>

fun hex_group :: "int \<Rightarrow> nat \<Rightarrow> string \<Rightarrow> int \<times> nat \<times> string" where
  "hex_group acc n [] = (acc, n, [])"
| "hex_group acc n (c # cs) =
     (case hex_digit c of
        None \<Rightarrow> (acc, n, c # cs)
      | Some d \<Rightarrow> hex_group (16 * acc + d) (Suc n) cs)"

text \<open>
  The loop of \<^verbatim>\<open>parseIPv6\<close>: at most eight groups of 16 bits, in \<open>gs\<close> those read so far, in
  \<open>ell\<close> how many stood before a \<^verbatim>\<open>::\<close>; a trailing dotted quad fills two groups.
\<close>

fun ipv6_groups :: "nat \<Rightarrow> string \<Rightarrow> int list \<Rightarrow> nat option \<Rightarrow> (int list \<times> nat option) option" where
  "ipv6_groups 0 s gs ell = (if s = [] then Some (gs, ell) else None)"
| "ipv6_groups (Suc k) s gs ell =
     (let (acc, n, rest) = hex_group 0 0 s in
      if n = 0 \<or> n > 4 then None
      else if rest \<noteq> [] \<and> hd rest = CHR ''.'' then
        (if (ell = None \<and> length gs \<noteq> 6) \<or> length gs > 6 then None
         else case parse_ipv4 s of
                None \<Rightarrow> None
              | Some v \<Rightarrow> Some (gs @ [v div 65536, v mod 65536], ell))
      else if rest = [] then Some (gs @ [acc], ell)
      else if hd rest \<noteq> CHR '':'' \<or> tl rest = [] then None
      else if hd (tl rest) = CHR '':'' then
        (if ell \<noteq> None then None
         else if tl (tl rest) = [] then Some (gs @ [acc], Some (Suc (length gs)))
         else ipv6_groups k (tl (tl rest)) (gs @ [acc]) (Some (Suc (length gs))))
      else ipv6_groups k (tl rest) (gs @ [acc]) ell)"

fun groups_num :: "int list \<Rightarrow> int" where
  "groups_num gs = foldl (\<lambda>a g. a * 65536 + g) 0 gs"

definition parse_ipv6 :: "string \<Rightarrow> int option" where
  "parse_ipv6 s =
     (let lead = (take 2 s = ''::'') in
      if lead \<and> drop 2 s = [] then Some 0
      else case ipv6_groups 8 (if lead then drop 2 s else s) [] (if lead then Some 0 else None) of
             None \<Rightarrow> None
           | Some (gs, ell) \<Rightarrow>
               if length gs < 8 then
                 (case ell of
                    None \<Rightarrow> None
                  | Some e \<Rightarrow> Some (groups_num (take e gs @ replicate (8 - length gs) 0 @ drop e gs)))
               else if ell \<noteq> None then None
               else Some (groups_num gs))"

definition ParseAddr :: "string \<Rightarrow> addr option" where
  "ParseAddr s =
     (case find (\<lambda>c. c = CHR ''.'' \<or> c = CHR '':'' \<or> c = CHR ''%'') s of
        None \<Rightarrow> None
      | Some c \<Rightarrow>
          if c = CHR ''.'' then map_option (\<lambda>n. Addr4 (word_of_int n)) (parse_ipv4 s)
          else if c = CHR '':'' then map_option (\<lambda>n. Addr6 (word_of_int n)) (parse_ipv6 s)
          else None)"

subsection \<open>net.ParseCIDR\<close>

record IPNet =
  net_bits :: nat
  net_ones :: nat
  net_addr :: int

definition host_bits :: "IPNet \<Rightarrow> nat" where
  "host_bits n = net_bits n - net_ones n"

definition mask_addr :: "nat \<Rightarrow> int \<Rightarrow> int" where
  "mask_addr h a = a div 2 ^ h * 2 ^ h"

definition ParseCIDR :: "string \<Rightarrow> IPNet option" where
  "ParseCIDR s =
     (case split_at CHR ''/'' s of
        a # m # ms \<Rightarrow>
          (case ParseAddr a of
             None \<Rightarrow> None
           | Some ip \<Rightarrow>
               (case (if m = [] \<or> ms \<noteq> [] then None else dec_num 0 m) of
                  None \<Rightarrow> None
                | Some n \<Rightarrow>
                    if n \<le> int (Addr_BitLen ip)
                    then Some \<lparr>net_bits = Addr_BitLen ip, net_ones = nat n,
                               net_addr = mask_addr (Addr_BitLen ip - nat n) (Addr_num ip)\<rparr>
                    else None))
      | _ \<Rightarrow> None)"

text \<open>
  \<^verbatim>\<open>ip.To4() != nil\<close> on the bytes of a network: a four-byte address, or a sixteen-byte one that
  starts with ten zero bytes and two bytes \<^verbatim>\<open>0xff\<close>.
\<close>

definition net_To4 :: "IPNet \<Rightarrow> bool" where
  "net_To4 n \<longleftrightarrow> net_bits n = 32 \<or> net_addr n div 2 ^ 32 = 65535"

text \<open>\<^verbatim>\<open>ipNet.Contains(ip)\<close> for an address of the same width.\<close>

definition net_Contains :: "IPNet \<Rightarrow> int \<Rightarrow> bool" where
  "net_Contains n a \<longleftrightarrow> mask_addr (host_bits n) a = net_addr n"

definition net_ok :: "IPNet \<Rightarrow> bool" where
  "net_ok n \<longleftrightarrow> (net_bits n = 32 \<or> net_bits n = 128) \<and> net_ones n \<le> net_bits n \<and>
     0 \<le> net_addr n \<and> net_addr n < 2 ^ net_bits n \<and> net_addr n mod 2 ^ host_bits n = 0"

subsection \<open>Lemmas\<close>

lemma mask_addr_mod [simp]: "mask_addr h a mod 2 ^ h = 0"
  by (simp add: mask_addr_def)

lemma mask_addr_le: "mask_addr h a \<le> a"
proof -
  have "0 \<le> a mod 2 ^ h" by simp
  then show ?thesis
    unfolding mask_addr_def using div_mult_mod_eq [of a "2 ^ h"] by linarith
qed

lemma mask_addr_nonneg: "0 \<le> a \<Longrightarrow> 0 \<le> mask_addr h a"
  by (simp add: mask_addr_def pos_imp_zdiv_nonneg_iff)

lemma mask_addr_add: "a mod 2 ^ h = 0 \<Longrightarrow> 0 \<le> k \<Longrightarrow> k < 2 ^ h \<Longrightarrow> mask_addr h (a + k) = a"
  unfolding mask_addr_def by (auto simp: mod_eq_0_iff_dvd elim!: dvdE)

lemma mask_addr_word: "uint (w AND NOT (mask h)) = mask_addr h (uint (w :: 'a::len word))"
proof -
  have "uint (w AND NOT (mask h)) = uint w AND NOT (mask h)"
    by (simp add: bit_eq_iff bit_simps) (auto simp: bit_imp_le_length dest: bit_imp_le_length)
  also have "\<dots> = push_bit h (drop_bit h (uint w))"
    by (simp add: bit_eq_iff bit_simps) auto
  finally show ?thesis
    by (simp add: mask_addr_def push_bit_eq_mult drop_bit_eq_div)
qed

lemma Addr_num_less: "Addr_num a < 2 ^ Addr_BitLen a"
proof (cases a)
  case (Addr4 w)
  then show ?thesis using unsigned_less [of w] by (simp add: Addr_num_def Addr_BitLen_def)
next
  case (Addr6 w)
  then show ?thesis using unsigned_less [of w] by (simp add: Addr_num_def Addr_BitLen_def)
qed (simp add: Addr_num_def Addr_BitLen_def)

lemma Addr_num_nonneg: "0 \<le> Addr_num a"
  by (cases a) (simp_all add: Addr_num_def)

lemma ParseAddr_BitLen: "ParseAddr s = Some a \<Longrightarrow> Addr_BitLen a = 32 \<or> Addr_BitLen a = 128"
  by (auto simp: ParseAddr_def Addr_BitLen_def split: option.splits if_splits)

lemma ParseCIDR_ok: "ParseCIDR s = Some n \<Longrightarrow> net_ok n"
proof -
  assume "ParseCIDR s = Some n"
  then obtain ip k where ip: "\<exists>a. ParseAddr a = Some ip" and k: "k \<le> int (Addr_BitLen ip)"
    and n: "n = \<lparr>net_bits = Addr_BitLen ip, net_ones = nat k,
                 net_addr = mask_addr (Addr_BitLen ip - nat k) (Addr_num ip)\<rparr>"
    by (auto simp: ParseCIDR_def split: list.splits option.splits if_splits)
  have "mask_addr (Addr_BitLen ip - nat k) (Addr_num ip) < 2 ^ Addr_BitLen ip"
    using mask_addr_le Addr_num_less by (rule le_less_trans)
  with ip k n show ?thesis
    by (auto simp: net_ok_def host_bits_def mask_addr_nonneg Addr_num_nonneg dest: ParseAddr_BitLen)
qed

lemma net_Contains_offset:
  "net_ok n \<Longrightarrow> 0 \<le> k \<Longrightarrow> k < 2 ^ host_bits n \<Longrightarrow> net_Contains n (net_addr n + k)"
  by (simp add: net_Contains_def net_ok_def mask_addr_add)

lemma net_Contains_ge: "net_Contains n a \<Longrightarrow> net_addr n \<le> a"
  unfolding net_Contains_def using mask_addr_le by metis

lemma net_Contains_less: "net_Contains n a \<Longrightarrow> a < net_addr n + 2 ^ host_bits n"
proof -
  assume "net_Contains n a"
  then have "a = net_addr n + a mod 2 ^ host_bits n"
    using div_mult_mod_eq [of a "2 ^ host_bits n"] by (simp add: net_Contains_def mask_addr_def)
  moreover have "a mod 2 ^ host_bits n < 2 ^ host_bits n" by simp
  ultimately show ?thesis by linarith
qed

lemma net_room: "net_ok n \<Longrightarrow> k < 2 ^ host_bits n \<Longrightarrow> net_addr n + k < 2 ^ net_bits n"
proof -
  assume ok: "net_ok n" and k: "k < 2 ^ host_bits n"
  obtain q where q: "net_addr n = 2 ^ host_bits n * q"
    using ok by (auto simp: net_ok_def mod_eq_0_iff_dvd elim!: dvdE)
  have bits: "(2::int) ^ net_bits n = 2 ^ host_bits n * 2 ^ net_ones n"
    using ok by (simp add: net_ok_def host_bits_def flip: power_add)
  have "q < 2 ^ net_ones n"
    using ok q bits by (simp add: net_ok_def)
  then have "2 ^ host_bits n * (q + 1) \<le> 2 ^ host_bits n * 2 ^ net_ones n"
    by (intro mult_left_mono) simp_all
  with q k bits show ?thesis by (simp add: distrib_left)
qed

end
