(* ===== verification/IPAllocator.thy ===== *)
theory IPAllocator
  imports Prelude
begin

section \<open>What an address allocator promises\<close>

text \<open>
  Two parts of the daemon hand out addresses to pods: the IP set of an ENI
  (\<^verbatim>\<open>pkg/eni/types.go\<close>) and the bitmap IPAM over prefixes (\<^verbatim>\<open>pkg/eni/eni_local_ipam.go\<close>). The
  contract they share is stated here once: a pod is given an address nobody else owns, an address changes hands only
  after its owner has returned it, and a return never touches what another pod owns. The
  consequence, for every sequence of requests and returns, is proved inside the locale and
  reaches the components through their interpretations.
\<close>

datatype ('o, 'p, 'a) alloc_op = Take 'o 'p | Give 'p 'a

text \<open>
  One operation, and the state after a sequence of them; a refused request changes nothing. The
  first argument of a request is what the run time chooses for it, such as the order in which it
  visits a map.
\<close>

fun alloc_exec ::
  "('o \<Rightarrow> 'p \<Rightarrow> 's \<Rightarrow> ('a \<times> 's) option) \<Rightarrow> ('p \<Rightarrow> 'a \<Rightarrow> 's \<Rightarrow> 's) \<Rightarrow> ('o, 'p, 'a) alloc_op \<Rightarrow> 's \<Rightarrow> 's"
where
  "alloc_exec allocate release (Take ch p) s = (case allocate ch p s of None \<Rightarrow> s | Some (_, s') \<Rightarrow> s')"
| "alloc_exec allocate release (Give p a) s = release p a s"

definition alloc_run ::
  "('o \<Rightarrow> 'p \<Rightarrow> 's \<Rightarrow> ('a \<times> 's) option) \<Rightarrow> ('p \<Rightarrow> 'a \<Rightarrow> 's \<Rightarrow> 's) \<Rightarrow> ('o, 'p, 'a) alloc_op list \<Rightarrow> 's \<Rightarrow> 's"
where
  "alloc_run allocate release ops s = fold (alloc_exec allocate release) ops s"

fun alloc_pod :: "('o, 'p, 'a) alloc_op \<Rightarrow> 'p" where
  "alloc_pod (Take ch p) = p"
| "alloc_pod (Give p a) = p"

locale ip_allocator =
  fixes inv :: "'s \<Rightarrow> bool"
    and owner :: "'s \<Rightarrow> 'a \<Rightarrow> 'p option"
    and pod_ok :: "'p \<Rightarrow> bool"
    and allocate :: "'o \<Rightarrow> 'p \<Rightarrow> 's \<Rightarrow> ('a \<times> 's) option"
    and release :: "'p \<Rightarrow> 'a \<Rightarrow> 's \<Rightarrow> 's"
  assumes allocate_inv: "inv s \<Longrightarrow> pod_ok p \<Longrightarrow> allocate ch p s = Some (a, s') \<Longrightarrow> inv s'"
    and allocate_free: "inv s \<Longrightarrow> pod_ok p \<Longrightarrow> allocate ch p s = Some (a, s') \<Longrightarrow>
          owner s a = None \<or> owner s a = Some p"
    and allocate_owner: "inv s \<Longrightarrow> pod_ok p \<Longrightarrow> allocate ch p s = Some (a, s') \<Longrightarrow>
          owner s' = (owner s)(a \<mapsto> p)"
    and release_inv: "inv s \<Longrightarrow> pod_ok p \<Longrightarrow> inv (release p a s)"
    and release_owner: "inv s \<Longrightarrow> pod_ok p \<Longrightarrow>
          owner (release p a s) b = owner s b \<or>
          owner s b = Some p \<and> owner (release p a s) b = None"
begin

lemma exec_inv: "inv s \<Longrightarrow> pod_ok (alloc_pod x) \<Longrightarrow> inv (alloc_exec allocate release x s)"
  by (cases x) (auto simp: release_inv allocate_inv split: option.splits)

lemma run_inv: "inv s \<Longrightarrow> list_all (\<lambda>x. pod_ok (alloc_pod x)) ops \<Longrightarrow> inv (alloc_run allocate release ops s)"
  unfolding alloc_run_def by (induction ops arbitrary: s) (simp_all add: exec_inv)

lemma exec_keeps:
  assumes "inv s" and "pod_ok (alloc_pod x)" and "owner s a = Some p" and "\<forall>b. x \<noteq> Give p b"
  shows "owner (alloc_exec allocate release x s) a = Some p"
proof (cases x)
  case (Take ch q)
  show ?thesis
  proof (cases "allocate ch q s")
    case (Some r)
    obtain b s' where r: "r = (b, s')" by (cases r)
    have "owner s b = None \<or> owner s b = Some q" and "owner s' = (owner s)(b \<mapsto> q)"
      using assms(1,2) Take Some r by (auto dest: allocate_free allocate_owner)
    with assms(3) show ?thesis by (auto simp: Take Some r)
  qed (simp add: Take assms(3))
next
  case (Give q b)
  then have "q \<noteq> p" using assms(4) by auto
  with assms Give show ?thesis using release_owner [of s q b a] by auto
qed

text \<open>An owner keeps its address through every sequence in which it does not return one itself.\<close>

lemma run_keeps:
  assumes "inv s" and "list_all (\<lambda>x. pod_ok (alloc_pod x)) ops" and "owner s a = Some p"
    and "\<forall>b. Give p b \<notin> set ops"
  shows "owner (alloc_run allocate release ops s) a = Some p"
  using assms unfolding alloc_run_def
proof (induction ops arbitrary: s)
  case (Cons x ops)
  have "owner (alloc_exec allocate release x s) a = Some p"
    using Cons.prems by (intro exec_keeps) auto
  then show ?case
    using Cons by (simp add: exec_inv)
qed simp

text \<open>What a pod gets is its own from then on: nobody else is given the same address.\<close>

lemma no_second_owner:
  assumes "inv s" and "pod_ok p" and "allocate ch p s = Some (a, s1)"
    and "list_all (\<lambda>x. pod_ok (alloc_pod x)) ops" and "\<forall>b. Give p b \<notin> set ops"
    and "pod_ok q" and "allocate ch2 q (alloc_run allocate release ops s1) = Some (a, s2)"
  shows "q = p"
proof -
  have inv1: "inv s1" using assms(1-3) by (rule allocate_inv)
  have "owner s1 a = Some p"
    using assms(1-3) by (simp add: allocate_owner)
  then have "owner (alloc_run allocate release ops s1) a = Some p"
    using inv1 assms(4,5) by (simp add: run_keeps)
  moreover have "owner (alloc_run allocate release ops s1) a = None \<or> owner (alloc_run allocate release ops s1) a = Some q"
    using run_inv [OF inv1 assms(4)] assms(6,7) by (rule allocate_free)
  ultimately show ?thesis by simp
qed

end

end
