(* ===== verification/IPSet.thy ===== *)
theory IPSet
  imports NetAddr IPAllocator
begin

section \<open>The IP set of an ENI (pkg/eni/types.go)\<close>

text \<open>
  The type \<^verbatim>\<open>IP\<close> with its methods and the map \<^verbatim>\<open>Set\<close> from addresses to \<^verbatim>\<open>*IP\<close>. A pointer
  into the set is the address it is stored under, so a method that writes through the pointer is
  \<open>gm_adjust\<close> at that address. The loops that stop at the first match take the order of the
  iteration as an argument. The resource types and conditions the interfaces of the package
  exchange are here as well.
\<close>

datatype ipStatus = ipStatusInit | ipStatusValid | ipStatusInvalid | ipStatusDeleting

record IP =
  IP_ip :: addr
  IP_primary :: bool
  IP_podID :: string
  IP_status :: ipStatus

definition NewIP :: "addr \<Rightarrow> bool \<Rightarrow> IP" where
  "NewIP ip primary = \<lparr>IP_ip = ip, IP_primary = primary, IP_podID = [], IP_status = ipStatusInit\<rparr>"

definition NewValidIP :: "addr \<Rightarrow> bool \<Rightarrow> IP" where
  "NewValidIP ip primary = \<lparr>IP_ip = ip, IP_primary = primary, IP_podID = [], IP_status = ipStatusValid\<rparr>"

definition IP_Valid :: "IP \<Rightarrow> bool" where
  "IP_Valid ip \<longleftrightarrow> IP_status ip = ipStatusValid"

definition IP_Deleting :: "IP \<Rightarrow> bool" where
  "IP_Deleting ip \<longleftrightarrow> IP_status ip = ipStatusDeleting"

definition IP_InUse :: "IP \<Rightarrow> bool" where
  "IP_InUse ip \<longleftrightarrow> IP_podID ip \<noteq> []"

definition IP_Allocate :: "string \<Rightarrow> IP \<Rightarrow> IP" where
  "IP_Allocate podID ip = ip\<lparr>IP_podID := podID\<rparr>"

definition IP_Release :: "string \<Rightarrow> IP \<Rightarrow> IP" where
  "IP_Release podID ip = (if IP_podID ip \<noteq> podID then ip else ip\<lparr>IP_podID := []\<rparr>)"

definition IP_Dispose :: "IP \<Rightarrow> IP" where
  "IP_Dispose ip = (if IP_primary ip then ip else ip\<lparr>IP_status := ipStatusDeleting\<rparr>)"

definition IP_SetInvalid :: "IP \<Rightarrow> IP" where
  "IP_SetInvalid ip = ip\<lparr>IP_status := ipStatusInvalid\<rparr>"

definition IP_Allocatable :: "IP \<Rightarrow> bool" where
  "IP_Allocatable ip \<longleftrightarrow> IP_Valid ip \<and> \<not> IP_InUse ip"

subsection \<open>Set\<close>

type_synonym Set = "(addr, IP) gomap"

definition Set_Idles :: "Set \<Rightarrow> IP list" where
  "Set_Idles s = filter (\<lambda>v. \<not> IP_InUse v) (vals s)"

definition Set_InUse :: "Set \<Rightarrow> IP list" where
  "Set_InUse s = filter IP_InUse (vals s)"

definition Set_Allocatable :: "Set \<Rightarrow> IP list" where
  "Set_Allocatable s = filter IP_Allocatable (vals s)"

definition Set_PeekAvailable :: "(addr list \<Rightarrow> addr list) \<Rightarrow> string \<Rightarrow> Set \<Rightarrow> addr option" where
  "Set_PeekAvailable ord podID s =
     (case (if podID \<noteq> [] then range_find ord (\<lambda>v. IP_podID v = podID) s else None) of
        Some k \<Rightarrow> Some k
      | None \<Rightarrow> range_find ord IP_Allocatable s)"

definition Set_Add :: "IP \<Rightarrow> Set \<Rightarrow> Set" where
  "Set_Add ip s = AList.update (IP_ip ip) ip s"

definition Set_PutValid :: "addr list \<Rightarrow> Set \<Rightarrow> Set" where
  "Set_PutValid ips s =
     fold (\<lambda>v. AList.update v \<lparr>IP_ip = v, IP_primary = False, IP_podID = [], IP_status = ipStatusValid\<rparr>) ips s"

definition Set_PutDeleting :: "addr list \<Rightarrow> Set \<Rightarrow> Set" where
  "Set_PutDeleting ips s =
     fold (\<lambda>v. AList.update v \<lparr>IP_ip = v, IP_primary = False, IP_podID = [], IP_status = ipStatusDeleting\<rparr>) ips s"

definition Set_Delete :: "addr list \<Rightarrow> Set \<Rightarrow> Set" where
  "Set_Delete ips s = fold AList.delete ips s"

definition Set_Release :: "string \<Rightarrow> addr \<Rightarrow> Set \<Rightarrow> Set" where
  "Set_Release podID ip s =
     (case map_of s ip of None \<Rightarrow> s | Some _ \<Rightarrow> gm_adjust ip (IP_Release podID) s)"

definition Set_Deleting :: "(addr list \<Rightarrow> addr list) \<Rightarrow> Set \<Rightarrow> addr list" where
  "Set_Deleting ord s =
     concat (map (\<lambda>k. case map_of s k of
                        Some v \<Rightarrow> if IP_Deleting v then [IP_ip v] else []
                      | None \<Rightarrow> []) (ord (keys s)))"

definition Set_ByPodID :: "(addr list \<Rightarrow> addr list) \<Rightarrow> string \<Rightarrow> Set \<Rightarrow> addr option" where
  "Set_ByPodID ord podID s = range_find ord (\<lambda>v. IP_podID v = podID) s"

text \<open>The write \<^verbatim>\<open>ip.Allocate(podID)\<close> through a pointer into the set.\<close>

definition Set_Allocate :: "string \<Rightarrow> addr \<Rightarrow> Set \<Rightarrow> Set" where
  "Set_Allocate podID k s = gm_adjust k (IP_Allocate podID) s"

subsection \<open>Resource types and conditions\<close>

datatype ResourceType = ResourceTypeLocalIP | ResourceTypeVeth | ResourceTypeRemoteIP | ResourceTypeRDMA

datatype ConditionType = Full | ResourceTypeMismatch | NetworkInterfaceMismatch | InsufficientVSwitchIP

text \<open>The only reason a trace of the pool carries is the time an inhibition ends.\<close>

record Trace =
  Trace_Condition :: ConditionType
  Trace_Reason :: "time option"

abbreviation trace :: "ConditionType \<Rightarrow> Trace" where
  "trace c \<equiv> \<lparr>Trace_Condition = c, Trace_Reason = None\<rparr>"

subsection \<open>The invariant and the operations\<close>

text \<open>Every address is stored once, under itself.\<close>

definition set_ok :: "Set \<Rightarrow> bool" where
  "set_ok s \<longleftrightarrow> gm_ok s \<and> (\<forall>(k, v) \<in> set s. IP_ip v = k)"

lemmas IP_defs = IP_Valid_def IP_Deleting_def IP_InUse_def IP_Allocate_def IP_Release_def
  IP_Dispose_def IP_SetInvalid_def IP_Allocatable_def NewValidIP_def NewIP_def

lemma set_okI:
  "gm_ok s \<Longrightarrow> (\<And>k v. map_of s k = Some v \<Longrightarrow> IP_ip v = k) \<Longrightarrow> set_ok s"
  by (auto simp: set_ok_def gm_okD)

lemma set_ok_gm: "set_ok s \<Longrightarrow> gm_ok s"
  by (simp add: set_ok_def)

lemma set_okD: "set_ok s \<Longrightarrow> map_of s k = Some v \<Longrightarrow> IP_ip v = k"
  by (auto simp: set_ok_def dest: map_of_SomeD)

lemma set_ok_Nil [simp]: "set_ok []"
  by (simp add: set_ok_def)

lemma set_ok_update: "set_ok s \<Longrightarrow> IP_ip v = k \<Longrightarrow> set_ok (AList.update k v s)"
  by (rule set_okI) (auto simp: set_ok_gm map_of_update dest: set_okD split: if_splits)

lemma set_ok_delete: "set_ok s \<Longrightarrow> set_ok (AList.delete k s)"
  by (rule set_okI) (auto simp: set_ok_gm map_of_delete dest: set_okD split: if_splits)

lemma set_ok_adjust: "set_ok s \<Longrightarrow> (\<And>v. IP_ip (f v) = IP_ip v) \<Longrightarrow> set_ok (gm_adjust k f s)"
  by (rule set_okI) (auto simp: set_ok_gm map_of_adjust dest: set_okD split: if_splits)

lemma set_ok_gm_map: "set_ok s \<Longrightarrow> (\<And>v. IP_ip (f v) = IP_ip v) \<Longrightarrow> set_ok (gm_map f s)"
  by (rule set_okI) (auto simp: set_ok_gm map_of_gm_map dest: set_okD)

lemma set_ok_Add [intro]: "set_ok s \<Longrightarrow> set_ok (Set_Add ip s)"
  by (simp add: Set_Add_def set_ok_update)

lemma set_ok_PutValid [intro]: "set_ok s \<Longrightarrow> set_ok (Set_PutValid ips s)"
  unfolding Set_PutValid_def by (induction ips arbitrary: s) (simp_all add: set_ok_update)

lemma set_ok_PutDeleting [intro]: "set_ok s \<Longrightarrow> set_ok (Set_PutDeleting ips s)"
  unfolding Set_PutDeleting_def by (induction ips arbitrary: s) (simp_all add: set_ok_update)

lemma set_ok_Delete [intro]: "set_ok s \<Longrightarrow> set_ok (Set_Delete ips s)"
  unfolding Set_Delete_def by (induction ips arbitrary: s) (simp_all add: set_ok_delete)

lemma set_ok_Release [intro]: "set_ok s \<Longrightarrow> set_ok (Set_Release podID ip s)"
  by (auto simp: Set_Release_def IP_Release_def intro!: set_ok_adjust split: option.splits)

lemma set_ok_Allocate [intro]: "set_ok s \<Longrightarrow> set_ok (Set_Allocate podID ip s)"
  by (auto simp: Set_Allocate_def IP_Allocate_def intro!: set_ok_adjust)

lemma map_of_PutValid [gm_simps]:
  "map_of (Set_PutValid ips s) k =
     (if k \<in> set ips
      then Some \<lparr>IP_ip = k, IP_primary = False, IP_podID = [], IP_status = ipStatusValid\<rparr>
      else map_of s k)"
  unfolding Set_PutValid_def by (induction ips arbitrary: s) (auto simp: map_of_update)

lemma map_of_PutDeleting [gm_simps]:
  "map_of (Set_PutDeleting ips s) k =
     (if k \<in> set ips
      then Some \<lparr>IP_ip = k, IP_primary = False, IP_podID = [], IP_status = ipStatusDeleting\<rparr>
      else map_of s k)"
  unfolding Set_PutDeleting_def by (induction ips arbitrary: s) (auto simp: map_of_update)

lemma map_of_Delete [gm_simps]:
  "map_of (Set_Delete ips s) k = (if k \<in> set ips then None else map_of s k)"
  unfolding Set_Delete_def by (induction ips arbitrary: s) (auto simp: map_of_delete)

lemma map_of_Release [gm_simps]:
  "map_of (Set_Release podID ip s) k =
     (if k = ip then map_option (IP_Release podID) (map_of s k) else map_of s k)"
  by (auto simp: Set_Release_def map_of_adjust split: option.splits)

lemma map_of_Allocate [gm_simps]:
  "map_of (Set_Allocate podID ip s) k =
     (if k = ip then map_option (IP_Allocate podID) (map_of s k) else map_of s k)"
  by (simp add: Set_Allocate_def map_of_adjust)

lemma keys_Release [simp]: "keys (Set_Release podID ip s) = keys s"
  by (simp add: Set_Release_def split: option.splits)

lemma keys_Allocate [simp]: "keys (Set_Allocate podID ip s) = keys s"
  by (simp add: Set_Allocate_def)

lemma length_Idles_InUse: "length (Set_Idles s) + length (Set_InUse s) = length s"
  using length_filter_split [of "vals s" IP_InUse] by (simp add: Set_Idles_def Set_InUse_def)

lemma Set_InUse_empty: "set_ok s \<Longrightarrow> Set_InUse s = [] \<longleftrightarrow> (\<forall>k v. map_of s k = Some v \<longrightarrow> \<not> IP_InUse v)"
proof
  assume "Set_InUse s = []"
  then show "\<forall>k v. map_of s k = Some v \<longrightarrow> \<not> IP_InUse v"
    by (fastforce simp: Set_InUse_def filter_empty_conv dest: map_of_SomeD)
next
  assume ok: "set_ok s" and free: "\<forall>k v. map_of s k = Some v \<longrightarrow> \<not> IP_InUse v"
  have "\<not> IP_InUse (snd kv)" if "kv \<in> set s" for kv
    using gm_okD [OF set_ok_gm [OF ok], of "fst kv" "snd kv"] that free by simp
  then show "Set_InUse s = []"
    by (simp add: Set_InUse_def filter_empty_conv)
qed

lemma Set_Deleting_sound:
  assumes "set_ok s" and "range_order ord" and "k \<in> set (Set_Deleting ord s)"
  shows "\<exists>v. map_of s k = Some v \<and> IP_Deleting v"
proof -
  obtain x v where "map_of s x = Some v" and "IP_Deleting v" and "k = IP_ip v"
    using assms(3) by (auto simp: Set_Deleting_def split: option.splits if_splits) (metis that)
  with assms(1) show ?thesis by (metis set_okD)
qed

lemma Set_Deleting_complete:
  assumes "set_ok s" and "range_order ord" and "map_of s k = Some v" and "IP_Deleting v"
  shows "k \<in> set (Set_Deleting ord s)"
proof -
  have "k \<in> set (ord (keys s))"
    using assms(2,3) by (auto simp: range_order_set dest: map_of_SomeD intro: rev_image_eqI)
  moreover have "IP_ip v = k" using assms(1,3) by (rule set_okD)
  ultimately show ?thesis
    using assms(3,4) unfolding Set_Deleting_def by (auto intro!: bexI [of _ k])
qed

subsection \<open>PeekAvailable\<close>

lemma Peek_Some:
  assumes "Set_PeekAvailable ord podID s = Some k"
  shows "\<exists>v. map_of s k = Some v \<and> (podID \<noteq> [] \<and> IP_podID v = podID \<or> IP_Allocatable v)"
proof (cases "if podID \<noteq> [] then range_find ord (\<lambda>v. IP_podID v = podID) s else None")
  case None
  with assms have "range_find ord IP_Allocatable s = Some k"
    by (simp add: Set_PeekAvailable_def)
  then show ?thesis using range_find_Some by fastforce
next
  case (Some k')
  with assms have "podID \<noteq> []" and "range_find ord (\<lambda>v. IP_podID v = podID) s = Some k"
    by (simp_all add: Set_PeekAvailable_def split: if_splits)
  then show ?thesis using range_find_Some by fastforce
qed

lemma Peek_None:
  assumes "range_order ord" and "Set_PeekAvailable ord podID s = None" and "map_of s k = Some v"
  shows "\<not> IP_Allocatable v \<and> (podID \<noteq> [] \<longrightarrow> IP_podID v \<noteq> podID)"
  using assms by (auto simp: Set_PeekAvailable_def dest: range_find_None split: option.splits if_splits)

lemma Peek_sticky:
  assumes "range_order ord" and "map_of s k = Some v" and "IP_podID v = podID" and "podID \<noteq> []"
  shows "\<exists>k' v'. Set_PeekAvailable ord podID s = Some k' \<and> map_of s k' = Some v' \<and> IP_podID v' = podID"
proof -
  obtain k' where k': "range_find ord (\<lambda>v. IP_podID v = podID) s = Some k'"
    using range_find_exists [OF assms(1,2), of "\<lambda>v. IP_podID v = podID"] assms(3) by auto
  with assms(4) have "Set_PeekAvailable ord podID s = Some k'"
    by (simp add: Set_PeekAvailable_def)
  with range_find_Some [OF k'] show ?thesis by blast
qed

lemma Peek_Allocate_other:
  assumes "Set_PeekAvailable ord podID s = Some k" and "map_of s k' = Some v" and "IP_InUse v"
    and "IP_podID v \<noteq> podID"
  shows "map_of (Set_Allocate podID k s) k' = Some v"
  using Peek_Some [OF assms(1)] assms(2-4) by (auto simp: map_of_Allocate IP_defs)

subsection \<open>The set as an address allocator\<close>

text \<open>The pod an address is allocated to; an address with no pod, or not in the set, has none.\<close>

definition Set_owner :: "Set \<Rightarrow> addr \<Rightarrow> string option" where
  "Set_owner s k =
     (case map_of s k of None \<Rightarrow> None | Some v \<Rightarrow> if IP_InUse v then Some (IP_podID v) else None)"

definition Set_take :: "(addr list \<Rightarrow> addr list) \<Rightarrow> string \<Rightarrow> Set \<Rightarrow> (addr \<times> Set) option" where
  "Set_take ord podID s =
     map_option (\<lambda>k. (k, Set_Allocate podID k s)) (Set_PeekAvailable ord podID s)"

lemma Set_owner_Release:
  "Set_owner (Set_Release p a s) b = (if b = a \<and> Set_owner s a = Some p then None else Set_owner s b)"
  by (auto simp: Set_owner_def map_of_Release IP_defs split: option.splits)

lemma Set_owner_Allocate:
  "map_of s a \<noteq> None \<Longrightarrow> p \<noteq> [] \<Longrightarrow> Set_owner (Set_Allocate p a s) = (Set_owner s)(a \<mapsto> p)"
  by (auto simp: Set_owner_def map_of_Allocate IP_defs fun_eq_iff split: option.splits)

lemma Peek_free:
  "Set_PeekAvailable ord p s = Some k \<Longrightarrow> Set_owner s k = None \<or> Set_owner s k = Some p"
  by (drule Peek_Some) (auto simp: Set_owner_def IP_defs)

interpretation ipset: ip_allocator set_ok Set_owner "\<lambda>p. p \<noteq> []" Set_take Set_Release
proof unfold_locales
  fix s p a s' and ord :: "addr list \<Rightarrow> addr list"
  assume ok: "set_ok s" and p: "p \<noteq> []" and a: "Set_take ord p s = Some (a, s')"
  then have peek: "Set_PeekAvailable ord p s = Some a" and s': "s' = Set_Allocate p a s"
    by (auto simp: Set_take_def)
  show "set_ok s'" using ok s' by auto
  show "Set_owner s a = None \<or> Set_owner s a = Some p" using peek by (rule Peek_free)
  show "Set_owner s' = (Set_owner s)(a \<mapsto> p)"
    using Peek_Some [OF peek] p s' by (auto simp: Set_owner_Allocate)
qed (auto simp: Set_owner_Release)

subsection \<open>Exclusive ownership\<close>

text \<open>
  C1: an address of an ENI is never given to two pods. When \<^verbatim>\<open>PeekAvailable\<close> and \<^verbatim>\<open>Allocate\<close> gave
  an address to pod \<open>p\<close>, then after any sequence of further allocations and releases, each with
  its own iteration order over the map, in which \<open>p\<close> itself released nothing, whoever is given
  that address again is \<open>p\<close>.
\<close>

theorem Set_no_second_owner:
  assumes "set_ok s" and "p \<noteq> []" and "Set_take ord p s = Some (a, s1)"
    and "list_all (\<lambda>x. alloc_pod x \<noteq> []) ops" and "\<forall>b. Give p b \<notin> set ops"
    and "q \<noteq> []" and "Set_take ord2 q (alloc_run Set_take Set_Release ops s1) = Some (a, s2)"
  shows "q = p"
  using assms by (rule ipset.no_second_owner)

definition wit_set :: Set where
  "wit_set = Set_PutValid [Addr4 1, Addr4 2] []"

theorem Set_no_second_owner_witness:
  "Set_take rev ''b'' (alloc_run Set_take Set_Release [Take rev ''c'', Take id ''b'', Give ''c'' (Addr4 2)]
     (Set_Allocate ''b'' (Addr4 1) wit_set)) =
   Some (Addr4 1, Set_Allocate ''b'' (Addr4 1) wit_set) \<and> ''b'' = ''b''"
proof -
  have ops: "list_all (\<lambda>x. alloc_pod x \<noteq> []) [Take rev ''c'', Take id ''b'', Give ''c'' (Addr4 2)]"
    by simp
  have run: "Set_take rev ''b'' (alloc_run Set_take Set_Release [Take rev ''c'', Take id ''b'', Give ''c'' (Addr4 2)]
     (Set_Allocate ''b'' (Addr4 1) wit_set)) =
   Some (Addr4 1, Set_Allocate ''b'' (Addr4 1) wit_set)"
    by code_simp
  have ok: "set_ok wit_set" by (simp add: wit_set_def set_ok_PutValid)
  have first: "Set_take id ''b'' wit_set = Some (Addr4 1, Set_Allocate ''b'' (Addr4 1) wit_set)"
    by code_simp
  show ?thesis
    using Set_no_second_owner [OF ok _ first ops _ _ run] run by simp
qed

end
