(* ===== verification/NetTypes.thy ===== *)
theory NetTypes
  imports NetAddr
begin

section \<open>Gateways and address sets (pkg/ip, types/types.go)\<close>

text \<open>
  The address of a network by its index (\<^verbatim>\<open>pkg/ip/ip_cilium.go\<close>), the gateway of a vSwitch derived
  from it (\<^verbatim>\<open>pkg/ip/ip.go\<close>), and the pairs of an IPv4 and an IPv6 address or network the daemon
  passes around (\<^verbatim>\<open>types/types.go\<close>). A \<^verbatim>\<open>net.IP\<close> is an address here; where the code prints one and
  parses it again, the model passes the address.
\<close>

text \<open>\<^verbatim>\<open>ip.To4() == nil\<close>.\<close>

definition Addr_To4 :: "addr \<Rightarrow> bool" where
  "Addr_To4 a \<longleftrightarrow> (case a of NoAddr \<Rightarrow> False | Addr4 _ \<Rightarrow> True | Addr6 w \<Rightarrow> uint w div 2 ^ 32 = 65535)"

definition IPv6 :: "addr \<Rightarrow> bool" where
  "IPv6 a \<longleftrightarrow> \<not> Addr_To4 a"

fun ToIPAddrs :: "string list \<Rightarrow> addr list option" where
  "ToIPAddrs [] = Some []"
| "ToIPAddrs (s # ss) =
     (case ParseAddr s of
        None \<Rightarrow> None
      | Some i \<Rightarrow> (case ToIPAddrs ss of None \<Rightarrow> None | Some is \<Rightarrow> Some (i # is)))"

subsection \<open>Addresses by index\<close>

text \<open>
  The first and the last address of a network, as numbers. A sixteen-byte network for which
  \<^verbatim>\<open>To4\<close> succeeds grows to 28 bytes there, and no such value is inside any network.
\<close>

definition ipNetToRange :: "IPNet \<Rightarrow> (int \<times> int) option" where
  "ipNetToRange n =
     (if net_bits n = 128 \<and> net_To4 n then None
      else Some (net_addr n, net_addr n + 2 ^ host_bits n - 1))"

text \<open>
  \<^verbatim>\<open>val.Bytes()\<close> is the absolute value without leading zero bytes, and \<^verbatim>\<open>Contains\<close> refuses every
  slice that has not the length of the network.
\<close>

definition GetIPAtIndex :: "IPNet \<Rightarrow> int \<Rightarrow> addr option" where
  "GetIPAtIndex n index =
     (case ipNetToRange n of
        None \<Rightarrow> None
      | Some (firstIP, lastIP) \<Rightarrow>
          let val = (if index \<ge> 0 then firstIP + index else lastIP + (index + 1)); b = \<bar>val\<bar> in
          if 2 ^ (net_bits n - 8) \<le> b \<and> b < 2 ^ net_bits n \<and> net_Contains n b
          then Some (if net_bits n = 32 then Addr4 (word_of_int b) else Addr6 (word_of_int b))
          else None)"

definition DeriveGatewayIP :: "string \<Rightarrow> addr option" where
  "DeriveGatewayIP cidr =
     (if cidr = [] then None
      else case ParseCIDR cidr of None \<Rightarrow> None | Some ipNet \<Rightarrow> GetIPAtIndex ipNet (- 3))"

subsection \<open>Sets of two\<close>

record IPSet2 =
  Set2_IPv4 :: addr
  Set2_IPv6 :: addr

record IPSet =
  IPSet_IPv4 :: "addr option"
  IPSet_IPv6 :: "addr option"

record IPNetSet =
  NetSet_IPv4 :: "IPNet option"
  NetSet_IPv6 :: "IPNet option"

definition no_IPSet :: IPSet where
  "no_IPSet = \<lparr>IPSet_IPv4 = None, IPSet_IPv6 = None\<rparr>"

definition no_IPNetSet :: IPNetSet where
  "no_IPNetSet = \<lparr>NetSet_IPv4 = None, NetSet_IPv6 = None\<rparr>"

definition SetIP :: "addr option \<Rightarrow> IPSet \<Rightarrow> IPSet" where
  "SetIP ip i =
     (case ip of
        None \<Rightarrow> i
      | Some ip \<Rightarrow> if IPv6 ip then i\<lparr>IPSet_IPv6 := Some ip\<rparr> else i\<lparr>IPSet_IPv4 := Some ip\<rparr>)"

text \<open>
  \<^verbatim>\<open>net.ParseCIDR\<close> returns the address before the slash as well as the network; the family is
  that of the address.
\<close>

definition SetIPNet :: "string \<Rightarrow> IPNetSet \<Rightarrow> IPNetSet" where
  "SetIPNet str i =
     (case ParseCIDR str of
        None \<Rightarrow> i
      | Some ipNet \<Rightarrow>
          (case ParseAddr (hd (split_at CHR ''/'' str)) of
             None \<Rightarrow> i
           | Some ip \<Rightarrow> if IPv6 ip then i\<lparr>NetSet_IPv6 := Some ipNet\<rparr> else i\<lparr>NetSet_IPv4 := Some ipNet\<rparr>))"

subsection \<open>Where the gateway is\<close>

lemma ipNetToRange_v4: "net_bits n = 32 \<Longrightarrow> ipNetToRange n = Some (net_addr n, net_addr n + 2 ^ host_bits n - 1)"
  by (simp add: ipNetToRange_def)

lemma net_Contains_iff: "net_Contains n a \<longleftrightarrow> net_addr n \<le> a \<and> a < net_addr n + 2 ^ host_bits n" if "net_ok n"
proof
  assume r: "net_addr n \<le> a \<and> a < net_addr n + 2 ^ host_bits n"
  then show "net_Contains n a" using net_Contains_offset [OF that, of "a - net_addr n"] by simp
qed (auto dest: net_Contains_ge net_Contains_less)

text \<open>
  C22: the gateway of an IPv4 network is its third address from the end, for every network of at
  least four addresses that does not start with a zero byte; a smaller network has no gateway.
\<close>

theorem DeriveGatewayIP_third_from_end:
  assumes "ParseCIDR cidr = Some n" and "net_bits n = 32" and "2 ^ 24 \<le> net_addr n"
  shows "DeriveGatewayIP cidr =
    (if net_ones n \<le> 30 then Some (Addr4 (word_of_int (net_addr n + 2 ^ (32 - net_ones n) - 3))) else None)"
proof -
  have ok: "net_ok n" using assms(1) by (rule ParseCIDR_ok)
  have cidr: "cidr \<noteq> []" using assms(1) by (auto simp: ParseCIDR_def)
  have h: "host_bits n = 32 - net_ones n" using assms(2) by (simp add: host_bits_def)
  let ?v = "net_addr n + 2 ^ host_bits n - 3"
  have gw: "DeriveGatewayIP cidr = GetIPAtIndex n (- 3)"
    using assms(1) cidr by (simp add: DeriveGatewayIP_def)
  have "0 < (2::int) ^ host_bits n" by simp
  moreover have "3 \<le> net_addr n" using assms(3) by simp
  ultimately have abs: "\<bar>?v\<bar> = ?v" by linarith
  have at: "GetIPAtIndex n (- 3) =
    (if 2 ^ 24 \<le> ?v \<and> ?v < 2 ^ 32 \<and> net_Contains n ?v then Some (Addr4 (word_of_int ?v)) else None)"
    unfolding GetIPAtIndex_def ipNetToRange_v4 [OF assms(2)] option.case prod.case Let_def
    using abs assms(2) by (simp add: algebra_simps)
  show ?thesis
  proof (cases "net_ones n \<le> 30")
    case True
    have "(2::int) ^ 2 \<le> 2 ^ host_bits n" using True h by (intro power_increasing) simp_all
    then have four: "4 \<le> (2::int) ^ host_bits n" by simp
    then have "net_Contains n ?v" unfolding net_Contains_iff [OF ok] by simp
    moreover have "?v < 2 ^ 32"
      using net_room [OF ok, of "2 ^ host_bits n - 3"] assms(2) by (simp add: algebra_simps)
    ultimately show ?thesis using gw at four assms(3) h True by simp
  next
    case False
    have "host_bits n = 0 \<or> host_bits n = 1" using False h by auto
    then have "(2::int) ^ host_bits n \<le> 2" by auto
    then have "\<not> net_Contains n ?v" unfolding net_Contains_iff [OF ok] by simp
    then show ?thesis using gw at False by simp
  qed
qed

theorem DeriveGatewayIP_third_from_end_witness:
  "ParseCIDR ''192.168.4.0/22'' = Some \<lparr>net_bits = 32, net_ones = 22, net_addr = 3232236544\<rparr> \<and>
   DeriveGatewayIP ''192.168.4.0/22'' = Some (Addr4 3232237565)"
proof -
  have p: "ParseCIDR ''192.168.4.0/22'' = Some \<lparr>net_bits = 32, net_ones = 22, net_addr = 3232236544\<rparr>" by code_simp
  from DeriveGatewayIP_third_from_end [OF p] show ?thesis using p by simp
qed

end
