(* ===== verification/LocalENI.thy ===== *)
theory LocalENI
  imports IPSet NetTypes
begin

section \<open>A local ENI: requests, pool and jobs (pkg/eni/local.go)\<close>

text \<open>
  The type \<^verbatim>\<open>Local\<close> and each of its methods as a function on its record. A method runs under the
  lock of the ENI, so one call is one function; the two worker loops give up the lock around their
  calls of the cloud and are cut there into the functions \<open>fa_*\<close> and \<open>fd_*\<close> (their interleaving
  is the step relation of \<^verbatim>\<open>LocalSystem\<close>).

  A \<^verbatim>\<open>*LocalIPRequest\<close> is compared by identity, so a request carries a number; the cancelled
  worker contexts are the numbers in \<open>Local_cancelled\<close>. \<^verbatim>\<open>Len\<close> of a job list drops the cancelled
  requests from the list itself, so every function that calls it returns the shortened list. What
  the factory, the rate limiter and the clock answer are arguments. Logs, metrics, node events and
  the cache behind the orphan report are left out.
\<close>

datatype error = ApiError string | ErrInvalidDataType | ErrInvalidResourceID | ErrOther

definition ErrorCodeIs :: "error \<Rightarrow> string list \<Rightarrow> bool" where
  "ErrorCodeIs err codes = (case err of ApiError c \<Rightarrow> c \<in> set codes | _ \<Rightarrow> False)"

abbreviation ErrEniPerInstanceLimitExceeded :: string where
  "ErrEniPerInstanceLimitExceeded \<equiv> ''EniPerInstanceLimitExceeded''"
abbreviation InvalidVSwitchIDIPNotEnough :: string where
  "InvalidVSwitchIDIPNotEnough \<equiv> ''InvalidVSwitchId.IpNotEnough''"
abbreviation QuotaExceededPrivateIPAddress :: string where
  "QuotaExceededPrivateIPAddress \<equiv> ''QuotaExceeded.PrivateIpAddress''"

subsection \<open>Data\<close>

text \<open>\<^verbatim>\<open>daemon.ENI\<close> without its security groups; a nil primary address is \<open>NoAddr\<close>.\<close>

record ENI =
  ENI_ID :: string
  ENI_MAC :: string
  ENI_Trunk :: bool
  ENI_ERdma :: bool
  ENI_PrimaryIPv4 :: addr
  ENI_GatewayIP :: IPSet
  ENI_VSwitchCIDR :: IPNetSet
  ENI_VSwitchID :: string

record LocalIPRequest =
  Req_id :: nat
  Req_NetworkInterfaceID :: string
  Req_LocalIPType :: string
  Req_NoCache :: bool

datatype ResourceRequest = LocalReq LocalIPRequest | RemoteReq

primrec Request_ResourceType :: "ResourceRequest \<Rightarrow> ResourceType" where
  "Request_ResourceType (LocalReq r) = ResourceTypeLocalIP"
| "Request_ResourceType RemoteReq = ResourceTypeRemoteIP"

record LocalIPResource =
  Res_PodID :: string
  Res_ENI :: ENI
  Res_IPv4 :: addr
  Res_IPv6 :: addr

datatype NetworkResource = LocalRes LocalIPResource | RemoteRes ENI

primrec Resource_ResourceType :: "NetworkResource \<Rightarrow> ResourceType" where
  "Resource_ResourceType (LocalRes r) = ResourceTypeLocalIP"
| "Resource_ResourceType (RemoteRes e) = ResourceTypeRemoteIP"

datatype eniStatus = statusInit | statusCreating | statusInUse | statusDeleting

record Local =
  Local_batchSize :: int
  Local_cap :: int
  Local_allocatingV4 :: "LocalIPRequest list"
  Local_allocatingV6 :: "LocalIPRequest list"
  Local_dangingV4 :: "LocalIPRequest list"
  Local_dangingV6 :: "LocalIPRequest list"
  Local_eni :: "ENI option"
  Local_ipAllocInhibitExpireAt :: time
  Local_eniType :: string
  Local_enableIPv4 :: bool
  Local_enableIPv6 :: bool
  Local_ipv4 :: Set
  Local_ipv6 :: Set
  Local_status :: eniStatus
  Local_cancelled :: "nat list"

record PoolConfig =
  Pool_BatchSize :: int
  Pool_MaxIPPerENI :: int
  Pool_EnableIPv4 :: bool
  Pool_EnableIPv6 :: bool

definition NewLocal :: "ENI option \<Rightarrow> string \<Rightarrow> PoolConfig \<Rightarrow> Local" where
  "NewLocal eni eniType cfg =
     \<lparr>Local_batchSize = Pool_BatchSize cfg, Local_cap = Pool_MaxIPPerENI cfg,
      Local_allocatingV4 = [], Local_allocatingV6 = [], Local_dangingV4 = [], Local_dangingV6 = [],
      Local_eni = eni, Local_ipAllocInhibitExpireAt = 0, Local_eniType = eniType,
      Local_enableIPv4 = Pool_EnableIPv4 cfg, Local_enableIPv6 = Pool_EnableIPv6 cfg,
      Local_ipv4 = [], Local_ipv6 = [], Local_status = statusInit, Local_cancelled = []\<rparr>"

subsection \<open>Job lists\<close>

text \<open>\<^verbatim>\<open>AllocatingRequests.Len\<close>: the list without its cancelled requests, and its length.\<close>

definition AllocatingRequests_Len :: "nat list \<Rightarrow> LocalIPRequest list \<Rightarrow> LocalIPRequest list \<times> int" where
  "AllocatingRequests_Len cancelled a =
     (let filtered = filter (\<lambda>r. Req_id r \<notin> set cancelled) a in (filtered, int (length filtered)))"

definition Len4 :: "Local \<Rightarrow> Local \<times> int" where
  "Len4 l = (let (a, n) = AllocatingRequests_Len (Local_cancelled l) (Local_allocatingV4 l)
             in (l\<lparr>Local_allocatingV4 := a\<rparr>, n))"

definition Len6 :: "Local \<Rightarrow> Local \<times> int" where
  "Len6 l = (let (a, n) = AllocatingRequests_Len (Local_cancelled l) (Local_allocatingV6 l)
             in (l\<lparr>Local_allocatingV6 := a\<rparr>, n))"

definition LocalIPRequest_cancel :: "LocalIPRequest \<Rightarrow> Local \<Rightarrow> Local" where
  "LocalIPRequest_cancel r l = l\<lparr>Local_cancelled := Req_id r # Local_cancelled l\<rparr>"

definition Split :: "'a list \<Rightarrow> int \<Rightarrow> 'a list \<times> 'a list" where
  "Split arr index =
     (if index < 0 \<or> index > int (length arr) then (arr, [])
      else (take (nat index) arr, drop (nat index) arr))"

definition popNIPv4Jobs :: "int \<Rightarrow> Local \<Rightarrow> Local" where
  "popNIPv4Jobs n l =
     (let (firstPart, secondPart) = Split (Local_allocatingV4 l) n;
          danging = Local_dangingV4 l @ firstPart
      in fold (\<lambda>item l. if Req_NoCache item then LocalIPRequest_cancel item l else l) danging
           (l\<lparr>Local_dangingV4 := danging, Local_allocatingV4 := secondPart\<rparr>))"

definition popNIPv6Jobs :: "int \<Rightarrow> Local \<Rightarrow> Local" where
  "popNIPv6Jobs n l =
     (let (firstPart, secondPart) = Split (Local_allocatingV6 l) n;
          danging = Local_dangingV6 l @ firstPart
      in fold (\<lambda>item l. if Req_NoCache item then LocalIPRequest_cancel item l else l) danging
           (l\<lparr>Local_dangingV6 := danging, Local_allocatingV6 := secondPart\<rparr>))"

definition switchIPv4 :: "LocalIPRequest \<Rightarrow> Local \<Rightarrow> Local" where
  "switchIPv4 req l =
     (let kept = filter (\<lambda>item. Req_id item \<noteq> Req_id req) (Local_allocatingV4 l);
          found = (length kept \<noteq> length (Local_allocatingV4 l));
          l = l\<lparr>Local_allocatingV4 := kept\<rparr>
      in if \<not> found then l
         else let (danging, n) = AllocatingRequests_Len (Local_cancelled l) (Local_dangingV4 l);
                  l = l\<lparr>Local_dangingV4 := danging\<rparr>
              in if n = 0 then l
                 else l\<lparr>Local_allocatingV4 := kept @ [hd danging], Local_dangingV4 := tl danging\<rparr>)"

definition switchIPv6 :: "LocalIPRequest \<Rightarrow> Local \<Rightarrow> Local" where
  "switchIPv6 req l =
     (let kept = filter (\<lambda>item. Req_id item \<noteq> Req_id req) (Local_allocatingV6 l);
          found = (length kept \<noteq> length (Local_allocatingV6 l));
          l = l\<lparr>Local_allocatingV6 := kept\<rparr>
      in if \<not> found then l
         else let (danging, n) = AllocatingRequests_Len (Local_cancelled l) (Local_dangingV6 l);
                  l = l\<lparr>Local_dangingV6 := danging\<rparr>
              in if n = 0 then l
                 else l\<lparr>Local_allocatingV6 := kept @ [hd danging], Local_dangingV6 := tl danging\<rparr>)"

subsection \<open>Loading the state of a running node\<close>

text \<open>\<^verbatim>\<open>strings.SplitN(id, ".", 2)\<close>.\<close>

definition parseResourceID :: "string \<Rightarrow> (string \<times> string) option" where
  "parseResourceID ident =
     (case dropWhile (\<lambda>c. c \<noteq> CHR ''.'') ident of
        [] \<Rightarrow> None
      | _ # rest \<Rightarrow> Some (takeWhile (\<lambda>c. c \<noteq> CHR ''.'') ident, rest))"

abbreviation ResourceTypeENIIP :: string where
  "ResourceTypeENIIP \<equiv> ''eniIp''"

record ResourceItem =
  Item_Type :: string
  Item_ID :: string
  Item_ENIID :: string
  Item_IPv4 :: string
  Item_IPv6 :: string

record PodResources =
  PodRes_Resources :: "ResourceItem list"
  PodRes_Namespace :: string
  PodRes_Name :: string

text \<open>
  \<^verbatim>\<open>Add(NewValidIP(v, netip.MustParseAddr(v.String()) == primary))\<close> for the addresses of a new or
  a loaded ENI: printing and parsing a valid address gives it back, an invalid one panics.
\<close>

fun add_loaded :: "addr \<Rightarrow> addr list \<Rightarrow> Set \<Rightarrow> Set go" where
  "add_loaded primary [] s = Ret s"
| "add_loaded primary (v # vs) s =
     (if v = NoAddr then Panic else add_loaded primary vs (Set_Add (NewValidIP v (v = primary)) s))"

text \<open>One record of a pod: the sets after it, or the error the loading stops with.\<close>

definition load_item :: "ENI \<Rightarrow> string \<Rightarrow> ResourceItem \<Rightarrow> Set \<times> Set \<Rightarrow> error + Set \<times> Set" where
  "load_item eni podID res s = (case s of (ipv4, ipv6) \<Rightarrow>
     if Item_Type res \<noteq> ResourceTypeENIIP then Inr s
     else if Item_ENIID res = [] then
       (if Item_ID res = [] then Inr s
        else case parseResourceID (Item_ID res) of
               None \<Rightarrow> Inl ErrInvalidResourceID
             | Some (mac, ipStr) \<Rightarrow>
                 if mac \<noteq> ENI_MAC eni then Inr s
                 else case ParseAddr ipStr of
                        None \<Rightarrow> Inl ErrInvalidDataType
                      | Some ip \<Rightarrow>
                          if map_of ipv4 ip = None then Inr s
                          else Inr (Set_Allocate podID ip ipv4, ipv6))
     else if Item_ENIID res \<noteq> ENI_ID eni then Inr s
     else
       let ipv6_part = (\<lambda>ipv4'.
             if Item_IPv6 res = [] then Inr (ipv4', ipv6)
             else case ParseAddr (Item_IPv6 res) of
                    None \<Rightarrow> Inl ErrInvalidDataType
                  | Some ip \<Rightarrow>
                      if map_of ipv6 ip = None then Inr (ipv4', ipv6)
                      else Inr (ipv4', Set_Allocate podID ip ipv6))
       in if Item_IPv4 res = [] then ipv6_part ipv4
          else case ParseAddr (Item_IPv4 res) of
                 None \<Rightarrow> Inl ErrInvalidDataType
               | Some ip \<Rightarrow>
                   if map_of ipv4 ip = None then Inr s
                   else ipv6_part (Set_Allocate podID ip ipv4))"

fun load_items :: "ENI \<Rightarrow> (string \<times> ResourceItem) list \<Rightarrow> Set \<times> Set \<Rightarrow> error + Set \<times> Set" where
  "load_items eni [] s = Inr s"
| "load_items eni ((podID, res) # rs) s =
     (case load_item eni podID res s of Inl e \<Rightarrow> Inl e | Inr s' \<Rightarrow> load_items eni rs s')"

definition pod_items :: "PodResources list \<Rightarrow> (string \<times> ResourceItem) list" where
  "pod_items prs = concat (map (\<lambda>pr.
     map (\<lambda>res. (PodRes_Namespace pr @ ''/'' @ PodRes_Name pr, res)) (PodRes_Resources pr)) prs)"

text \<open>More addresses than the capacity: every idle one is disposed of.\<close>

definition trim_cap :: "int \<Rightarrow> Set \<Rightarrow> Set" where
  "trim_cap cap s =
     (if int (length s) > cap
      then gm_map (\<lambda>v. if IP_InUse v then v else IP_Dispose v) s else s)"

definition Local_load ::
  "(string \<Rightarrow> error + addr list \<times> addr list) \<Rightarrow> PodResources list \<Rightarrow> Local \<Rightarrow> (error + Local) go" where
  "Local_load LoadNetworkInterface podResources l =
     (case Local_eni l of
        None \<Rightarrow> Ret (Inr l)
      | Some eni \<Rightarrow>
          (case LoadNetworkInterface (ENI_MAC eni) of
             Inl e \<Rightarrow> Ret (Inl e)
           | Inr (ipv4, ipv6) \<Rightarrow>
               if ENI_PrimaryIPv4 eni = NoAddr then Ret (Inl ErrOther)
               else case add_loaded (ENI_PrimaryIPv4 eni) ipv4 (Local_ipv4 l) of
                      Panic \<Rightarrow> Panic
                    | Ret s4 \<Rightarrow>
                        (case load_items eni (pod_items podResources)
                                (s4, Set_PutValid ipv6 (Local_ipv6 l)) of
                           Inl e \<Rightarrow> Ret (Inl e)
                         | Inr (s4, s6) \<Rightarrow>
                             Ret (Inr (l\<lparr>Local_status := statusInUse,
                                        Local_ipv4 := trim_cap (Local_cap l) s4,
                                        Local_ipv6 := trim_cap (Local_cap l) s6\<rparr>)))))"

subsection \<open>Synchronising with the cloud\<close>

definition syncIPLocked :: "Set \<Rightarrow> addr list \<Rightarrow> Set" where
  "syncIPLocked lo remote =
     gm_map (\<lambda>v. if IP_status v = ipStatusValid \<and> IP_ip v \<notin> set remote then IP_SetInvalid v else v) lo"

definition Local_sync :: "(string \<Rightarrow> error + addr list \<times> addr list) \<Rightarrow> Local \<Rightarrow> Local" where
  "Local_sync LoadNetworkInterface l =
     (case Local_eni l of
        None \<Rightarrow> l
      | Some eni \<Rightarrow>
          if Local_status l \<noteq> statusInUse then l
          else case LoadNetworkInterface (ENI_MAC eni) of
                 Inl _ \<Rightarrow> l
               | Inr (ipv4, ipv6) \<Rightarrow>
                   l\<lparr>Local_ipv4 := syncIPLocked (Local_ipv4 l) ipv4,
                     Local_ipv6 := syncIPLocked (Local_ipv6 l) ipv6\<rparr>)"

subsection \<open>Requests\<close>

datatype alloc_answer =
    Refused "Trace list"
  | Direct "addr option" "addr option"
  | Queued LocalIPRequest

text \<open>
  One address family of \<^verbatim>\<open>Allocate\<close>: refused as full, or the address found in the pool (if any)
  and how many new ones are wanted. The list of jobs is shortened only where \<^verbatim>\<open>Len\<close> is called.
\<close>

definition want4 :: "(addr list \<Rightarrow> addr list) \<Rightarrow> string \<Rightarrow> LocalIPRequest \<Rightarrow> Local \<Rightarrow>
    Local \<times> (addr option \<times> nat) option" where
  "want4 ord podID req l =
     (if \<not> Local_enableIPv4 l then (l, Some (None, 0))
      else if Req_NoCache req then
        (let (l, n) = Len4 l in
         if int (length (Local_ipv4 l)) + n \<ge> Local_cap l then (l, None) else (l, Some (None, 1)))
      else case Set_PeekAvailable ord podID (Local_ipv4 l) of
             Some k \<Rightarrow> (l, Some (Some k, 0))
           | None \<Rightarrow>
               (let (l, n) = Len4 l in
                if int (length (Local_ipv4 l)) + n \<ge> Local_cap l then (l, None) else (l, Some (None, 1))))"

definition want6 :: "(addr list \<Rightarrow> addr list) \<Rightarrow> string \<Rightarrow> LocalIPRequest \<Rightarrow> Local \<Rightarrow>
    Local \<times> (addr option \<times> nat) option" where
  "want6 ord podID req l =
     (if \<not> Local_enableIPv6 l then (l, Some (None, 0))
      else if Req_NoCache req then
        (let (l, n) = Len6 l in
         if int (length (Local_ipv6 l)) + n \<ge> Local_cap l then (l, None) else (l, Some (None, 1)))
      else case Set_PeekAvailable ord podID (Local_ipv6 l) of
             Some k \<Rightarrow> (l, Some (Some k, 0))
           | None \<Rightarrow>
               (let (l, n) = Len6 l in
                if int (length (Local_ipv6 l)) + n \<ge> Local_cap l then (l, None) else (l, Some (None, 1))))"

text \<open>The writes through the pointers \<^verbatim>\<open>ipv4\<close> and \<^verbatim>\<open>ipv6\<close>, where they are not nil.\<close>

definition assign4 :: "string \<Rightarrow> addr option \<Rightarrow> Local \<Rightarrow> Local" where
  "assign4 podID k l =
     (case k of None \<Rightarrow> l | Some a \<Rightarrow> l\<lparr>Local_ipv4 := Set_Allocate podID a (Local_ipv4 l)\<rparr>)"

definition assign6 :: "string \<Rightarrow> addr option \<Rightarrow> Local \<Rightarrow> Local" where
  "assign6 podID k l =
     (case k of None \<Rightarrow> l | Some a \<Rightarrow> l\<lparr>Local_ipv6 := Set_Allocate podID a (Local_ipv6 l)\<rparr>)"

text \<open>\<^verbatim>\<open>Allocate\<close> after its guards: look in the pool, then queue what is missing.\<close>

definition alloc_pool ::
  "time \<Rightarrow> (addr list \<Rightarrow> addr list) \<Rightarrow> (addr list \<Rightarrow> addr list) \<Rightarrow> string \<Rightarrow> LocalIPRequest \<Rightarrow> Local \<Rightarrow>
   Local \<times> alloc_answer" where
  "alloc_pool now ord4 ord6 podID req l =
     (case want4 ord4 podID req l of
        (l, None) \<Rightarrow> (l, Refused [trace Full])
      | (l, Some (ipv4, expectV4)) \<Rightarrow>
          (case want6 ord6 podID req l of
             (l, None) \<Rightarrow> (l, Refused [trace Full])
           | (l, Some (ipv6, expectV6)) \<Rightarrow>
               if (expectV4 > 0 \<or> expectV6 > 0) \<and> now < Local_ipAllocInhibitExpireAt l
               then (l, Refused [\<lparr>Trace_Condition = InsufficientVSwitchIP,
                                  Trace_Reason = Some (Local_ipAllocInhibitExpireAt l)\<rparr>])
               else if (Local_enableIPv4 l \<longrightarrow> ipv4 \<noteq> None) \<and> (Local_enableIPv6 l \<longrightarrow> ipv6 \<noteq> None)
               then (assign6 podID ipv6 (assign4 podID ipv4 l), Direct ipv4 ipv6)
               else (l\<lparr>Local_allocatingV4 := Local_allocatingV4 l @ replicate expectV4 req,
                       Local_allocatingV6 := Local_allocatingV6 l @ replicate expectV6 req\<rparr>,
                     Queued req)))"

definition Local_Allocate ::
  "time \<Rightarrow> (addr list \<Rightarrow> addr list) \<Rightarrow> (addr list \<Rightarrow> addr list) \<Rightarrow> string \<Rightarrow> ResourceRequest \<Rightarrow> Local \<Rightarrow>
   Local \<times> alloc_answer" where
  "Local_Allocate now ord4 ord6 podID request l =
     (case request of
        RemoteReq \<Rightarrow> (l, Refused [trace ResourceTypeMismatch])
      | LocalReq req \<Rightarrow>
          if (Req_LocalIPType req = ''ERDMA'') \<noteq> (Local_eniType l = ''erdma'')
          then (l, Refused [trace ResourceTypeMismatch])
          else if Local_status l = statusDeleting then (l, Refused [])
          else if Req_NetworkInterfaceID req \<noteq> [] \<and>
                  (case Local_eni l of None \<Rightarrow> False | Some eni \<Rightarrow> ENI_ID eni \<noteq> Req_NetworkInterfaceID req)
          then (l, Refused [trace NetworkInterfaceMismatch])
          else alloc_pool now ord4 ord6 podID req l)"

definition Local_Release :: "string \<Rightarrow> NetworkResource \<Rightarrow> Local \<Rightarrow> Local \<times> bool" where
  "Local_Release podID request l =
     (case request of
        RemoteRes _ \<Rightarrow> (l, False)
      | LocalRes res \<Rightarrow>
          (case Local_eni l of
             None \<Rightarrow> (l, False)
           | Some eni \<Rightarrow>
               if ENI_ID eni \<noteq> ENI_ID (Res_ENI res) then (l, False)
               else
                 (let l = (if Addr_IsValid (Res_IPv4 res)
                           then l\<lparr>Local_ipv4 := Set_Release podID (Res_IPv4 res) (Local_ipv4 l)\<rparr> else l);
                      l = (if Addr_IsValid (Res_IPv6 res)
                           then l\<lparr>Local_ipv6 := Set_Release podID (Res_IPv6 res) (Local_ipv6 l)\<rparr> else l)
                  in (l, True))))"

definition Local_Priority :: "Local \<Rightarrow> int" where
  "Local_Priority l =
     (case Local_status l of
        statusDeleting \<Rightarrow> -100
      | st \<Rightarrow>
          (case st of statusInUse \<Rightarrow> 50 | statusCreating \<Rightarrow> 10 | _ \<Rightarrow> 0)
          + (if Local_enableIPv4 l then int (length (Local_ipv4 l)) else 0)
          + (if Local_enableIPv6 l then int (length (Local_ipv6 l)) else 0))"

subsection \<open>The worker of one request\<close>

text \<open>
  \<^verbatim>\<open>commit\<close>: \<open>delivered\<close> is the branch its \<^verbatim>\<open>select\<close> takes, the answer received or the context of
  the request done. The answer holds a copy of \<^verbatim>\<open>*l.eni\<close>, a panic if there is no ENI. The
  pointers are the addresses \<open>k4\<close> and \<open>k6\<close>; \<open>live4\<close> and \<open>live6\<close> say whether the objects they
  point to are still the ones in the sets (a write to a removed object is not seen by anyone).
\<close>

definition Local_commit ::
  "bool \<Rightarrow> addr option \<Rightarrow> bool \<Rightarrow> addr option \<Rightarrow> bool \<Rightarrow> string \<Rightarrow> Local \<Rightarrow>
   (Local \<times> LocalIPResource option) go" where
  "Local_commit delivered k4 live4 k6 live6 podID l =
     (let l = (if live4 then assign4 podID k4 l else l);
          l = (if live6 then assign6 podID k6 l else l)
      in case Local_eni l of
           None \<Rightarrow> Panic
         | Some eni \<Rightarrow>
             if delivered
             then Ret (l, Some \<lparr>Res_PodID = [], Res_ENI = eni,
                                Res_IPv4 = (case k4 of None \<Rightarrow> NoAddr | Some a \<Rightarrow> a),
                                Res_IPv6 = (case k6 of None \<Rightarrow> NoAddr | Some a \<Rightarrow> a)\<rparr>)
             else
               (let l = (case k4 of
                           Some a \<Rightarrow> if live4 then l\<lparr>Local_ipv4 := gm_adjust a (IP_Release podID) (Local_ipv4 l)\<rparr> else l
                         | None \<Rightarrow> l);
                    l = (case k6 of
                           Some a \<Rightarrow> if live6 then l\<lparr>Local_ipv6 := gm_adjust a (IP_Release podID) (Local_ipv6 l)\<rparr> else l
                         | None \<Rightarrow> l)
                in Ret (l, None)))"

datatype worker_outcome = WWait | WClosed | WEmpty | WAnswer LocalIPResource

text \<open>The deferred function of \<^verbatim>\<open>allocWorker\<close>.\<close>

definition allocWorker_defer :: "LocalIPRequest \<Rightarrow> Local \<Rightarrow> Local" where
  "allocWorker_defer req l = LocalIPRequest_cancel req (switchIPv6 req (switchIPv4 req l))"

text \<open>
  One turn of the loop of \<^verbatim>\<open>allocWorker\<close>, from getting the lock to waiting or returning:
  \<open>ctx_done\<close> is the state of the request's context, \<open>delivered\<close> the branch a \<^verbatim>\<open>select\<close> with two
  ready cases takes.
\<close>

definition Local_allocWorker ::
  "(addr list \<Rightarrow> addr list) \<Rightarrow> (addr list \<Rightarrow> addr list) \<Rightarrow> bool \<Rightarrow> bool \<Rightarrow> string \<Rightarrow> LocalIPRequest \<Rightarrow> Local \<Rightarrow>
   (Local \<times> worker_outcome) go" where
  "Local_allocWorker ord4 ord6 ctx_done delivered podID req l =
     (if Req_NoCache req then
        (if Req_id req \<in> set (Local_cancelled l)
         then Ret (allocWorker_defer req l, if delivered then WEmpty else WClosed)
         else if ctx_done then Ret (allocWorker_defer req l, WClosed)
         else Ret (l, WWait))
      else if ctx_done then Ret (allocWorker_defer req l, WClosed)
      else
        let k4 = (if Local_enableIPv4 l then Set_PeekAvailable ord4 podID (Local_ipv4 l) else None);
            k6 = (if Local_enableIPv6 l then Set_PeekAvailable ord6 podID (Local_ipv6 l) else None)
        in if Local_enableIPv4 l \<and> k4 = None \<or> Local_enableIPv6 l \<and> k6 = None then Ret (l, WWait)
           else case Local_commit delivered k4 True k6 True podID l of
                  Panic \<Rightarrow> Panic
                | Ret (l, Some res) \<Rightarrow> Ret (allocWorker_defer req l, WAnswer res)
                | Ret (l, None) \<Rightarrow> Ret (allocWorker_defer req l, WClosed))"

subsection \<open>The worker that gets addresses from the cloud\<close>

definition inhibit_until :: "time \<Rightarrow> Local \<Rightarrow> Local" where
  "inhibit_until next_at l =
     (if Local_ipAllocInhibitExpireAt l < next_at then l\<lparr>Local_ipAllocInhibitExpireAt := next_at\<rparr> else l)"

definition errorHandleLocked :: "time \<Rightarrow> error \<Rightarrow> Local \<Rightarrow> Local" where
  "errorHandleLocked now err l =
     (let l = (if ErrorCodeIs err [ErrEniPerInstanceLimitExceeded]
               then inhibit_until (now + 1 * minute) l else l)
      in if ErrorCodeIs err [InvalidVSwitchIDIPNotEnough, QuotaExceededPrivateIPAddress]
         then inhibit_until (now + 10 * minute) l else l)"

text \<open>
  Where the loop of \<^verbatim>\<open>factoryAllocWorker\<close> gave up the lock: at the head (waiting on the
  condition, or not yet started), in the short sleep, and around each call of the factory, before
  it is made (waiting for the rate limiter) and while it runs.
\<close>

datatype alloc_pc =
    FA_Head
  | FA_Sleep
  | FA_Create int int
  | FA_Assign4 string int int
  | FA_Assigning4 string int int
  | FA_Assign6 string int
  | FA_Assigning6 string int

text \<open>From the head to the sleep, or back to waiting.\<close>

definition fa_head :: "time \<Rightarrow> Local \<Rightarrow> Local \<times> alloc_pc" where
  "fa_head now l =
     (let (l, n4) = Len4 l;
          (l, n6) = (if n4 \<le> 0 then Len6 l else (l, 1))
      in if n4 \<le> 0 \<and> n6 \<le> 0 then (l, FA_Head)
         else if Local_status l = statusCreating \<or> Local_status l = statusDeleting then (l, FA_Head)
         else if now < Local_ipAllocInhibitExpireAt l then (l, FA_Head)
         else (l, FA_Sleep))"

text \<open>After the sleep: a new ENI, or new addresses on the one there is.\<close>

definition fa_wake :: "Local \<Rightarrow> Local \<times> alloc_pc" where
  "fa_wake l =
     (case Local_eni l of
        None \<Rightarrow>
          (let (l, v4Count) = (if Local_enableIPv4 l
                               then let (l, n) = Len4 l in (l, min (Local_batchSize l) (max n 1))
                               else (l, 0));
               (l, n6) = Len6 l;
               v6Count = min (Local_batchSize l) n6
           in (l\<lparr>Local_status := statusCreating\<rparr>, FA_Create v4Count v6Count))
      | Some eni \<Rightarrow>
          (let (l, n4) = Len4 l;
               v4Count = min (Local_batchSize l) n4;
               (l, n6) = Len6 l;
               v6Count = min (Local_batchSize l) n6
           in (l, if v4Count > 0 then FA_Assign4 (ENI_ID eni) v4Count v6Count
                  else if v6Count > 0 then FA_Assign6 (ENI_ID eni) v6Count
                  else FA_Head)))"

text \<open>The answers of the factory; \<open>RateLimited\<close> is the rate limiter giving up with its context.\<close>

datatype create_answer =
    RateLimited
  | CreateErr error "ENI option"
  | Created ENI "addr list" "addr list"

datatype assign_answer =
    AssignErr error "addr list"
  | Assigned "addr list"

text \<open>The jobs a new ENI takes off the lists.\<close>

definition created_jobs :: "int \<Rightarrow> int \<Rightarrow> ENI \<Rightarrow> addr list \<Rightarrow> Local \<Rightarrow> Local" where
  "created_jobs v4Count v6Count eni ipv6Set l =
     (let l = popNIPv4Jobs v4Count (l\<lparr>Local_eni := Some eni\<rparr>)
      in if \<not> Local_enableIPv4 l \<and> Local_enableIPv6 l
         then popNIPv6Jobs (int (length ipv6Set)) l else popNIPv6Jobs v6Count l)"

definition fa_created :: "time \<Rightarrow> int \<Rightarrow> int \<Rightarrow> create_answer \<Rightarrow> Local \<Rightarrow> Local go" where
  "fa_created now v4Count v6Count ans l =
     (case ans of
        RateLimited \<Rightarrow> Ret l
      | CreateErr err eni \<Rightarrow>
          Ret ((errorHandleLocked now err l)
                 \<lparr>Local_eni := eni,
                  Local_status := (if eni \<noteq> None then statusDeleting else statusInit)\<rparr>)
      | Created eni ipv4Set ipv6Set \<Rightarrow>
          (let l = created_jobs v4Count v6Count eni ipv6Set l
           in case (if ENI_PrimaryIPv4 eni = NoAddr then Ret (Local_ipv4 l)
                    else add_loaded (ENI_PrimaryIPv4 eni) ipv4Set (Local_ipv4 l)) of
                Panic \<Rightarrow> Panic
              | Ret s4 \<Rightarrow>
                  Ret (l\<lparr>Local_ipv4 := s4, Local_ipv6 := Set_PutValid ipv6Set (Local_ipv6 l),
                         Local_status := statusInUse\<rparr>)))"

text \<open>The call \<^verbatim>\<open>AssignNIPv4(eniID, v4Count, l.eni.MAC)\<close> is made without the lock.\<close>

definition fa_call_mac :: "Local \<Rightarrow> string go" where
  "fa_call_mac l = (case Local_eni l of None \<Rightarrow> Panic | Some eni \<Rightarrow> Ret (ENI_MAC eni))"

definition fa_assigned4 :: "time \<Rightarrow> string \<Rightarrow> int \<Rightarrow> assign_answer \<Rightarrow> Local \<Rightarrow> Local \<times> alloc_pc" where
  "fa_assigned4 now eniID v6Count ans l =
     (case ans of
        AssignErr err ips \<Rightarrow>
          (errorHandleLocked now err (l\<lparr>Local_ipv4 := Set_PutDeleting ips (Local_ipv4 l)\<rparr>), FA_Head)
      | Assigned ips \<Rightarrow>
          (let l = popNIPv4Jobs (int (length ips)) l
           in (l\<lparr>Local_ipv4 := Set_PutValid ips (Local_ipv4 l)\<rparr>,
               if v6Count > 0 then FA_Assign6 eniID v6Count else FA_Head)))"

definition fa_assigned6 :: "time \<Rightarrow> assign_answer \<Rightarrow> Local \<Rightarrow> Local \<times> alloc_pc" where
  "fa_assigned6 now ans l =
     (case ans of
        AssignErr err ips \<Rightarrow>
          (errorHandleLocked now err (l\<lparr>Local_ipv6 := Set_PutDeleting ips (Local_ipv6 l)\<rparr>), FA_Head)
      | Assigned ips \<Rightarrow>
          (let l = popNIPv6Jobs (int (length ips)) l
           in (l\<lparr>Local_ipv6 := Set_PutValid ips (Local_ipv6 l)\<rparr>, FA_Head)))"

subsection \<open>Giving resources back\<close>

text \<open>\<^verbatim>\<open>strings.ToLower\<close> on ASCII.\<close>

definition ToLower :: "string \<Rightarrow> string" where
  "ToLower s = map (\<lambda>c. let n = of_char c :: nat in if 65 \<le> n \<and> n \<le> 90 then char_of (n + 32) else c) s"

definition Local_canDispose :: "Local \<Rightarrow> Local \<times> bool" where
  "Local_canDispose l =
     (case Local_eni l of
        None \<Rightarrow> (l, True)
      | Some eni \<Rightarrow>
          if ToLower (Local_eniType l) = ''trunk'' \<or> ToLower (Local_eniType l) = ''erdma'' then (l, False)
          else if ENI_Trunk eni then (l, False)
          else if length (Set_InUse (Local_ipv4 l)) \<noteq> 0 then (l, False)
          else if length (Set_InUse (Local_ipv6 l)) \<noteq> 0 then (l, False)
          else let (l, n4) = Len4 l in
               if n4 \<noteq> 0 then (l, False)
               else let (l, n6) = Len6 l in (l, n6 = 0))"

definition dispose_invalid :: "Set \<Rightarrow> Set" where
  "dispose_invalid s = gm_map (\<lambda>v. if IP_InUse v \<or> IP_Valid v then v else IP_Dispose v) s"

text \<open>
  The loop \<^verbatim>\<open>for i := 0; i < left; i++\<close>: each round disposes of the first address, in the order of
  its own iteration over the map, that is neither in use nor being deleted.
\<close>

fun dispose_idle :: "(addr list \<Rightarrow> addr list) list \<Rightarrow> Set \<Rightarrow> Set" where
  "dispose_idle [] s = s"
| "dispose_idle (ord # ords) s =
     dispose_idle ords
       (case range_find ord (\<lambda>v. \<not> (IP_InUse v \<or> IP_Deleting v)) s of
          None \<Rightarrow> s
        | Some k \<Rightarrow> gm_adjust k IP_Dispose s)"

definition Local_Dispose ::
  "(nat \<Rightarrow> addr list \<Rightarrow> addr list) \<Rightarrow> (nat \<Rightarrow> addr list \<Rightarrow> addr list) \<Rightarrow> int \<Rightarrow> Local \<Rightarrow> Local \<times> int" where
  "Local_Dispose ords4 ords6 n l =
     (if Local_eni l = None \<or> Local_status l \<noteq> statusInUse then (l, 0)
      else
        let total = max (int (length (Local_ipv4 l))) (int (length (Local_ipv6 l)));
            (l, all) = (if n \<ge> total then Local_canDispose l else (l, False))
        in if all then (l\<lparr>Local_status := statusDeleting\<rparr>, total)
           else
             let s4 = dispose_invalid (Local_ipv4 l);
                 s6 = dispose_invalid (Local_ipv6 l);
                 left = min (int (length (Set_Idles s4))) n;
                 left6 = min (int (length (Set_Idles s6))) n
             in (l\<lparr>Local_ipv4 := dispose_idle (map ords4 [0..<nat left]) s4,
                   Local_ipv6 := dispose_idle (map ords6 [0..<nat left6]) s6\<rparr>,
                 max left left6))"

text \<open>Where the loop of \<^verbatim>\<open>factoryDisposeWorker\<close> gave up the lock.\<close>

datatype dispose_pc =
    FD_Head
  | FD_Delete
  | FD_Unassign4 "addr list" "addr list"
  | FD_Unassign6 "addr list"

definition batch :: "int \<Rightarrow> 'a list \<Rightarrow> 'a list" where
  "batch n xs = (if int (length xs) > n then take (nat n) xs else xs)"

definition fd_head ::
  "(addr list \<Rightarrow> addr list) \<Rightarrow> (addr list \<Rightarrow> addr list) \<Rightarrow> Local \<Rightarrow> Local \<times> dispose_pc" where
  "fd_head ord4 ord6 l =
     (if Local_eni l = None then (l, FD_Head)
      else if Local_status l = statusDeleting then
        (let (l, ok) = Local_canDispose l in (l, if ok then FD_Delete else FD_Head))
      else
        let toDelete4 = batch (Local_batchSize l) (Set_Deleting ord4 (Local_ipv4 l));
            toDelete6 = batch (Local_batchSize l) (Set_Deleting ord6 (Local_ipv6 l))
        in (l, if toDelete4 \<noteq> [] then FD_Unassign4 toDelete4 toDelete6
               else if toDelete6 \<noteq> [] then FD_Unassign6 toDelete6
               else FD_Head))"

definition fd_deleted :: "bool \<Rightarrow> Local \<Rightarrow> Local" where
  "fd_deleted ok l =
     (if ok then l\<lparr>Local_eni := None, Local_ipv4 := [], Local_ipv6 := [],
                   Local_status := statusInit, Local_ipAllocInhibitExpireAt := 0\<rparr>
      else l)"

definition fd_unassigned4 :: "bool \<Rightarrow> addr list \<Rightarrow> addr list \<Rightarrow> Local \<Rightarrow> Local \<times> dispose_pc" where
  "fd_unassigned4 ok toDelete4 toDelete6 l =
     ((if ok then l\<lparr>Local_ipv4 := Set_Delete toDelete4 (Local_ipv4 l)\<rparr> else l),
      if toDelete6 \<noteq> [] then FD_Unassign6 toDelete6 else FD_Head)"

definition fd_unassigned6 :: "bool \<Rightarrow> addr list \<Rightarrow> Local \<Rightarrow> Local" where
  "fd_unassigned6 ok toDelete6 l =
     (if ok then l\<lparr>Local_ipv6 := Set_Delete toDelete6 (Local_ipv6 l)\<rparr> else l)"

definition Local_Usage :: "Local \<Rightarrow> int \<times> int" where
  "Local_Usage l =
     (if Local_eni l = None \<or> Local_status l \<noteq> statusInUse then (0, 0)
      else if Local_enableIPv4 l
      then (int (length (Set_Idles (Local_ipv4 l))), int (length (Set_InUse (Local_ipv4 l))))
      else if Local_enableIPv6 l
      then (int (length (Set_Idles (Local_ipv6 l))), int (length (Set_InUse (Local_ipv6 l))))
      else (0, 0))"

subsection \<open>What the pieces do\<close>

abbreviation pending :: "nat list \<Rightarrow> LocalIPRequest list \<Rightarrow> LocalIPRequest list" where
  "pending cancelled a \<equiv> filter (\<lambda>r. Req_id r \<notin> set cancelled) a"

lemma Len4_eq [simp]:
  "Len4 l = (l\<lparr>Local_allocatingV4 := pending (Local_cancelled l) (Local_allocatingV4 l)\<rparr>,
             int (length (pending (Local_cancelled l) (Local_allocatingV4 l))))"
  by (simp add: Len4_def AllocatingRequests_Len_def Let_def)

lemma Len6_eq [simp]:
  "Len6 l = (l\<lparr>Local_allocatingV6 := pending (Local_cancelled l) (Local_allocatingV6 l)\<rparr>,
             int (length (pending (Local_cancelled l) (Local_allocatingV6 l))))"
  by (simp add: Len6_def AllocatingRequests_Len_def Let_def)

lemma cancel_all_eq:
  "fold (\<lambda>item l. if Req_NoCache item then LocalIPRequest_cancel item l else l) d l =
   l\<lparr>Local_cancelled := rev (map Req_id (filter Req_NoCache d)) @ Local_cancelled l\<rparr>"
  by (induction d arbitrary: l) (simp_all add: LocalIPRequest_cancel_def)

lemma Split_append: "fst (Split xs n) @ snd (Split xs n) = xs"
  by (simp add: Split_def)

lemma Split_length:
  "length (fst (Split xs n)) = (if n < 0 \<or> int (length xs) < n then length xs else nat n)"
  by (auto simp: Split_def)

lemma pop4_eq:
  "popNIPv4Jobs n l =
   (let d = Local_dangingV4 l @ fst (Split (Local_allocatingV4 l) n) in
    l\<lparr>Local_dangingV4 := d, Local_allocatingV4 := snd (Split (Local_allocatingV4 l) n),
      Local_cancelled := rev (map Req_id (filter Req_NoCache d)) @ Local_cancelled l\<rparr>)"
  by (simp add: popNIPv4Jobs_def cancel_all_eq case_prod_beta Let_def)

lemma pop6_eq:
  "popNIPv6Jobs n l =
   (let d = Local_dangingV6 l @ fst (Split (Local_allocatingV6 l) n) in
    l\<lparr>Local_dangingV6 := d, Local_allocatingV6 := snd (Split (Local_allocatingV6 l) n),
      Local_cancelled := rev (map Req_id (filter Req_NoCache d)) @ Local_cancelled l\<rparr>)"
  by (simp add: popNIPv6Jobs_def cancel_all_eq case_prod_beta Let_def)

lemma inhibit_until_eq:
  "inhibit_until t l = l\<lparr>Local_ipAllocInhibitExpireAt := max (Local_ipAllocInhibitExpireAt l) t\<rparr>"
  by (simp add: inhibit_until_def max_def)

text \<open>An error never shortens an inhibition, and the errors that mean a quota extend it.\<close>

lemma errorHandle_eq:
  "errorHandleLocked now err l =
   l\<lparr>Local_ipAllocInhibitExpireAt :=
       (if ErrorCodeIs err [ErrEniPerInstanceLimitExceeded]
        then max (Local_ipAllocInhibitExpireAt l) (now + 1 * minute)
        else if ErrorCodeIs err [InvalidVSwitchIDIPNotEnough, QuotaExceededPrivateIPAddress]
        then max (Local_ipAllocInhibitExpireAt l) (now + 10 * minute)
        else Local_ipAllocInhibitExpireAt l)\<rparr>"
  by (cases err) (auto simp: errorHandleLocked_def inhibit_until_eq ErrorCodeIs_def)

text \<open>A call of \<^verbatim>\<open>Len\<close> changes nothing but that cancelled jobs are gone.\<close>

definition shrunk :: "Local \<Rightarrow> Local \<Rightarrow> bool" where
  "shrunk l l' \<longleftrightarrow>
     l' = l\<lparr>Local_allocatingV4 := Local_allocatingV4 l', Local_allocatingV6 := Local_allocatingV6 l'\<rparr> \<and>
     (Local_allocatingV4 l' = Local_allocatingV4 l \<or>
      Local_allocatingV4 l' = pending (Local_cancelled l) (Local_allocatingV4 l)) \<and>
     (Local_allocatingV6 l' = Local_allocatingV6 l \<or>
      Local_allocatingV6 l' = pending (Local_cancelled l) (Local_allocatingV6 l))"

lemma shrunk_refl [simp]: "shrunk l l"
  by (simp add: shrunk_def)

lemma shrunk_Len [simp]:
  "shrunk l (l\<lparr>Local_allocatingV4 := pending (Local_cancelled l) (Local_allocatingV4 l)\<rparr>)"
  "shrunk l (l\<lparr>Local_allocatingV6 := pending (Local_cancelled l) (Local_allocatingV6 l)\<rparr>)"
  "shrunk l (l\<lparr>Local_allocatingV4 := pending (Local_cancelled l) (Local_allocatingV4 l),
               Local_allocatingV6 := pending (Local_cancelled l) (Local_allocatingV6 l)\<rparr>)"
  by (simp_all add: shrunk_def)

lemma shrunk_frame [frame_simps]:
  assumes "shrunk l l'"
  shows "Local_batchSize l' = Local_batchSize l" "Local_cap l' = Local_cap l"
    "Local_dangingV4 l' = Local_dangingV4 l" "Local_dangingV6 l' = Local_dangingV6 l"
    "Local_eni l' = Local_eni l" "Local_ipAllocInhibitExpireAt l' = Local_ipAllocInhibitExpireAt l"
    "Local_eniType l' = Local_eniType l" "Local_enableIPv4 l' = Local_enableIPv4 l"
    "Local_enableIPv6 l' = Local_enableIPv6 l" "Local_ipv4 l' = Local_ipv4 l"
    "Local_ipv6 l' = Local_ipv6 l" "Local_status l' = Local_status l"
    "Local_cancelled l' = Local_cancelled l"
  using assms by (cases l; cases l'; simp add: shrunk_def)+

lemma shrunk_trans: "shrunk a b \<Longrightarrow> shrunk b c \<Longrightarrow> shrunk a c"
  by (cases a; cases b; cases c) (auto simp: shrunk_def)

lemma canDispose_shrunk: "Local_canDispose l = (l', b) \<Longrightarrow> shrunk l l'"
  by (auto simp: Local_canDispose_def shrunk_def split: option.splits if_splits)

lemma canDispose_True:
  assumes "Local_canDispose l = (l', True)" and "Local_eni l \<noteq> None"
  shows "Set_InUse (Local_ipv4 l) = []" "Set_InUse (Local_ipv6 l) = []"
    "Local_allocatingV4 l' = []" "Local_allocatingV6 l' = []"
  using assms by (auto simp: Local_canDispose_def split: option.splits if_splits)

text \<open>What \<^verbatim>\<open>Allocate\<close> learns of a family: its address, or that there is room for one more.\<close>

definition got4 :: "(addr list \<Rightarrow> addr list) \<Rightarrow> string \<Rightarrow> Local \<Rightarrow> addr option \<Rightarrow> bool" where
  "got4 ord p l k \<longleftrightarrow>
     (if Local_enableIPv4 l then \<exists>a. k = Some a \<and> Set_PeekAvailable ord p (Local_ipv4 l) = Some a else k = None)"

lemma got4_peek:
  "got4 ord p l k \<Longrightarrow> (k \<noteq> None) = Local_enableIPv4 l"
  "got4 ord p l k \<Longrightarrow> k = None \<or> k = Set_PeekAvailable ord p (Local_ipv4 l)"
  by (auto simp: got4_def split: if_splits)

definition room4 :: "Local \<Rightarrow> bool" where
  "room4 l \<longleftrightarrow> Local_enableIPv4 l \<and>
     Local_allocatingV4 l = pending (Local_cancelled l) (Local_allocatingV4 l) \<and>
     int (length (Local_ipv4 l)) + int (length (Local_allocatingV4 l)) < Local_cap l"

lemma want4_None: "want4 ord p r l = (l', None) \<Longrightarrow> shrunk l l'"
  by (auto simp: want4_def split: option.splits if_splits)

lemma want4_Some:
  "want4 ord p r l = (l', Some (k, n)) \<Longrightarrow>
   shrunk l l' \<and> Local_allocatingV6 l' = Local_allocatingV6 l \<and>
   (n = 0 \<and> got4 ord p l k \<or> n = 1 \<and> k = None \<and> room4 l')"
  by (auto simp: want4_def got4_def room4_def split: option.splits if_splits)

definition got6 :: "(addr list \<Rightarrow> addr list) \<Rightarrow> string \<Rightarrow> Local \<Rightarrow> addr option \<Rightarrow> bool" where
  "got6 ord p l k \<longleftrightarrow>
     (if Local_enableIPv6 l then \<exists>a. k = Some a \<and> Set_PeekAvailable ord p (Local_ipv6 l) = Some a else k = None)"

lemma got6_peek:
  "got6 ord p l k \<Longrightarrow> (k \<noteq> None) = Local_enableIPv6 l"
  "got6 ord p l k \<Longrightarrow> k = None \<or> k = Set_PeekAvailable ord p (Local_ipv6 l)"
  by (auto simp: got6_def split: if_splits)

definition room6 :: "Local \<Rightarrow> bool" where
  "room6 l \<longleftrightarrow> Local_enableIPv6 l \<and>
     Local_allocatingV6 l = pending (Local_cancelled l) (Local_allocatingV6 l) \<and>
     int (length (Local_ipv6 l)) + int (length (Local_allocatingV6 l)) < Local_cap l"

lemma want6_None: "want6 ord p r l = (l', None) \<Longrightarrow> shrunk l l'"
  by (auto simp: want6_def split: option.splits if_splits)

lemma want6_Some:
  "want6 ord p r l = (l', Some (k, n)) \<Longrightarrow>
   shrunk l l' \<and> Local_allocatingV4 l' = Local_allocatingV4 l \<and>
   (n = 0 \<and> got6 ord p l k \<or> n = 1 \<and> k = None \<and> room6 l')"
  by (auto simp: want6_def got6_def room6_def split: option.splits if_splits)

lemma alloc_pool_cases:
  assumes "alloc_pool now o4 o6 p r l = (l', ans)"
  obtains
    (refused) ts where "ans = Refused ts" "shrunk l l'"
  | (direct) l1 k4 k6 where "ans = Direct k4 k6" "shrunk l l1" "l' = assign6 p k6 (assign4 p k4 l1)"
      "got4 o4 p l k4" "got6 o6 p l k6"
  | (queued) l1 n4 n6 where "ans = Queued r" "shrunk l l1"
      "l' = l1\<lparr>Local_allocatingV4 := Local_allocatingV4 l1 @ replicate n4 r,
               Local_allocatingV6 := Local_allocatingV6 l1 @ replicate n6 r\<rparr>"
      "n4 = 0 \<or> n4 = 1 \<and> room4 l1" "n6 = 0 \<or> n6 = 1 \<and> room6 l1" "0 < n4 + n6"
      "Local_ipAllocInhibitExpireAt l \<le> now"
proof -
  obtain l4 w4 where w4: "want4 o4 p r l = (l4, w4)" by (cases "want4 o4 p r l")
  obtain l6 w6 where w6: "want6 o6 p r l4 = (l6, w6)" by (cases "want6 o6 p r l4")
  show thesis
  proof (cases "w4 = None \<or> w6 = None")
    case True
    then have "\<exists>ts. ans = Refused ts \<and> shrunk l l'"
      using assms w4 w6 want4_None want4_Some want6_None shrunk_trans
      by (auto simp: alloc_pool_def split: option.splits) blast+
    then show thesis using refused by blast
  next
    case False
    then obtain k4 n4 k6 n6 where w: "w4 = Some (k4, n4)" "w6 = Some (k6, n6)" by auto
    have s4: "shrunk l l4" "n4 = 0 \<and> got4 o4 p l k4 \<or> n4 = 1 \<and> k4 = None \<and> room4 l4"
      using want4_Some [OF w4[unfolded w]] by auto
    have s6: "shrunk l4 l6" "Local_allocatingV4 l6 = Local_allocatingV4 l4"
      "n6 = 0 \<and> got6 o6 p l k6 \<or> n6 = 1 \<and> k6 = None \<and> room6 l6"
      using want6_Some [OF w6[unfolded w]] s4(1) by (auto simp: got6_def frame_simps)
    have s: "shrunk l l6" using s4(1) s6(1) by (rule shrunk_trans)
    have room: "n4 = 1 \<Longrightarrow> room4 l6"
      using s4(2) s6(1,2) by (auto simp: room4_def shrunk_frame [OF s6(1)])
    have en: "Local_enableIPv4 l6 = Local_enableIPv4 l" "Local_enableIPv6 l6 = Local_enableIPv6 l"
      using s by (simp_all add: frame_simps)
    have g: "(Local_enableIPv4 l \<longrightarrow> k4 \<noteq> None) = (n4 = 0)" "(Local_enableIPv6 l \<longrightarrow> k6 \<noteq> None) = (n6 = 0)"
      using s4(2) s6(3) room en by (auto simp: got4_def got6_def room4_def room6_def split: if_splits)
    note unf = assms[unfolded alloc_pool_def w4 w, simplified, unfolded w6 w, simplified, unfolded en g]
    consider "(0 < n4 \<or> 0 < n6) \<and> now < Local_ipAllocInhibitExpireAt l6" | "n4 = 0" "n6 = 0"
      | "0 < n4 + n6" "\<not> now < Local_ipAllocInhibitExpireAt l6" by linarith
    then show thesis
    proof cases
      case 1 then show thesis using unf s refused by auto
    next
      case 2 then show thesis using unf s s4(2) s6(3) direct by auto
    next
      case 3
      then show thesis
        using unf s s4(2) s6(3) room shrunk_frame(6) [OF s]
        by (intro queued [where ?l1.0 = l6 and ?n4.0 = n4 and ?n6.0 = n6]) (auto split: if_splits)
    qed
  qed
qed

subsection \<open>Allocate\<close>

lemma assign_frame [simp]:
  "Local_ipv6 (assign4 p k l) = Local_ipv6 l" "Local_ipv4 (assign6 p k l) = Local_ipv4 l"
  "Local_status (assign4 p k l) = Local_status l" "Local_status (assign6 p k l) = Local_status l"
  "Local_eni (assign4 p k l) = Local_eni l" "Local_eni (assign6 p k l) = Local_eni l"
  "Local_allocatingV4 (assign4 p k l) = Local_allocatingV4 l" "Local_allocatingV4 (assign6 p k l) = Local_allocatingV4 l"
  "Local_allocatingV6 (assign4 p k l) = Local_allocatingV6 l" "Local_allocatingV6 (assign6 p k l) = Local_allocatingV6 l"
  "Local_dangingV4 (assign4 p k l) = Local_dangingV4 l" "Local_dangingV4 (assign6 p k l) = Local_dangingV4 l"
  "Local_dangingV6 (assign4 p k l) = Local_dangingV6 l" "Local_dangingV6 (assign6 p k l) = Local_dangingV6 l"
  "Local_cancelled (assign4 p k l) = Local_cancelled l" "Local_cancelled (assign6 p k l) = Local_cancelled l"
  "Local_cap (assign4 p k l) = Local_cap l" "Local_cap (assign6 p k l) = Local_cap l"
  "Local_batchSize (assign4 p k l) = Local_batchSize l" "Local_batchSize (assign6 p k l) = Local_batchSize l"
  "length (Local_ipv4 (assign4 p k l)) = length (Local_ipv4 l)" "length (Local_ipv6 (assign6 p k l)) = length (Local_ipv6 l)"
  by (simp_all add: assign4_def assign6_def Set_Allocate_def split: option.splits)

lemma assign4_set: "Local_ipv4 (assign4 p k l) = (case k of None \<Rightarrow> Local_ipv4 l | Some a \<Rightarrow> Set_Allocate p a (Local_ipv4 l))"
  by (simp add: assign4_def split: option.splits)

lemma assign6_set: "Local_ipv6 (assign6 p k l) = (case k of None \<Rightarrow> Local_ipv6 l | Some a \<Rightarrow> Set_Allocate p a (Local_ipv6 l))"
  by (simp add: assign6_def split: option.splits)

text \<open>How a grant of the address \<open>k\<close>, if any, to pod \<open>p\<close> changes the owners.\<close>

definition granted :: "string \<Rightarrow> addr option \<Rightarrow> Set \<Rightarrow> Set \<Rightarrow> bool" where
  "granted p k s s' \<longleftrightarrow>
     (case k of
        None \<Rightarrow> s' = s
      | Some a \<Rightarrow> (\<exists>v. map_of s a = Some v \<and> (IP_Allocatable v \<or> IP_podID v = p)) \<and>
          Set_owner s' = (Set_owner s)(a \<mapsto> p))"

lemma granted_peek:
  assumes "p \<noteq> []" and "k = None \<or> k = Set_PeekAvailable ord p s"
  shows "granted p k s (case k of None \<Rightarrow> s | Some a \<Rightarrow> Set_Allocate p a s)"
proof (cases k)
  case (Some a)
  with assms(2) have "Set_PeekAvailable ord p s = Some a" by simp
  from Peek_Some [OF this] assms(1) Some show ?thesis
    by (auto simp: granted_def Set_owner_Allocate)
qed (simp add: granted_def)

lemma Allocate_pool:
  assumes "Local_Allocate now o4 o6 p req l = (l', ans)" and "\<And>ts. ans \<noteq> Refused ts"
  obtains r where "req = LocalReq r" "alloc_pool now o4 o6 p r l = (l', ans)" "Local_status l \<noteq> statusDeleting"
  using assms by (auto simp: Local_Allocate_def split: ResourceRequest.splits if_splits)

end
