(* ===== verification/LocalPool.thy ===== *)
theory LocalPool
  imports LocalENI
begin

section \<open>A local ENI: what its operations guarantee\<close>

text \<open>
  The properties of the single operations of \<^verbatim>\<open>pkg/eni/local.go\<close>: what a request is given and
  when it is refused, what a release and a disposal touch, what synchronising with the cloud and
  loading a node's records do.
\<close>

subsection \<open>Allocate\<close>

lemma direct_spec:
  assumes "Local_Allocate now o4 o6 p req l = (l', Direct k4 k6)" and "p \<noteq> []"
  shows "(k4 \<noteq> None) = Local_enableIPv4 l \<and> (k6 \<noteq> None) = Local_enableIPv6 l \<and>
    granted p k4 (Local_ipv4 l) (Local_ipv4 l') \<and> granted p k6 (Local_ipv6 l) (Local_ipv6 l') \<and>
    Local_status l \<noteq> statusDeleting"
proof -
  obtain r where pool: "alloc_pool now o4 o6 p r l = (l', Direct k4 k6)"
    and st: "Local_status l \<noteq> statusDeleting"
    using assms(1) by (rule Allocate_pool) auto
  from pool show ?thesis
  proof (cases rule: alloc_pool_cases)
    case (direct l1 k4' k6')
    note same = shrunk_frame(10,11) [OF direct(2)]
    have k: "k4' = k4" "k6' = k6" using direct(1) by simp_all
    have "Local_ipv4 l' = (case k4 of None \<Rightarrow> Local_ipv4 l | Some a \<Rightarrow> Set_Allocate p a (Local_ipv4 l))"
      "Local_ipv6 l' = (case k6 of None \<Rightarrow> Local_ipv6 l | Some a \<Rightarrow> Set_Allocate p a (Local_ipv6 l))"
      by (simp_all add: direct(3) k assign4_set assign6_set same split: option.split)
    then have "granted p k4 (Local_ipv4 l) (Local_ipv4 l')" "granted p k6 (Local_ipv6 l) (Local_ipv6 l')"
      using granted_peek [OF assms(2) got4_peek(2) [OF direct(4)]]
        granted_peek [OF assms(2) got6_peek(2) [OF direct(5)]] by (simp_all only: k)
    moreover have "(k4 \<noteq> None) = Local_enableIPv4 l" "(k6 \<noteq> None) = Local_enableIPv6 l"
      using got4_peek(1) [OF direct(4)] got6_peek(1) [OF direct(5)] by (simp_all only: k)
    ultimately show ?thesis using st by blast
  qed auto
qed

text \<open>
  C5: what \<^verbatim>\<open>Local.Allocate\<close> gives at once is right. A direct answer holds one address of every
  enabled family and none of a disabled one; each was valid and free, or already owned by the pod;
  the owners of all other addresses are as before; and the ENI is not being deleted.
\<close>

theorem Allocate_direct:
  assumes "Local_Allocate now o4 o6 p req l = (l', Direct k4 k6)" and "p \<noteq> []"
  shows "(k4 \<noteq> None) = Local_enableIPv4 l \<and> (k6 \<noteq> None) = Local_enableIPv6 l \<and>
    granted p k4 (Local_ipv4 l) (Local_ipv4 l') \<and> granted p k6 (Local_ipv6 l) (Local_ipv6 l') \<and>
    Local_status l \<noteq> statusDeleting"
  using assms by (rule direct_spec)

text \<open>A small ENI for the witnesses: two addresses, the first one owned by pod \<open>a\<close>.\<close>

definition wit_eni :: ENI where
  "wit_eni = \<lparr>ENI_ID = ''eni-1'', ENI_MAC = ''m'', ENI_Trunk = False, ENI_ERdma = False,
              ENI_PrimaryIPv4 = Addr4 1, ENI_GatewayIP = no_IPSet, ENI_VSwitchCIDR = no_IPNetSet,
              ENI_VSwitchID = ''vsw-1''\<rparr>"

definition wit_local :: Local where
  "wit_local =
     (NewLocal (Some wit_eni) ''secondary''
        \<lparr>Pool_BatchSize = 10, Pool_MaxIPPerENI = 3, Pool_EnableIPv4 = True, Pool_EnableIPv6 = False\<rparr>)
     \<lparr>Local_status := statusInUse,
      Local_ipv4 := Set_Allocate ''a'' (Addr4 1) (Set_PutValid [Addr4 1, Addr4 2] [])\<rparr>"

definition wit_req :: "nat \<Rightarrow> LocalIPRequest" where
  "wit_req n = \<lparr>Req_id = n, Req_NetworkInterfaceID = [], Req_LocalIPType = [], Req_NoCache = False\<rparr>"

definition wit_answer :: "Local \<times> alloc_answer" where
  "wit_answer = Local_Allocate 0 id id ''b'' (LocalReq (wit_req 1)) wit_local"

theorem Allocate_direct_witness:
  "granted ''b'' (Some (Addr4 2)) (Local_ipv4 wit_local) (Local_ipv4 (fst wit_answer))"
proof -
  have "snd wit_answer = Direct (Some (Addr4 2)) None" by code_simp
  then have "Local_Allocate 0 id id ''b'' (LocalReq (wit_req 1)) wit_local =
      (fst wit_answer, Direct (Some (Addr4 2)) None)"
    by (metis prod.collapse wit_answer_def)
  from Allocate_direct [OF this] show ?thesis by simp
qed

text \<open>The requests that get past the guards of \<^verbatim>\<open>Allocate\<close>.\<close>

definition admitted :: "LocalIPRequest \<Rightarrow> Local \<Rightarrow> bool" where
  "admitted r l \<longleftrightarrow>
     (Req_LocalIPType r = ''ERDMA'') = (Local_eniType l = ''erdma'') \<and>
     Local_status l \<noteq> statusDeleting \<and>
     (Req_NetworkInterfaceID r = [] \<or> (\<forall>eni. Local_eni l = Some eni \<longrightarrow> ENI_ID eni = Req_NetworkInterfaceID r))"

lemma Allocate_admitted:
  "admitted r l \<Longrightarrow> Local_Allocate now o4 o6 p (LocalReq r) l = alloc_pool now o4 o6 p r l"
  by (auto simp: Local_Allocate_def admitted_def split: option.splits)

lemma Peek_owned:
  assumes "range_order ord" and "Set_owner s a = Some p" and "p \<noteq> []"
  shows "\<exists>b. Set_PeekAvailable ord p s = Some b \<and> Set_owner s b = Some p"
proof -
  obtain v where v: "map_of s a = Some v" "IP_podID v = p"
    using assms(2) by (auto simp: Set_owner_def split: option.splits if_splits)
  obtain b w where "Set_PeekAvailable ord p s = Some b" "map_of s b = Some w" "IP_podID w = p"
    using Peek_sticky [OF assms(1) v assms(3)] by blast
  with assms(3) show ?thesis by (auto simp: Set_owner_def IP_InUse_def)
qed

lemma Set_owner_Allocate_again:
  "Set_owner s b = Some p \<Longrightarrow> Set_owner (Set_Allocate p b s) = Set_owner s"
  by (auto simp: Set_owner_def map_of_Allocate IP_defs fun_eq_iff split: option.splits if_splits)

text \<open>
  C6: a repeated request is answered from what the pod has. If the pod owns an address in every
  enabled family, an admitted request that may use the pool is answered at once, whatever the
  capacity, the inhibition or the jobs in progress are, with addresses the pod owns, and no
  address changes its owner.
\<close>

theorem Allocate_retry:
  assumes "admitted r l" and "\<not> Req_NoCache r" and "p \<noteq> []" and "range_order o4" and "range_order o6"
    and "Local_enableIPv4 l \<Longrightarrow> Set_owner (Local_ipv4 l) a4 = Some p"
    and "Local_enableIPv6 l \<Longrightarrow> Set_owner (Local_ipv6 l) a6 = Some p"
  shows "\<exists>l' k4 k6. Local_Allocate now o4 o6 p (LocalReq r) l = (l', Direct k4 k6) \<and>
    (\<forall>b. k4 = Some b \<longrightarrow> Set_owner (Local_ipv4 l) b = Some p) \<and>
    (\<forall>b. k6 = Some b \<longrightarrow> Set_owner (Local_ipv6 l) b = Some p) \<and>
    Set_owner (Local_ipv4 l') = Set_owner (Local_ipv4 l) \<and>
    Set_owner (Local_ipv6 l') = Set_owner (Local_ipv6 l)"
proof -
  define k4 where "k4 = (if Local_enableIPv4 l then Set_PeekAvailable o4 p (Local_ipv4 l) else None)"
  define k6 where "k6 = (if Local_enableIPv6 l then Set_PeekAvailable o6 p (Local_ipv6 l) else None)"
  have k4: "Local_enableIPv4 l \<longrightarrow> (\<exists>b. k4 = Some b \<and> Set_owner (Local_ipv4 l) b = Some p)"
    using Peek_owned [OF assms(4) assms(6) assms(3)] by (simp add: k4_def)
  have k6: "Local_enableIPv6 l \<longrightarrow> (\<exists>b. k6 = Some b \<and> Set_owner (Local_ipv6 l) b = Some p)"
    using Peek_owned [OF assms(5) assms(7) assms(3)] by (simp add: k6_def)
  have w: "want4 o4 p r l = (l, Some (k4, 0))" "want6 o6 p r l = (l, Some (k6, 0))"
    using k4 k6 assms(2) by (auto simp: want4_def want6_def k4_def k6_def split: option.splits)
  have "alloc_pool now o4 o6 p r l = (assign6 p k6 (assign4 p k4 l), Direct k4 k6)"
    using k4 k6 by (auto simp: alloc_pool_def w)
  moreover have "\<forall>b. k4 = Some b \<longrightarrow> Set_owner (Local_ipv4 l) b = Some p"
    "\<forall>b. k6 = Some b \<longrightarrow> Set_owner (Local_ipv6 l) b = Some p"
    using k4 k6 by (auto simp: k4_def k6_def split: if_splits)
  ultimately show ?thesis
    using Allocate_admitted [OF assms(1)]
    by (auto simp: assign4_set assign6_set Set_owner_Allocate_again split: option.split)
qed

theorem Allocate_retry_witness:
  "\<exists>l' k4 k6. Local_Allocate 0 id rev ''a'' (LocalReq (wit_req 1)) wit_local = (l', Direct k4 k6) \<and>
    Set_owner (Local_ipv4 l') = Set_owner (Local_ipv4 wit_local)"
proof -
  have "admitted (wit_req 1) wit_local" "\<not> Req_NoCache (wit_req 1)" "\<not> Local_enableIPv6 wit_local"
    by (simp_all add: admitted_def wit_req_def wit_local_def NewLocal_def)
  moreover have "Set_owner (Local_ipv4 wit_local) (Addr4 1) = Some ''a''" by code_simp
  ultimately show ?thesis
    using Allocate_retry [of "wit_req 1" wit_local "''a''" id rev "Addr4 1" "Addr6 0" 0]
    by (auto simp: range_order_def)
qed

text \<open>
  C7: the pool never asks for more than the ENI can hold. Whenever \<^verbatim>\<open>Allocate\<close> queues a job for a
  family, the addresses of that family together with all its unfinished jobs, the new one
  included, are at most the capacity, and no inhibition is in force.
\<close>

theorem Allocate_queued:
  assumes "Local_Allocate now o4 o6 p req l = (l', Queued r)"
  shows "req = LocalReq r \<and> Local_ipAllocInhibitExpireAt l \<le> now \<and>
    (\<forall>fam \<in> {(Local_allocatingV4, Local_ipv4), (Local_allocatingV6, Local_ipv6)}. case fam of (jobs, ips) \<Rightarrow>
       ips l' = ips l \<and>
       (jobs l' = jobs l \<or> jobs l' = pending (Local_cancelled l) (jobs l) \<or>
        jobs l' = pending (Local_cancelled l) (jobs l) @ [r] \<and>
        int (length (ips l')) + int (length (jobs l')) \<le> Local_cap l)) \<and>
    (r \<in> set (Local_allocatingV4 l') \<or> r \<in> set (Local_allocatingV6 l'))"
proof -
  obtain r' where req: "req = LocalReq r'" and pool: "alloc_pool now o4 o6 p r' l = (l', Queued r)"
    using assms by (rule Allocate_pool) auto
  from pool show ?thesis
  proof (cases rule: alloc_pool_cases)
    case (queued l1 n4 n6)
    have jobs: "Local_allocatingV4 l1 = Local_allocatingV4 l \<or>
        Local_allocatingV4 l1 = pending (Local_cancelled l) (Local_allocatingV4 l)"
      "Local_allocatingV6 l1 = Local_allocatingV6 l \<or>
        Local_allocatingV6 l1 = pending (Local_cancelled l) (Local_allocatingV6 l)"
      using queued(2) by (simp_all add: shrunk_def)
    have full: "n4 = 1 \<Longrightarrow> Local_allocatingV4 l1 = pending (Local_cancelled l) (Local_allocatingV4 l)"
      "n6 = 1 \<Longrightarrow> Local_allocatingV6 l1 = pending (Local_cancelled l) (Local_allocatingV6 l)"
      using queued(4,5) jobs by (auto simp: room4_def room6_def shrunk_frame [OF queued(2)])
    show ?thesis
      using queued(1,3,4,5,6,7) jobs full req
      by (auto simp: room4_def room6_def shrunk_frame [OF queued(2)])
  qed auto
qed

definition wit_busy :: Local where
  "wit_busy = wit_local\<lparr>Local_ipv4 := Set_Allocate ''c'' (Addr4 2) (Local_ipv4 wit_local)\<rparr>"

theorem Allocate_queued_witness:
  "Local_Allocate 0 id id ''b'' (LocalReq (wit_req 1)) wit_busy =
     (wit_busy\<lparr>Local_allocatingV4 := [wit_req 1]\<rparr>, Queued (wit_req 1)) \<and>
   Local_ipAllocInhibitExpireAt wit_busy \<le> 0"
proof -
  have "Local_Allocate 0 id id ''b'' (LocalReq (wit_req 1)) wit_busy =
     (wit_busy\<lparr>Local_allocatingV4 := [wit_req 1]\<rparr>, Queued (wit_req 1))"
    by code_simp
  with Allocate_queued [OF this] show ?thesis by simp
qed

text \<open>
  A request is turned away as full only by a full pool. When an admitted request that may use
  the pool is refused with \<^verbatim>\<open>Full\<close>, some enabled family holds no address that is free or the pod's
  own, and its addresses and unfinished jobs reach the capacity.
\<close>

theorem Allocate_full:
  assumes "Local_Allocate now o4 o6 p (LocalReq r) l = (l', Refused [trace Full])"
    and "admitted r l" and "\<not> Req_NoCache r" and "range_order o4" and "range_order o6"
  shows "(Local_enableIPv4 l \<and> (\<forall>a v. map_of (Local_ipv4 l) a = Some v \<longrightarrow> \<not> IP_Allocatable v \<and> (p \<noteq> [] \<longrightarrow> IP_podID v \<noteq> p)) \<and>
      Local_cap l \<le> int (length (Local_ipv4 l)) + int (length (pending (Local_cancelled l) (Local_allocatingV4 l)))) \<or>
    (Local_enableIPv6 l \<and> (\<forall>a v. map_of (Local_ipv6 l) a = Some v \<longrightarrow> \<not> IP_Allocatable v \<and> (p \<noteq> [] \<longrightarrow> IP_podID v \<noteq> p)) \<and>
      Local_cap l \<le> int (length (Local_ipv6 l)) + int (length (pending (Local_cancelled l) (Local_allocatingV6 l))))"
    (is "?full4 \<or> ?full6")
proof -
  obtain l4 w4 where w4: "want4 o4 p r l = (l4, w4)" by (cases "want4 o4 p r l")
  obtain l6 w6 where w6: "want6 o6 p r l4 = (l6, w6)" by (cases "want6 o6 p r l4")
  have pool: "alloc_pool now o4 o6 p r l = (l', Refused [trace Full])"
    using assms(1) by (simp add: Allocate_admitted [OF assms(2)])
  show ?thesis
  proof (cases w4)
    case None
    with w4 have "want4 o4 p r l = (l4, None)" by simp
    then have "Local_enableIPv4 l" and "Set_PeekAvailable o4 p (Local_ipv4 l) = None"
      and "Local_cap l \<le> int (length (Local_ipv4 l)) + int (length (pending (Local_cancelled l) (Local_allocatingV4 l)))"
      using assms(3) by (simp_all add: want4_def split: option.splits if_splits)
    then have ?full4 using Peek_None [OF assms(4)] by blast
    then show ?thesis ..
  next
    case (Some x4)
    obtain k4 n4 where x4: "x4 = (k4, n4)" by (cases x4)
    have s: "shrunk l l4" "Local_allocatingV6 l4 = Local_allocatingV6 l"
      using want4_Some [OF w4[unfolded Some x4]] by auto
    have "w6 = None"
      using pool w4 w6 Some x4 by (auto simp: alloc_pool_def split: option.splits if_splits)
    with w6 have "want6 o6 p r l4 = (l6, None)" by simp
    then have "Local_enableIPv6 l" and "Set_PeekAvailable o6 p (Local_ipv6 l) = None"
      and "Local_cap l \<le> int (length (Local_ipv6 l)) + int (length (pending (Local_cancelled l) (Local_allocatingV6 l)))"
      using assms(3) by (simp_all add: want6_def s(2) shrunk_frame [OF s(1)] split: option.splits if_splits)
    then have ?full6 using Peek_None [OF assms(5)] by blast
    then show ?thesis ..
  qed
qed

definition wit_full :: Local where
  "wit_full = wit_busy\<lparr>Local_cap := 2\<rparr>"

theorem Allocate_full_witness:
  "Local_Allocate 0 id id ''b'' (LocalReq (wit_req 1)) wit_full = (wit_full, Refused [trace Full]) \<and>
   Local_cap wit_full \<le> int (length (Local_ipv4 wit_full)) +
     int (length (pending (Local_cancelled wit_full) (Local_allocatingV4 wit_full)))"
proof -
  have run: "Local_Allocate 0 id id ''b'' (LocalReq (wit_req 1)) wit_full = (wit_full, Refused [trace Full])"
    by code_simp
  have "admitted (wit_req 1) wit_full" "\<not> Req_NoCache (wit_req 1)" "\<not> Local_enableIPv6 wit_full"
    by (simp_all add: admitted_def wit_req_def wit_full_def wit_busy_def wit_local_def NewLocal_def)
  then show ?thesis
    using Allocate_full [OF run] run by (simp add: range_order_def)
qed

subsection \<open>Release\<close>

lemma IP_Release_status: "IP_status (IP_Release p v) = IP_status v"
  by (simp add: IP_Release_def)

lemma release_spec:
  assumes "Local_Release p (LocalRes res) l = (l', ok)"
  shows "ok = (\<exists>eni. Local_eni l = Some eni \<and> ENI_ID eni = ENI_ID (Res_ENI res)) \<and>
    (\<forall>a. Set_owner (Local_ipv4 l') a =
      (if ok \<and> Addr_IsValid a \<and> a = Res_IPv4 res \<and> Set_owner (Local_ipv4 l) a = Some p then None
       else Set_owner (Local_ipv4 l) a)) \<and>
    (\<forall>a. Set_owner (Local_ipv6 l') a =
      (if ok \<and> Addr_IsValid a \<and> a = Res_IPv6 res \<and> Set_owner (Local_ipv6 l) a = Some p then None
       else Set_owner (Local_ipv6 l) a)) \<and>
    (\<forall>a. map_option IP_status (map_of (Local_ipv4 l') a) = map_option IP_status (map_of (Local_ipv4 l) a)) \<and>
    (\<forall>a. map_option IP_status (map_of (Local_ipv6 l') a) = map_option IP_status (map_of (Local_ipv6 l) a))"
proof (cases "\<exists>eni. Local_eni l = Some eni \<and> ENI_ID eni = ENI_ID (Res_ENI res)")
  case False
  then have "l' = l \<and> \<not> ok"
    using assms by (auto simp: Local_Release_def split: option.splits if_splits)
  with False show ?thesis by simp
next
  case True
  then have ok: ok
    and s4: "Local_ipv4 l' = (if Addr_IsValid (Res_IPv4 res) then Set_Release p (Res_IPv4 res) (Local_ipv4 l) else Local_ipv4 l)"
    and s6: "Local_ipv6 l' = (if Addr_IsValid (Res_IPv6 res) then Set_Release p (Res_IPv6 res) (Local_ipv6 l) else Local_ipv6 l)"
    using assms by (auto simp: Local_Release_def Let_def split: option.splits if_splits)
  have status: "map_option IP_status (map_of (Set_Release p x s) a) = map_option IP_status (map_of s a)" for x s a
    using IP_Release_status by (simp add: map_of_Release option.map_comp comp_def)
  show ?thesis
    using True ok by (auto simp: s4 s6 Set_owner_Release status)
qed

text \<open>
  C8: a release gives back what the pod had and nothing else. It answers true exactly for a local
  resource of this very ENI; then an address loses its owner if and only if the resource names it
  and the pod owns it, and no address changes its status. In every other case nothing changes.
\<close>

theorem Release_exact:
  assumes "Local_Release p (LocalRes res) l = (l', ok)"
  shows "ok = (\<exists>eni. Local_eni l = Some eni \<and> ENI_ID eni = ENI_ID (Res_ENI res)) \<and>
    (\<forall>a. Set_owner (Local_ipv4 l') a =
      (if ok \<and> Addr_IsValid a \<and> a = Res_IPv4 res \<and> Set_owner (Local_ipv4 l) a = Some p then None
       else Set_owner (Local_ipv4 l) a)) \<and>
    (\<forall>a. Set_owner (Local_ipv6 l') a =
      (if ok \<and> Addr_IsValid a \<and> a = Res_IPv6 res \<and> Set_owner (Local_ipv6 l) a = Some p then None
       else Set_owner (Local_ipv6 l) a)) \<and>
    (\<forall>a. map_option IP_status (map_of (Local_ipv4 l') a) = map_option IP_status (map_of (Local_ipv4 l) a)) \<and>
    (\<forall>a. map_option IP_status (map_of (Local_ipv6 l') a) = map_option IP_status (map_of (Local_ipv6 l) a))"
  using assms by (rule release_spec)

theorem Release_exact_witness:
  "\<forall>a. Set_owner (Local_ipv4 (fst (Local_Release ''a'' (LocalRes
       \<lparr>Res_PodID = [], Res_ENI = wit_eni, Res_IPv4 = Addr4 1, Res_IPv6 = NoAddr\<rparr>) wit_busy))) a =
    (if a = Addr4 1 \<and> Set_owner (Local_ipv4 wit_busy) a = Some ''a'' then None
     else Set_owner (Local_ipv4 wit_busy) a)"
proof -
  let ?res = "\<lparr>Res_PodID = [], Res_ENI = wit_eni, Res_IPv4 = Addr4 1, Res_IPv6 = NoAddr\<rparr>"
  obtain l' ok where run: "Local_Release ''a'' (LocalRes ?res) wit_busy = (l', ok)" by fastforce
  have "snd (Local_Release ''a'' (LocalRes ?res) wit_busy)" by code_simp
  with run have ok by simp
  with Release_exact [OF run] run show ?thesis by (auto simp: Addr_IsValid_def)
qed

subsection \<open>Dispose\<close>

text \<open>What a disposal may do to one address.\<close>

definition may_dispose :: "IP \<Rightarrow> IP \<Rightarrow> bool" where
  "may_dispose v v' \<longleftrightarrow>
     v' = v \<or> \<not> IP_InUse v \<and> \<not> IP_primary v \<and> v' = v\<lparr>IP_status := ipStatusDeleting\<rparr>"

lemma may_dispose_refl [simp]: "may_dispose v v"
  by (simp add: may_dispose_def)

lemma may_dispose_trans: "may_dispose u v \<Longrightarrow> may_dispose v w \<Longrightarrow> may_dispose u w"
  by (auto simp: may_dispose_def)

lemma may_dispose_Dispose: "\<not> IP_InUse v \<Longrightarrow> may_dispose v (IP_Dispose v)"
  by (simp add: may_dispose_def IP_Dispose_def)

definition set_disposed :: "Set \<Rightarrow> Set \<Rightarrow> bool" where
  "set_disposed s s' \<longleftrightarrow> keys s' = keys s \<and>
     (\<forall>a v. map_of s a = Some v \<longrightarrow> (\<exists>v'. map_of s' a = Some v' \<and> may_dispose v v'))"

lemma set_disposed_refl [simp]: "set_disposed s s"
  by (simp add: set_disposed_def)

lemma set_disposed_trans: "set_disposed r s \<Longrightarrow> set_disposed s t \<Longrightarrow> set_disposed r t"
  unfolding set_disposed_def by (metis may_dispose_trans)

lemma set_disposed_gm_map: "(\<And>v. may_dispose v (f v)) \<Longrightarrow> set_disposed s (gm_map f s)"
  by (simp add: set_disposed_def map_of_gm_map)

lemma set_disposed_adjust: "map_of s k = Some v \<Longrightarrow> may_dispose v (f v) \<Longrightarrow> set_disposed s (gm_adjust k f s)"
  by (simp add: set_disposed_def map_of_adjust)

lemma dispose_invalid_disposed: "set_disposed s (dispose_invalid s)"
  unfolding dispose_invalid_def by (rule set_disposed_gm_map) (simp add: may_dispose_Dispose)

lemma dispose_round:
  "set_disposed s (case range_find ord (\<lambda>v. \<not> (IP_InUse v \<or> IP_Deleting v)) s of
     None \<Rightarrow> s | Some k \<Rightarrow> gm_adjust k IP_Dispose s)"
  by (auto dest!: range_find_Some intro!: set_disposed_adjust may_dispose_Dispose split: option.split)

lemma dispose_idle_disposed: "set_disposed s (dispose_idle ords s)"
proof (induction ords arbitrary: s)
  case (Cons ord ords)
  show ?case
    using set_disposed_trans [OF dispose_round Cons.IH] by simp
qed simp

lemma set_disposed_owner: "set_disposed s s' \<Longrightarrow> Set_owner s' = Set_owner s"
proof
  fix a
  assume d: "set_disposed s s'"
  show "Set_owner s' a = Set_owner s a"
  proof (cases "map_of s a")
    case None
    then have "map_of s' a = None"
      using d by (metis map_of_None_keys set_disposed_def)
    with None show ?thesis by (simp add: Set_owner_def)
  next
    case (Some v)
    with d obtain v' where "map_of s' a = Some v'" "may_dispose v v'"
      by (auto simp: set_disposed_def)
    with Some show ?thesis by (auto simp: Set_owner_def may_dispose_def IP_InUse_def)
  qed
qed

lemma set_disposed_length: "set_disposed s s' \<Longrightarrow> length s' = length s"
  unfolding set_disposed_def by (metis length_map)

text \<open>Each round of the loop takes at most one valid address out of service.\<close>

lemma dispose_idle_valid:
  "gm_ok s \<Longrightarrow> gm_count IP_Valid s \<le> gm_count IP_Valid (dispose_idle ords s) + length ords"
proof (induction ords arbitrary: s)
  case (Cons ord ords)
  let ?s = "case range_find ord (\<lambda>v. \<not> (IP_InUse v \<or> IP_Deleting v)) s of
     None \<Rightarrow> s | Some k \<Rightarrow> gm_adjust k IP_Dispose s"
  have "gm_ok ?s" using Cons.prems by (simp split: option.split)
  moreover have "gm_count IP_Valid s \<le> Suc (gm_count IP_Valid ?s)"
    using gm_count_adjust [OF Cons.prems] by (simp split: option.split)
  ultimately show ?case using Cons.IH [of ?s] by simp
qed simp

lemma dispose_invalid_valid: "gm_count IP_Valid (dispose_invalid s) = gm_count IP_Valid s"
  unfolding dispose_invalid_def by (rule gm_count_gm_map) (simp add: IP_defs)

lemma Dispose_cases:
  assumes "Local_Dispose ords4 ords6 n l = (l', m)"
  obtains (none) "l' = l" "m = 0"
  | (eni) l1 where "Local_canDispose l = (l1, True)" "Local_eni l \<noteq> None" "Local_status l = statusInUse"
      "l' = l1\<lparr>Local_status := statusDeleting\<rparr>"
      "m = max (int (length (Local_ipv4 l))) (int (length (Local_ipv6 l)))" "m \<le> n"
  | (ips) l1 left4 left6 where "shrunk l l1" "Local_eni l \<noteq> None" "Local_status l = statusInUse"
      "left4 = min (int (length (Set_Idles (dispose_invalid (Local_ipv4 l))))) n"
      "left6 = min (int (length (Set_Idles (dispose_invalid (Local_ipv6 l))))) n"
      "l' = l1\<lparr>Local_ipv4 := dispose_idle (map ords4 [0..<nat left4]) (dispose_invalid (Local_ipv4 l)),
               Local_ipv6 := dispose_idle (map ords6 [0..<nat left6]) (dispose_invalid (Local_ipv6 l))\<rparr>"
      "m = max left4 left6"
proof (cases "Local_eni l = None \<or> Local_status l \<noteq> statusInUse")
  case True
  then show thesis using assms none by (auto simp: Local_Dispose_def)
next
  case False
  define total where "total = max (int (length (Local_ipv4 l))) (int (length (Local_ipv6 l)))"
  obtain l1 b where c: "(if n \<ge> total then Local_canDispose l else (l, False)) = (l1, b)" by fastforce
  have s: "shrunk l l1" using c canDispose_shrunk [of l l1 b] by (auto split: if_splits)
  show thesis
  proof (cases b)
    case True
    have "l' = l1\<lparr>Local_status := statusDeleting\<rparr>" "m = total"
      using assms False c True by (simp_all add: Local_Dispose_def total_def [symmetric] Let_def)
    with c True False show thesis using eni by (auto simp: total_def split: if_splits)
  next
    case False
    with assms c s \<open>\<not> (Local_eni l = None \<or> Local_status l \<noteq> statusInUse)\<close> show thesis
      using ips [OF s] by (simp add: Local_Dispose_def total_def [symmetric] Let_def shrunk_frame [OF s])
  qed
qed

lemma dispose_spec:
  assumes "Local_Dispose ords4 ords6 n l = (l', m)" and "0 \<le> n"
    and "set_ok (Local_ipv4 l)" and "set_ok (Local_ipv6 l)"
  shows "set_disposed (Local_ipv4 l) (Local_ipv4 l') \<and> set_disposed (Local_ipv6 l) (Local_ipv6 l') \<and>
    Set_owner (Local_ipv4 l') = Set_owner (Local_ipv4 l) \<and>
    Set_owner (Local_ipv6 l') = Set_owner (Local_ipv6 l) \<and>
    int (gm_count IP_Valid (Local_ipv4 l)) \<le> int (gm_count IP_Valid (Local_ipv4 l')) + n \<and>
    int (gm_count IP_Valid (Local_ipv6 l)) \<le> int (gm_count IP_Valid (Local_ipv6 l')) + n \<and>
    0 \<le> m \<and> m \<le> n \<and>
    (Local_status l' \<noteq> Local_status l \<longrightarrow>
       Local_status l' = statusDeleting \<and> Set_InUse (Local_ipv4 l) = [] \<and> Set_InUse (Local_ipv6 l) = [] \<and>
       pending (Local_cancelled l) (Local_allocatingV4 l') = [] \<and>
       pending (Local_cancelled l) (Local_allocatingV6 l') = [] \<and>
       int (length (Local_ipv4 l)) \<le> n \<and> int (length (Local_ipv6 l)) \<le> n)"
  using assms(1)
proof (cases rule: Dispose_cases)
  case none
  then show ?thesis using assms(2) by simp
next
  case (eni l1)
  note same = shrunk_frame [OF canDispose_shrunk [OF eni(1)]]
  have "Set_InUse (Local_ipv4 l) = []" "Set_InUse (Local_ipv6 l) = []"
    "Local_allocatingV4 l1 = []" "Local_allocatingV6 l1 = []"
    using eni(1,2) by (rule canDispose_True)+
  with eni(4-6) assms(2) show ?thesis by (simp add: same)
next
  case (ips l1 left4 left6)
  have d: "set_disposed s (dispose_idle os (dispose_invalid s))" for s os
    using dispose_invalid_disposed dispose_idle_disposed by (rule set_disposed_trans)
  have v: "gm_count IP_Valid s \<le> gm_count IP_Valid (dispose_idle os (dispose_invalid s)) + length os"
    if "set_ok s" for s os
    using dispose_idle_valid [of "dispose_invalid s" os] set_ok_gm [OF that]
    by (simp add: dispose_invalid_valid) (simp add: dispose_invalid_def)
  have bounds: "0 \<le> left4" "left4 \<le> n" "0 \<le> left6" "left6 \<le> n"
    using ips(4,5) assms(2) by simp_all
  have s4: "Local_ipv4 l' = dispose_idle (map ords4 [0..<nat left4]) (dispose_invalid (Local_ipv4 l))"
    and s6: "Local_ipv6 l' = dispose_idle (map ords6 [0..<nat left6]) (dispose_invalid (Local_ipv6 l))"
    and st: "Local_status l' = Local_status l" and m: "m = max left4 left6"
    using ips(6,7) shrunk_frame [OF ips(1)] by simp_all
  have "int (gm_count IP_Valid (Local_ipv4 l)) \<le> int (gm_count IP_Valid (Local_ipv4 l')) + n"
    "int (gm_count IP_Valid (Local_ipv6 l)) \<le> int (gm_count IP_Valid (Local_ipv6 l')) + n"
    using v [OF assms(3), of "map ords4 [0..<nat left4]"] v [OF assms(4), of "map ords6 [0..<nat left6]"] bounds
    by (simp_all add: s4 s6)
  then show ?thesis
    using bounds by (simp add: s4 s6 st m d set_disposed_owner [OF d])
qed

text \<open>
  C9: shrinking the pool is safe. \<^verbatim>\<open>Dispose(n)\<close> never touches an address in use or a primary
  address and no owner changes; it takes at most \<open>n\<close> valid addresses of each family out of
  service and reports between 0 and \<open>n\<close>. It gives up the whole ENI only if the ENI holds at most
  \<open>n\<close> addresses of each family, none in use, and no unfinished job.
\<close>

theorem Dispose_safe:
  assumes "Local_Dispose ords4 ords6 n l = (l', m)" and "0 \<le> n"
    and "set_ok (Local_ipv4 l)" and "set_ok (Local_ipv6 l)"
  shows "set_disposed (Local_ipv4 l) (Local_ipv4 l') \<and> set_disposed (Local_ipv6 l) (Local_ipv6 l') \<and>
    Set_owner (Local_ipv4 l') = Set_owner (Local_ipv4 l) \<and>
    Set_owner (Local_ipv6 l') = Set_owner (Local_ipv6 l) \<and>
    int (gm_count IP_Valid (Local_ipv4 l)) \<le> int (gm_count IP_Valid (Local_ipv4 l')) + n \<and>
    int (gm_count IP_Valid (Local_ipv6 l)) \<le> int (gm_count IP_Valid (Local_ipv6 l')) + n \<and>
    0 \<le> m \<and> m \<le> n \<and>
    (Local_status l' \<noteq> Local_status l \<longrightarrow>
       Local_status l' = statusDeleting \<and> Set_InUse (Local_ipv4 l) = [] \<and> Set_InUse (Local_ipv6 l) = [] \<and>
       pending (Local_cancelled l) (Local_allocatingV4 l') = [] \<and>
       pending (Local_cancelled l) (Local_allocatingV6 l') = [] \<and>
       int (length (Local_ipv4 l)) \<le> n \<and> int (length (Local_ipv6 l)) \<le> n)"
  using assms by (rule dispose_spec)

theorem Dispose_safe_witness:
  "snd (Local_Dispose (\<lambda>_. id) (\<lambda>_. id) 1 wit_local) = 1 \<and>
   Set_owner (Local_ipv4 (fst (Local_Dispose (\<lambda>_. id) (\<lambda>_. id) 1 wit_local))) = Set_owner (Local_ipv4 wit_local)"
proof -
  have ok: "set_ok (Local_ipv4 wit_local)" "set_ok (Local_ipv6 wit_local)"
    by (simp_all add: wit_local_def NewLocal_def set_ok_Allocate set_ok_PutValid)
  obtain l' m where run: "Local_Dispose (\<lambda>_. id) (\<lambda>_. id) 1 wit_local = (l', m)" by fastforce
  have "snd (Local_Dispose (\<lambda>_. id) (\<lambda>_. id) 1 wit_local) = 1" by code_simp
  with Dispose_safe [OF run _ ok] run show ?thesis by simp
qed

subsection \<open>Synchronising with the cloud\<close>

definition sync_mark :: "addr list \<Rightarrow> addr \<Rightarrow> IP \<Rightarrow> IP" where
  "sync_mark remote a v = (if IP_Valid v \<and> a \<notin> set remote then v\<lparr>IP_status := ipStatusInvalid\<rparr> else v)"

lemma syncIPLocked_map:
  "set_ok s \<Longrightarrow> map_of (syncIPLocked s remote) a = map_option (sync_mark remote a) (map_of s a)"
  by (cases "map_of s a") (auto simp: syncIPLocked_def sync_mark_def map_of_gm_map IP_defs dest: set_okD)

lemma syncIPLocked_owner: "set_ok s \<Longrightarrow> Set_owner (syncIPLocked s remote) = Set_owner s"
  by (auto simp: Set_owner_def syncIPLocked_map sync_mark_def IP_InUse_def fun_eq_iff split: option.split)

text \<open>
  C10: synchronising marks exactly what is gone. A valid address that the cloud no longer reports
  becomes invalid, so it is not handed out again; every other address keeps its status; no address
  is added, removed or changes its owner.
\<close>

theorem sync_exact:
  assumes "Local_eni l = Some eni" and "Local_status l = statusInUse"
    and "LoadNetworkInterface (ENI_MAC eni) = Inr (r4, r6)"
    and "set_ok (Local_ipv4 l)" and "set_ok (Local_ipv6 l)"
  shows "let l' = Local_sync LoadNetworkInterface l in
    (\<forall>a. map_of (Local_ipv4 l') a = map_option (sync_mark r4 a) (map_of (Local_ipv4 l) a)) \<and>
    (\<forall>a. map_of (Local_ipv6 l') a = map_option (sync_mark r6 a) (map_of (Local_ipv6 l) a)) \<and>
    Set_owner (Local_ipv4 l') = Set_owner (Local_ipv4 l) \<and>
    Set_owner (Local_ipv6 l') = Set_owner (Local_ipv6 l)"
  using assms by (simp add: Local_sync_def syncIPLocked_map syncIPLocked_owner)

theorem sync_exact_witness:
  "map_of (Local_ipv4 (Local_sync (\<lambda>_. Inr ([Addr4 1], [])) wit_local)) (Addr4 2) =
     Some \<lparr>IP_ip = Addr4 2, IP_primary = False, IP_podID = [], IP_status = ipStatusInvalid\<rparr>"
proof -
  have "set_ok (Local_ipv4 wit_local)" "set_ok (Local_ipv6 wit_local)"
    by (simp_all add: wit_local_def NewLocal_def set_ok_Allocate set_ok_PutValid)
  moreover have "Local_eni wit_local = Some wit_eni" "Local_status wit_local = statusInUse"
    by (simp_all add: wit_local_def NewLocal_def)
  moreover have "map_of (Local_ipv4 wit_local) (Addr4 2) =
      Some \<lparr>IP_ip = Addr4 2, IP_primary = False, IP_podID = [], IP_status = ipStatusValid\<rparr>"
    by code_simp
  ultimately show ?thesis
    using sync_exact [of wit_local wit_eni "\<lambda>_. Inr ([Addr4 1], [])" "[Addr4 1]" "[]"]
    by (simp add: Let_def sync_mark_def IP_Valid_def)
qed

subsection \<open>Loading\<close>

text \<open>The IPv4 address a stored record claims on an ENI, if it claims one.\<close>

definition item_v4 :: "ENI \<Rightarrow> ResourceItem \<Rightarrow> addr option" where
  "item_v4 eni res =
     (if Item_Type res \<noteq> ResourceTypeENIIP then None
      else if Item_ENIID res = [] then
        (case parseResourceID (Item_ID res) of
           Some (mac, ip) \<Rightarrow> if Item_ID res \<noteq> [] \<and> mac = ENI_MAC eni then ParseAddr ip else None
         | None \<Rightarrow> None)
      else if Item_ENIID res = ENI_ID eni \<and> Item_IPv4 res \<noteq> [] then ParseAddr (Item_IPv4 res)
      else None)"

lemma load_item_v4:
  assumes "load_item eni p res (s4, s6) = Inr (t4, t6)"
  shows "t4 = (case item_v4 eni res of None \<Rightarrow> s4 | Some ip \<Rightarrow> if map_of s4 ip = None then s4 else Set_Allocate p ip s4)"
  using assms
  by (auto simp: load_item_def item_v4_def Let_def split: if_splits option.splits)

lemma load_items_owner:
  assumes "load_items eni items (s4, s6) = Inr (t4, t6)" and "p \<noteq> []"
    and "(p, res) \<in> set items \<or> Set_owner s4 ip = Some p"
    and "\<forall>q r. (q, r) \<in> set items \<longrightarrow> item_v4 eni r = Some ip \<longrightarrow> q = p"
    and "item_v4 eni res = Some ip" and "map_of s4 ip \<noteq> None"
  shows "Set_owner t4 ip = Some p"
  using assms
proof (induction items arbitrary: s4 s6)
  case (Cons it items)
  obtain q r where it: "it = (q, r)" by (cases it)
  obtain u4 u6 where u: "load_item eni q r (s4, s6) = Inr (u4, u6)" "load_items eni items (u4, u6) = Inr (t4, t6)"
    using Cons.prems(1) by (auto simp: it split: sum.splits)
  note u4 = load_item_v4 [OF u(1)]
  have there: "map_of u4 ip \<noteq> None"
    using Cons.prems(6) by (auto simp: u4 map_of_Allocate split: option.split)
  have "Set_owner u4 ip = Some p" if "(q, r) = (p, res) \<or> Set_owner s4 ip = Some p"
  proof (cases "item_v4 eni r = Some ip")
    case True
    then have "q = p" using Cons.prems(4) it by auto
    then show ?thesis using True Cons.prems(2,6) by (auto simp: u4 Set_owner_Allocate)
  next
    case False
    then have "map_of u4 ip = map_of s4 ip" by (auto simp: u4 map_of_Allocate split: option.split)
    moreover have "Set_owner s4 ip = Some p" using that False Cons.prems(5) by auto
    ultimately show ?thesis by (simp add: Set_owner_def)
  qed
  then have "(p, res) \<in> set items \<or> Set_owner u4 ip = Some p"
    using Cons.prems(3) it by auto
  with Cons.IH [OF u(2) Cons.prems(2)] Cons.prems(4,5) there show ?case
    by (auto simp: it)
qed simp

lemma add_loaded_keys:
  "add_loaded primary vs s = Ret s' \<Longrightarrow> set (keys s') = set (keys s) \<union> set vs"
  by (induction vs arbitrary: s) (auto simp: Set_Add_def NewValidIP_def dom_update split: if_splits)

lemma trim_cap_disposed: "set_disposed s (trim_cap cap s)"
  unfolding trim_cap_def
  by (auto intro!: set_disposed_gm_map simp: may_dispose_Dispose)


definition wit_pods :: "PodResources list" where
  "wit_pods = [\<lparr>PodRes_Resources = [\<lparr>Item_Type = ''eniIp'', Item_ID = ''m.10.0.0.9'', Item_ENIID = [],
      Item_IPv4 = [], Item_IPv6 = []\<rparr>], PodRes_Namespace = ''ns'', PodRes_Name = ''x''\<rparr>]"

definition wit_loaded :: "(error + Local) go" where
  "wit_loaded = Local_load (\<lambda>_. Inr ([Addr4 167772161, Addr4 167772169], [])) wit_pods
     (NewLocal (Some wit_eni) ''secondary''
        \<lparr>Pool_BatchSize = 10, Pool_MaxIPPerENI = 1, Pool_EnableIPv4 = True, Pool_EnableIPv6 = False\<rparr>)"


end
