(* ===== verification/LocalSystem.thy ===== *)
theory LocalSystem
  imports LocalPool
begin

section \<open>A local ENI with its workers running\<close>

text \<open>
  The goroutines of one ENI (\<^verbatim>\<open>pkg/eni/local.go\<close>): callers of \<^verbatim>\<open>Allocate\<close>, \<^verbatim>\<open>Release\<close>, \<^verbatim>\<open>Dispose\<close>
  and \<^verbatim>\<open>sync\<close>, one \<^verbatim>\<open>allocWorker\<close> per queued request, one pending \<^verbatim>\<open>commit\<close> per request answered
  from the pool, and the two factory workers. The lock makes every piece of code between taking
  and giving up the lock one step; \<open>lstep\<close> is the relation of these steps, in every order, with
  every answer of the cloud, every range order and every moment a context may end.

  Two assumptions on the surroundings are switched on by the first argument of \<open>lstep\<close>: the daemon
  runs one operation of a pod at a time (\<^verbatim>\<open>idle_pod\<close>), and the cloud gives at most as many
  addresses as it was asked for, none of which the pool holds already (\<^verbatim>\<open>fresh_ips\<close>).
\<close>

text \<open>A \<^verbatim>\<open>commit\<close> that waits for the lock; its pointers may outlive the objects in the sets.\<close>

record commit_job =
  cj_pod :: string
  cj_k4 :: "addr option"
  cj_live4 :: bool
  cj_k6 :: "addr option"
  cj_live6 :: bool

record lsys =
  sys_lo :: Local
  sys_fa :: alloc_pc
  sys_fd :: dispose_pc
  sys_commits :: "commit_job list"
  sys_workers :: "(string \<times> LocalIPRequest) list"
  sys_next :: nat
  sys_grants :: "(string \<times> LocalIPResource) list"
  sys_stray4 :: nat

text \<open>The pointers to objects that a write or a deletion at these addresses replaced or removed.\<close>

definition orphan4 :: "addr list \<Rightarrow> commit_job list \<Rightarrow> commit_job list" where
  "orphan4 ks cs = map (\<lambda>c. c\<lparr>cj_live4 := cj_live4 c \<and> (\<forall>a \<in> set ks. cj_k4 c \<noteq> Some a)\<rparr>) cs"

definition orphan6 :: "addr list \<Rightarrow> commit_job list \<Rightarrow> commit_job list" where
  "orphan6 ks cs = map (\<lambda>c. c\<lparr>cj_live6 := cj_live6 c \<and> (\<forall>a \<in> set ks. cj_k6 c \<noteq> Some a)\<rparr>) cs"

definition orphan_all :: "commit_job list \<Rightarrow> commit_job list" where
  "orphan_all cs = map (\<lambda>c. c\<lparr>cj_live4 := False, cj_live6 := False\<rparr>) cs"

definition idle_pod :: "string \<Rightarrow> lsys \<Rightarrow> bool" where
  "idle_pod p s \<longleftrightarrow> p \<notin> set (map cj_pod (sys_commits s)) \<and> p \<notin> set (map fst (sys_workers s))"

definition fresh_ips :: "int \<Rightarrow> addr list \<Rightarrow> Set \<Rightarrow> bool" where
  "fresh_ips n ips s \<longleftrightarrow> int (length ips) \<le> n \<and> (\<forall>a \<in> set ips. a \<notin> set (keys s))"

datatype label =
    LAllocate string | LCommit string | LWorker string | LRelease string
  | LDispose | LSync | LFactory | LUnassign | LDeleted

fun answered :: "string \<Rightarrow> alloc_answer \<Rightarrow> lsys \<Rightarrow> lsys" where
  "answered p (Refused ts) s = s"
| "answered p (Direct k4 k6) s =
     s\<lparr>sys_commits := \<lparr>cj_pod = p, cj_k4 = k4, cj_live4 = True, cj_k6 = k6, cj_live6 = True\<rparr> # sys_commits s\<rparr>"
| "answered p (Queued r) s = s\<lparr>sys_workers := (p, r) # sys_workers s\<rparr>"

fun worker_ended :: "string \<Rightarrow> (string \<times> LocalIPRequest) list \<Rightarrow> worker_outcome \<Rightarrow> lsys \<Rightarrow> lsys" where
  "worker_ended p rest WWait s = s"
| "worker_ended p rest WClosed s = s\<lparr>sys_workers := rest\<rparr>"
| "worker_ended p rest WEmpty s = s\<lparr>sys_workers := rest\<rparr>"
| "worker_ended p rest (WAnswer res) s = s\<lparr>sys_workers := rest, sys_grants := (p, res) # sys_grants s\<rparr>"

text \<open>The addresses a factory answer brings into the pool.\<close>

fun answer_ips :: "assign_answer \<Rightarrow> addr list" where
  "answer_ips (AssignErr e ips) = ips"
| "answer_ips (Assigned ips) = ips"

text \<open>Addresses of a failed call, or of a call that outlived its ENI, are counted as strays.\<close>

definition stray :: "assign_answer \<Rightarrow> Local \<Rightarrow> nat" where
  "stray ans l =
     (case ans of AssignErr e ips \<Rightarrow> length ips | Assigned ips \<Rightarrow> if Local_eni l = None then length ips else 0)"

inductive lstep :: "bool \<Rightarrow> lsys \<Rightarrow> label \<Rightarrow> lsys go \<Rightarrow> bool" for wb :: bool where
  allocate: "\<lbrakk>Local_Allocate now o4 o6 p (LocalReq r) (sys_lo s) = (l', ans); Req_id r = sys_next s;
     p \<noteq> [] \<or> Req_NoCache r \<and> (Local_enableIPv4 (sys_lo s) \<or> Local_enableIPv6 (sys_lo s)); wb \<Longrightarrow> p \<noteq> [] \<Longrightarrow> idle_pod p s; range_order o4; range_order o6\<rbrakk> \<Longrightarrow>
   lstep wb s (LAllocate p) (Ret (answered p ans (s\<lparr>sys_lo := l', sys_next := Suc (sys_next s)\<rparr>)))"
| commit: "\<lbrakk>sys_commits s = xs @ c # ys;
     Local_commit d (cj_k4 c) (cj_live4 c) (cj_k6 c) (cj_live6 c) (cj_pod c) (sys_lo s) = Ret (l', res)\<rbrakk> \<Longrightarrow>
   lstep wb s (LCommit (cj_pod c)) (Ret (s\<lparr>sys_lo := l', sys_commits := xs @ ys,
     sys_grants := (case res of None \<Rightarrow> [] | Some r \<Rightarrow> [(cj_pod c, r)]) @ sys_grants s\<rparr>))"
| commit_panic: "\<lbrakk>sys_commits s = xs @ c # ys;
     Local_commit d (cj_k4 c) (cj_live4 c) (cj_k6 c) (cj_live6 c) (cj_pod c) (sys_lo s) = Panic\<rbrakk> \<Longrightarrow>
   lstep wb s (LCommit (cj_pod c)) Panic"
| worker: "\<lbrakk>sys_workers s = xs @ (p, r) # ys; range_order o4; range_order o6;
     Local_allocWorker o4 o6 cd d p r (sys_lo s) = Ret (l', out)\<rbrakk> \<Longrightarrow>
   lstep wb s (LWorker p) (Ret (worker_ended p (xs @ ys) out (s\<lparr>sys_lo := l'\<rparr>)))"
| worker_panic: "\<lbrakk>sys_workers s = xs @ (p, r) # ys; range_order o4; range_order o6;
     Local_allocWorker o4 o6 cd d p r (sys_lo s) = Panic\<rbrakk> \<Longrightarrow>
   lstep wb s (LWorker p) Panic"
| release: "\<lbrakk>Local_Release p res (sys_lo s) = (l', ok); p \<noteq> []; wb \<Longrightarrow> idle_pod p s\<rbrakk> \<Longrightarrow>
   lstep wb s (LRelease p) (Ret (s\<lparr>sys_lo := l'\<rparr>))"
| dispose: "\<lbrakk>Local_Dispose ords4 ords6 n (sys_lo s) = (l', m); 0 \<le> n\<rbrakk> \<Longrightarrow>
   lstep wb s LDispose (Ret (s\<lparr>sys_lo := l'\<rparr>))"
| sync: "lstep wb s LSync (Ret (s\<lparr>sys_lo := Local_sync LoadNetworkInterface (sys_lo s)\<rparr>))"
| fa_head: "\<lbrakk>sys_fa s = FA_Head; fa_head now (sys_lo s) = (l', pc)\<rbrakk> \<Longrightarrow>
   lstep wb s LFactory (Ret (s\<lparr>sys_lo := l', sys_fa := pc\<rparr>))"
| fa_wake: "\<lbrakk>sys_fa s = FA_Sleep; fa_wake (sys_lo s) = (l', pc)\<rbrakk> \<Longrightarrow>
   lstep wb s LFactory (Ret (s\<lparr>sys_lo := l', sys_fa := pc\<rparr>))"
| fa_created: "\<lbrakk>sys_fa s = FA_Create n4 n6; fa_created now n4 n6 ans (sys_lo s) = Ret l';
     \<And>eni v4 v6. ans = Created eni v4 v6 \<Longrightarrow> wb \<Longrightarrow>
       fresh_ips n4 v4 (Local_ipv4 (sys_lo s)) \<and> fresh_ips n6 v6 (Local_ipv6 (sys_lo s))\<rbrakk> \<Longrightarrow>
   lstep wb s LFactory (Ret (s\<lparr>sys_lo := l', sys_fa := FA_Head,
     sys_commits := (case ans of Created eni v4 v6 \<Rightarrow> orphan6 v6 (orphan4 v4 (sys_commits s))
                     | _ \<Rightarrow> sys_commits s)\<rparr>))"
| fa_limited: "\<lbrakk>sys_fa s = FA_Assign4 i n4 n6 \<or> sys_fa s = FA_Assign6 i n6\<rbrakk> \<Longrightarrow>
   lstep wb s LFactory (Ret (s\<lparr>sys_fa := FA_Head\<rparr>))"
| fa_call4: "\<lbrakk>sys_fa s = FA_Assign4 i n4 n6; fa_call_mac (sys_lo s) = Ret mac\<rbrakk> \<Longrightarrow>
   lstep wb s LFactory (Ret (s\<lparr>sys_fa := FA_Assigning4 i n4 n6\<rparr>))"
| fa_call4_panic: "\<lbrakk>sys_fa s = FA_Assign4 i n4 n6; fa_call_mac (sys_lo s) = Panic\<rbrakk> \<Longrightarrow>
   lstep wb s LFactory Panic"
| fa_call6: "\<lbrakk>sys_fa s = FA_Assign6 i n6; fa_call_mac (sys_lo s) = Ret mac\<rbrakk> \<Longrightarrow>
   lstep wb s LFactory (Ret (s\<lparr>sys_fa := FA_Assigning6 i n6\<rparr>))"
| fa_call6_panic: "\<lbrakk>sys_fa s = FA_Assign6 i n6; fa_call_mac (sys_lo s) = Panic\<rbrakk> \<Longrightarrow>
   lstep wb s LFactory Panic"
| fa_assigned4: "\<lbrakk>sys_fa s = FA_Assigning4 i n4 n6; fa_assigned4 now i n6 ans (sys_lo s) = (l', pc);
     wb \<Longrightarrow> fresh_ips n4 (answer_ips ans) (Local_ipv4 (sys_lo s))\<rbrakk> \<Longrightarrow>
   lstep wb s LFactory (Ret (s\<lparr>sys_lo := l', sys_fa := pc,
     sys_commits := orphan4 (answer_ips ans) (sys_commits s),
     sys_stray4 := sys_stray4 s + stray ans (sys_lo s)\<rparr>))"
| fa_assigned6: "\<lbrakk>sys_fa s = FA_Assigning6 i n6; fa_assigned6 now ans (sys_lo s) = (l', pc);
     wb \<Longrightarrow> fresh_ips n6 (answer_ips ans) (Local_ipv6 (sys_lo s))\<rbrakk> \<Longrightarrow>
   lstep wb s LFactory (Ret (s\<lparr>sys_lo := l', sys_fa := pc,
     sys_commits := orphan6 (answer_ips ans) (sys_commits s)\<rparr>))"
| fd_head: "\<lbrakk>sys_fd s = FD_Head; fd_head o4 o6 (sys_lo s) = (l', pc); range_order o4; range_order o6\<rbrakk> \<Longrightarrow>
   lstep wb s LUnassign (Ret (s\<lparr>sys_lo := l', sys_fd := pc\<rparr>))"
| fd_deleted: "\<lbrakk>sys_fd s = FD_Delete\<rbrakk> \<Longrightarrow>
   lstep wb s LDeleted (Ret (s\<lparr>sys_lo := fd_deleted ok (sys_lo s), sys_fd := FD_Head,
     sys_commits := (if ok then orphan_all (sys_commits s) else sys_commits s)\<rparr>))"
| fd_unassigned4: "\<lbrakk>sys_fd s = FD_Unassign4 t4 t6; fd_unassigned4 ok t4 t6 (sys_lo s) = (l', pc)\<rbrakk> \<Longrightarrow>
   lstep wb s LUnassign (Ret (s\<lparr>sys_lo := l', sys_fd := pc,
     sys_commits := (if ok then orphan4 t4 (sys_commits s) else sys_commits s)\<rparr>))"
| fd_unassigned6: "\<lbrakk>sys_fd s = FD_Unassign6 t6\<rbrakk> \<Longrightarrow>
   lstep wb s LUnassign (Ret (s\<lparr>sys_lo := fd_unassigned6 ok t6 (sys_lo s), sys_fd := FD_Head,
     sys_commits := (if ok then orphan6 t6 (sys_commits s) else sys_commits s)\<rparr>))"

text \<open>The states a running ENI goes through, from the one \<^verbatim>\<open>Run\<close> starts its workers in.\<close>

definition sys_init :: "Local \<Rightarrow> lsys" where
  "sys_init l = \<lparr>sys_lo = l, sys_fa = FA_Head, sys_fd = FD_Head, sys_commits = [], sys_workers = [],
                 sys_next = 0, sys_grants = [], sys_stray4 = 0\<rparr>"

inductive lreach :: "bool \<Rightarrow> Local \<Rightarrow> lsys \<Rightarrow> bool" for wb :: bool and l :: Local where
  start: "lreach wb l (sys_init l)"
| step: "lreach wb l s \<Longrightarrow> lstep wb s lab (Ret s') \<Longrightarrow> lreach wb l s'"

text \<open>No address in use is on its way out.\<close>

definition clean :: "Set \<Rightarrow> bool" where
  "clean s \<longleftrightarrow> (\<forall>a v. map_of s a = Some v \<longrightarrow> IP_InUse v \<longrightarrow> \<not> IP_Deleting v)"

text \<open>What \<^verbatim>\<open>NewLocal\<close> and \<^verbatim>\<open>load\<close> leave.\<close>

definition start_ok :: "Local \<Rightarrow> bool" where
  "start_ok l \<longleftrightarrow> set_ok (Local_ipv4 l) \<and> set_ok (Local_ipv6 l) \<and>
     Local_allocatingV4 l = [] \<and> Local_allocatingV6 l = [] \<and> Local_dangingV4 l = [] \<and> Local_dangingV6 l = [] \<and>
     Local_cancelled l = [] \<and> Local_status l = (if Local_eni l = None then statusInit else statusInUse) \<and>
     (Local_eni l = None \<longrightarrow> Local_ipv4 l = [] \<and> Local_ipv6 l = []) \<and>
     clean (Local_ipv4 l) \<and> clean (Local_ipv6 l)"

subsection \<open>Well-formed states\<close>

definition same_eni :: "Local \<Rightarrow> Local \<Rightarrow> bool" where
  "same_eni l l' \<longleftrightarrow> Local_status l' = Local_status l \<and> Local_eni l' = Local_eni l \<and>
     Local_cap l' = Local_cap l \<and> Local_batchSize l' = Local_batchSize l \<and>
     Local_enableIPv4 l' = Local_enableIPv4 l \<and> Local_enableIPv6 l' = Local_enableIPv6 l"

definition sets_ok :: "Local \<Rightarrow> bool" where
  "sets_ok l \<longleftrightarrow> set_ok (Local_ipv4 l) \<and> set_ok (Local_ipv6 l)"

lemma same_eni_refl [simp]: "same_eni l l"
  by (simp add: same_eni_def)

lemma same_eni_shrunk: "shrunk l l' \<Longrightarrow> same_eni l l'"
  by (simp add: same_eni_def frame_simps)

lemma same_eni_trans: "same_eni a b \<Longrightarrow> same_eni b c \<Longrightarrow> same_eni a c"
  by (simp add: same_eni_def)

lemma same_eni_assign: "same_eni l (assign4 p k l)" "same_eni l (assign6 p k l)"
  by (simp_all add: same_eni_def assign4_def assign6_def split: option.split)

lemma sets_ok_assign: "sets_ok l \<Longrightarrow> sets_ok (assign4 p k l)" "sets_ok l \<Longrightarrow> sets_ok (assign6 p k l)"
  by (auto simp: sets_ok_def assign4_set assign6_set split: option.split)

lemma Allocate_shape:
  assumes "Local_Allocate now o4 o6 p req l = (l', ans)"
  obtains (refused) ts where "ans = Refused ts" "shrunk l l'"
  | (direct) l1 k4 k6 where "ans = Direct k4 k6" "shrunk l l1" "l' = assign6 p k6 (assign4 p k4 l1)"
      "got4 o4 p l k4" "got6 o6 p l k6"
  | (queued) r l1 n4 n6 where "req = LocalReq r" "ans = Queued r" "shrunk l l1"
      "l' = l1\<lparr>Local_allocatingV4 := Local_allocatingV4 l1 @ replicate n4 r,
               Local_allocatingV6 := Local_allocatingV6 l1 @ replicate n6 r\<rparr>"
      "n4 = 0 \<or> n4 = 1 \<and> room4 l1" "n6 = 0 \<or> n6 = 1 \<and> room6 l1" "0 < n4 + n6"
proof (cases "\<exists>r. req = LocalReq r \<and> alloc_pool now o4 o6 p r l = (l', ans)")
  case True
  then obtain r where req: "req = LocalReq r" and pool: "alloc_pool now o4 o6 p r l = (l', ans)" by blast
  note R = refused and D = direct and Q = queued
  from pool show thesis
  proof (cases rule: alloc_pool_cases)
    case refused then show thesis by (rule R)
  next
    case direct then show thesis by (rule D)
  next
    case queued then show thesis by (intro Q [OF req]) assumption+
  qed
next
  case False
  then show thesis
    using assms refused by (auto simp: Local_Allocate_def split: ResourceRequest.splits if_splits)
qed

lemma Allocate_wf:
  assumes "Local_Allocate now o4 o6 p req l = (l', ans)"
  shows "same_eni l l' \<and> (sets_ok l \<longrightarrow> sets_ok l')"
  using assms
proof (cases rule: Allocate_shape)
  case refused then show ?thesis by (auto simp: same_eni_shrunk sets_ok_def frame_simps)
next
  case (direct l1 k4 k6)
  have "same_eni l l'"
    unfolding direct(3) by (meson direct(2) same_eni_assign same_eni_shrunk same_eni_trans)
  moreover have "sets_ok l1" if "sets_ok l" using that by (simp add: sets_ok_def shrunk_frame [OF direct(2)])
  ultimately show ?thesis by (simp add: direct(3) sets_ok_assign)
next
  case (queued r l1 n4 n6)
  then show ?thesis by (simp add: same_eni_def sets_ok_def shrunk_frame [OF queued(3)])
qed

lemma switch4_eq: "\<exists>a d. switchIPv4 req l = l\<lparr>Local_allocatingV4 := a, Local_dangingV4 := d\<rparr>"
  by (cases l) (simp add: switchIPv4_def AllocatingRequests_Len_def Let_def)

lemma switch6_eq: "\<exists>a d. switchIPv6 req l = l\<lparr>Local_allocatingV6 := a, Local_dangingV6 := d\<rparr>"
  by (cases l) (simp add: switchIPv6_def AllocatingRequests_Len_def Let_def)

lemma defer_frame [simp]:
  "Local_ipv4 (allocWorker_defer r l) = Local_ipv4 l" "Local_ipv6 (allocWorker_defer r l) = Local_ipv6 l"
  "same_eni l (allocWorker_defer r l)"
  using switch4_eq [of r l] switch6_eq [of r "switchIPv4 r l"]
  by (auto simp: allocWorker_defer_def LocalIPRequest_cancel_def same_eni_def)

text \<open>What a \<^verbatim>\<open>commit\<close> does to one family: the grant is kept, or taken back.\<close>

definition commit_set :: "bool \<Rightarrow> addr option \<Rightarrow> bool \<Rightarrow> string \<Rightarrow> Set \<Rightarrow> Set" where
  "commit_set d k live p s =
     (case k of
        Some a \<Rightarrow> if live then (if d then Set_Allocate p a s
                               else gm_adjust a (IP_Release p) (Set_Allocate p a s)) else s
      | None \<Rightarrow> s)"

lemma commit_eq:
  assumes "Local_commit d k4 live4 k6 live6 p l = Ret (l', res)"
  shows "l' = l\<lparr>Local_ipv4 := commit_set d k4 live4 p (Local_ipv4 l),
               Local_ipv6 := commit_set d k6 live6 p (Local_ipv6 l)\<rparr>"
    and "Local_eni l \<noteq> None" and "(res \<noteq> None) = d"
  using assms
  by (auto simp: Local_commit_def commit_set_def assign4_def assign6_def Let_def split: option.splits if_splits)

lemma set_ok_commit: "set_ok s \<Longrightarrow> set_ok (commit_set d k live p s)"
  by (auto simp: commit_set_def IP_Release_def intro!: set_ok_adjust split: option.split)

lemma worker_shape:
  assumes "Local_allocWorker o4 o6 cd d p r l = Ret (l', out)"
  obtains (wait) "l' = l" "out = WWait"
  | (quit) "l' = allocWorker_defer r l" "out = WClosed \<or> out = WEmpty"
  | (served) k4 k6 l1 res where "Local_commit d k4 True k6 True p l = Ret (l1, res)"
      "l' = allocWorker_defer r l1" "got4 o4 p l k4" "got6 o6 p l k6" "\<not> Req_NoCache r"
      "out = (case res of None \<Rightarrow> WClosed | Some x \<Rightarrow> WAnswer x)"
proof -
  define k4 where "k4 = (if Local_enableIPv4 l then Set_PeekAvailable o4 p (Local_ipv4 l) else None)"
  define k6 where "k6 = (if Local_enableIPv6 l then Set_PeekAvailable o6 p (Local_ipv6 l) else None)"
  consider (a) "Req_NoCache r \<or> cd" | (b) "\<not> (Req_NoCache r \<or> cd)" "Local_enableIPv4 l \<and> k4 = None \<or> Local_enableIPv6 l \<and> k6 = None"
    | (c) "\<not> (Req_NoCache r \<or> cd)" "got4 o4 p l k4" "got6 o6 p l k6"
  proof -
    have "got4 o4 p l k4 \<or> Local_enableIPv4 l \<and> k4 = None"
      by (cases "Set_PeekAvailable o4 p (Local_ipv4 l)") (simp_all add: got4_def k4_def)
    moreover have "got6 o6 p l k6 \<or> Local_enableIPv6 l \<and> k6 = None"
      by (cases "Set_PeekAvailable o6 p (Local_ipv6 l)") (simp_all add: got6_def k6_def)
    ultimately show thesis using that by blast
  qed
  then show thesis
  proof cases
    case a
    then show thesis using assms wait quit by (auto simp: Local_allocWorker_def split: if_splits)
  next
    case b
    then show thesis
      using assms wait by (auto simp: Local_allocWorker_def k4_def [symmetric] k6_def [symmetric])
  next
    case c
    have found: "(Local_enableIPv4 l \<and> k4 = None \<or> Local_enableIPv6 l \<and> k6 = None) = False"
      using got4_peek(1) [OF c(2)] got6_peek(1) [OF c(3)] by simp
    have quick: "Req_NoCache r = False" "cd = False" using c(1) by simp_all
    have body: "(case Local_commit d k4 True k6 True p l of
                  Panic \<Rightarrow> Panic
                | Ret (l, Some res) \<Rightarrow> Ret (allocWorker_defer r l, WAnswer res)
                | Ret (l, None) \<Rightarrow> Ret (allocWorker_defer r l, WClosed)) = Ret (l', out)"
      using assms unfolding Local_allocWorker_def k4_def [symmetric] k6_def [symmetric] Let_def
      by (simp only: found quick if_False)
    obtain l1 res where run: "Local_commit d k4 True k6 True p l = Ret (l1, res)"
      using body by (cases "Local_commit d k4 True k6 True p l") auto
    show thesis
      using body run by (intro served [OF run _ c(2,3)]) (use c(1) in \<open>auto split: option.splits\<close>)
  qed
qed

lemma worker_wf:
  assumes "Local_allocWorker o4 o6 cd d p r l = Ret (l', out)"
  shows "same_eni l l' \<and> (sets_ok l \<longrightarrow> sets_ok l')"
  using assms
proof (cases rule: worker_shape)
  case (served k4 k6 l1 res)
  have l1: "same_eni l l1" "sets_ok l \<longrightarrow> sets_ok l1"
    using commit_eq(1) [OF served(1)] by (auto simp: same_eni_def sets_ok_def set_ok_commit)
  then show ?thesis
    unfolding served(2) using same_eni_trans [OF l1(1)] by (auto simp: sets_ok_def)
qed (auto simp: sets_ok_def)

lemma Release_wf: "Local_Release p res l = (l', ok) \<Longrightarrow> same_eni l l' \<and> (sets_ok l \<longrightarrow> sets_ok l')"
  by (auto simp: Local_Release_def same_eni_def sets_ok_def Let_def split: NetworkResource.splits option.splits if_splits)

lemma set_disposed_ok: "set_ok s \<Longrightarrow> set_disposed s s' \<Longrightarrow> set_ok s'"
proof (rule set_okI)
  assume ok: "set_ok s" and d: "set_disposed s s'"
  show "gm_ok s'" using set_ok_gm [OF ok] d by (simp add: gm_ok_def set_disposed_def)
  fix k v assume v: "map_of s' k = Some v"
  then obtain u where u: "map_of s k = Some u"
    using d by (metis map_of_None_keys not_None_eq set_disposed_def)
  with d v have "may_dispose u v" unfolding set_disposed_def by (metis option.inject)
  with set_okD [OF ok u] show "IP_ip v = k" by (auto simp: may_dispose_def)
qed

lemma Dispose_sets:
  assumes "Local_Dispose ords4 ords6 n l = (l', m)"
  shows "set_disposed (Local_ipv4 l) (Local_ipv4 l') \<and> set_disposed (Local_ipv6 l) (Local_ipv6 l')"
  using assms
proof (cases rule: Dispose_cases)
  case (eni l1)
  then show ?thesis using shrunk_frame [OF canDispose_shrunk [OF eni(1)]] by simp
next
  case (ips l1 left4 left6)
  have "set_disposed s (dispose_idle os (dispose_invalid s))" for s os
    using dispose_invalid_disposed dispose_idle_disposed by (rule set_disposed_trans)
  with ips(6) show ?thesis by simp
qed simp

lemma Dispose_wf:
  assumes "Local_Dispose ords4 ords6 n l = (l', m)"
  shows "(sets_ok l \<longrightarrow> sets_ok l') \<and>
    (same_eni l l' \<or> Local_eni l' = Local_eni l \<and> Local_eni l \<noteq> None \<and> Local_status l = statusInUse \<and>
       Local_status l' = statusDeleting)"
proof -
  have "same_eni l l' \<or> Local_eni l' = Local_eni l \<and> Local_eni l \<noteq> None \<and> Local_status l = statusInUse \<and>
       Local_status l' = statusDeleting"
    using assms
  proof (cases rule: Dispose_cases)
    case (eni l1)
    then show ?thesis using shrunk_frame [OF canDispose_shrunk [OF eni(1)]] by simp
  next
    case (ips l1 left4 left6)
    have "same_eni l l'" using same_eni_shrunk [OF ips(1)] by (simp add: ips(6) same_eni_def)
    then show ?thesis ..
  qed simp
  then show ?thesis using Dispose_sets [OF assms] by (auto simp: sets_ok_def set_disposed_ok)
qed

lemma set_ok_sync: "set_ok s \<Longrightarrow> set_ok (syncIPLocked s remote)"
  unfolding syncIPLocked_def by (rule set_ok_gm_map) (simp_all add: IP_SetInvalid_def)

lemma sync_wf: "same_eni l (Local_sync L l) \<and> (sets_ok l \<longrightarrow> sets_ok (Local_sync L l))"
  by (auto simp: Local_sync_def same_eni_def sets_ok_def set_ok_sync split: option.splits sum.splits)

lemma fa_head_shrunk: "fa_head now l = (l', pc) \<Longrightarrow> shrunk l l' \<and> (pc = FA_Head \<or> pc = FA_Sleep)"
  by (auto simp: fa_head_def Let_def shrunk_def split: if_splits)

lemma fa_head_wf: "fa_head now l = (l', pc) \<Longrightarrow> same_eni l l' \<and> (sets_ok l \<longrightarrow> sets_ok l')"
  by (drule fa_head_shrunk) (auto simp: same_eni_shrunk sets_ok_def frame_simps)

lemma fd_head_shrunk: "fd_head o4 o6 l = (l', pc) \<Longrightarrow> shrunk l l'"
  using canDispose_shrunk [of l] by (auto simp: fd_head_def Let_def split: if_splits prod.splits)

lemma add_loaded_ok: "add_loaded primary vs s = Ret s' \<Longrightarrow> set_ok s \<Longrightarrow> set_ok s'"
  by (induction vs arbitrary: s) (auto split: if_splits)

lemma load_item_ok:
  "load_item eni p res (s4, s6) = Inr (t4, t6) \<Longrightarrow> set_ok s4 \<and> set_ok s6 \<Longrightarrow> set_ok t4 \<and> set_ok t6"
  by (auto simp: load_item_def Let_def split: if_splits option.splits)

definition no_deleting :: "Set \<Rightarrow> bool" where
  "no_deleting s \<longleftrightarrow> (\<forall>a v. map_of s a = Some v \<longrightarrow> \<not> IP_Deleting v)"

lemma no_deleting_Allocate: "no_deleting s \<Longrightarrow> no_deleting (Set_Allocate p a s)"
  by (auto simp: no_deleting_def map_of_Allocate IP_defs split: if_splits)

lemma no_deleting_PutValid: "no_deleting s \<Longrightarrow> no_deleting (Set_PutValid ips s)"
  by (auto simp: no_deleting_def map_of_PutValid IP_defs split: if_splits)

lemma add_loaded_no_deleting: "add_loaded primary vs s = Ret s' \<Longrightarrow> no_deleting s \<Longrightarrow> no_deleting s'"
proof (induction vs arbitrary: s)
  case (Cons v vs)
  have "no_deleting (Set_Add (NewValidIP v (v = primary)) s)"
    using Cons.prems(2) by (simp add: no_deleting_def Set_Add_def map_of_update IP_defs)
  then show ?case using Cons by (simp split: if_splits)
qed simp

lemma load_item_no_deleting:
  "load_item eni p res (s4, s6) = Inr (t4, t6) \<Longrightarrow> no_deleting s4 \<and> no_deleting s6 \<Longrightarrow> no_deleting t4 \<and> no_deleting t6"
  by (auto simp: load_item_def Let_def no_deleting_Allocate split: if_splits option.splits)

lemma load_items_keep:
  assumes "load_items eni items (s4, s6) = Inr (t4, t6)" and "P s4 \<and> P s6"
    and "\<And>p res s4 s6 t4 t6. load_item eni p res (s4, s6) = Inr (t4, t6) \<Longrightarrow> P s4 \<and> P s6 \<Longrightarrow> P t4 \<and> P t6"
  shows "P t4 \<and> P t6"
  using assms(1,2)
proof (induction items arbitrary: s4 s6)
  case (Cons it items)
  obtain q r where it: "it = (q, r)" by (cases it)
  obtain u4 u6 where u: "load_item eni q r (s4, s6) = Inr (u4, u6)" "load_items eni items (u4, u6) = Inr (t4, t6)"
    using Cons.prems(1) by (auto simp: it split: sum.splits)
  show ?case using Cons.IH [OF u(2) assms(3) [OF u(1) Cons.prems(2)]] .
qed simp

lemma clean_disposed: "set_disposed s s' \<Longrightarrow> clean s \<Longrightarrow> clean s'"
proof -
  assume d: "set_disposed s s'" and c: "clean s"
  { fix a v assume v: "map_of s' a = Some v" "IP_InUse v"
    then obtain u where u: "map_of s a = Some u"
      using d by (metis map_of_None_keys not_None_eq set_disposed_def)
    with d v have "may_dispose u v" unfolding set_disposed_def by (metis option.inject)
    with v u c have "\<not> IP_Deleting v" by (auto simp: may_dispose_def clean_def IP_defs) }
  then show "clean s'" by (simp add: clean_def)
qed

lemma load_start_ok:
  assumes "Local_load L prs (NewLocal eni ty cfg) = Ret (Inr l)"
  shows "start_ok l"
proof (cases eni)
  case None
  with assms show ?thesis by (auto simp: Local_load_def NewLocal_def start_ok_def clean_def)
next
  case (Some e)
  obtain r4 r6 s4 t4 t6 where s4: "add_loaded (ENI_PrimaryIPv4 e) r4 [] = Ret s4"
    and t: "load_items e (pod_items prs) (s4, Set_PutValid r6 []) = Inr (t4, t6)"
    and l: "Local_ipv4 l = trim_cap (Pool_MaxIPPerENI cfg) t4" "Local_ipv6 l = trim_cap (Pool_MaxIPPerENI cfg) t6"
    using assms Some by (auto simp: Local_load_def NewLocal_def split: if_splits go.splits sum.splits)
  have "set_ok t4 \<and> set_ok t6"
  proof (rule load_items_keep [OF t])
    show "set_ok s4 \<and> set_ok (Set_PutValid r6 [])" using add_loaded_ok [OF s4] by (simp add: set_ok_PutValid)
  qed (rule load_item_ok)
  then have ok: "set_ok (Local_ipv4 l) \<and> set_ok (Local_ipv6 l)"
    unfolding l by (blast intro: set_disposed_ok trim_cap_disposed)
  have "no_deleting t4 \<and> no_deleting t6"
  proof (rule load_items_keep [OF t])
    have "no_deleting []" by (simp add: no_deleting_def)
    then show "no_deleting s4 \<and> no_deleting (Set_PutValid r6 [])"
      using add_loaded_no_deleting [OF s4] by (simp add: no_deleting_PutValid)
  qed (rule load_item_no_deleting)
  then have "clean t4" "clean t6" by (simp_all add: no_deleting_def clean_def)
  then have "clean (Local_ipv4 l) \<and> clean (Local_ipv6 l)"
    unfolding l by (blast intro: clean_disposed trim_cap_disposed)
  with ok assms Some show ?thesis
    by (auto simp: Local_load_def NewLocal_def start_ok_def split: if_splits go.splits sum.splits)
qed

text \<open>The status tells whether there is an ENI, and what the factory workers may be doing.\<close>

fun creating :: "alloc_pc \<Rightarrow> bool" where
  "creating (FA_Create n4 n6) = True"
| "creating pc = False"

definition sys_wf :: "lsys \<Rightarrow> bool" where
  "sys_wf s \<longleftrightarrow> sets_ok (sys_lo s) \<and>
     (Local_eni (sys_lo s) = None) = (Local_status (sys_lo s) \<in> {statusInit, statusCreating}) \<and>
     (creating (sys_fa s) \<longrightarrow> Local_status (sys_lo s) = statusCreating) \<and>
     (sys_fd s = FD_Delete \<longrightarrow> Local_status (sys_lo s) = statusDeleting)"

lemma sys_wf_same:
  assumes "sys_wf s" and "same_eni (sys_lo s) (sys_lo s')" and "sets_ok (sys_lo s) \<Longrightarrow> sets_ok (sys_lo s')"
    and "creating (sys_fa s') \<Longrightarrow> creating (sys_fa s)"
    and "sys_fd s' = FD_Delete \<Longrightarrow> sys_fd s = FD_Delete"
  shows "sys_wf s'"
  using assms unfolding sys_wf_def same_eni_def by metis

lemma answered_frame [simp]:
  "sys_lo (answered p ans s) = sys_lo s" "sys_fa (answered p ans s) = sys_fa s"
  "sys_fd (answered p ans s) = sys_fd s" "sys_stray4 (answered p ans s) = sys_stray4 s"
  "sys_next (answered p ans s) = sys_next s"
  by (cases ans; simp)+

lemma worker_ended_frame [simp]:
  "sys_lo (worker_ended p rest out s) = sys_lo s" "sys_fa (worker_ended p rest out s) = sys_fa s"
  "sys_fd (worker_ended p rest out s) = sys_fd s" "sys_stray4 (worker_ended p rest out s) = sys_stray4 s"
  "sys_next (worker_ended p rest out s) = sys_next s" "sys_commits (worker_ended p rest out s) = sys_commits s"
  by (cases out; simp)+

definition n_jobs4 :: "Local \<Rightarrow> int" where
  "n_jobs4 l = int (length (pending (Local_cancelled l) (Local_allocatingV4 l)))"

definition n_jobs6 :: "Local \<Rightarrow> int" where
  "n_jobs6 l = int (length (pending (Local_cancelled l) (Local_allocatingV6 l)))"

lemma fa_wake_create:
  "Local_eni l = None \<Longrightarrow> fa_wake l =
     (l\<lparr>Local_allocatingV4 := (if Local_enableIPv4 l then pending (Local_cancelled l) (Local_allocatingV4 l)
                               else Local_allocatingV4 l),
        Local_allocatingV6 := pending (Local_cancelled l) (Local_allocatingV6 l),
        Local_status := statusCreating\<rparr>,
      FA_Create (if Local_enableIPv4 l then min (Local_batchSize l) (max (n_jobs4 l) 1) else 0)
        (min (Local_batchSize l) (n_jobs6 l)))"
  by (simp add: fa_wake_def n_jobs4_def n_jobs6_def Let_def)

lemma fa_wake_assign:
  "Local_eni l = Some eni \<Longrightarrow> fa_wake l =
     (l\<lparr>Local_allocatingV4 := pending (Local_cancelled l) (Local_allocatingV4 l),
        Local_allocatingV6 := pending (Local_cancelled l) (Local_allocatingV6 l)\<rparr>,
      let n4 = min (Local_batchSize l) (n_jobs4 l); n6 = min (Local_batchSize l) (n_jobs6 l)
      in if n4 > 0 then FA_Assign4 (ENI_ID eni) n4 n6
         else if n6 > 0 then FA_Assign6 (ENI_ID eni) n6 else FA_Head)"
  by (simp add: fa_wake_def n_jobs4_def n_jobs6_def Let_def)

lemma fa_wake_wf:
  assumes "fa_wake l = (l', pc)"
  shows "Local_ipv4 l' = Local_ipv4 l" "Local_ipv6 l' = Local_ipv6 l" "Local_eni l' = Local_eni l"
    "Local_eni l = None \<Longrightarrow> Local_status l' = statusCreating"
    "Local_eni l \<noteq> None \<Longrightarrow> Local_status l' = Local_status l \<and> \<not> creating pc"
  using assms
  by (cases "Local_eni l"; auto simp: fa_wake_create fa_wake_assign Let_def split: if_splits; fail)+

lemma pop_frame [simp]:
  "Local_ipv4 (popNIPv4Jobs n l) = Local_ipv4 l" "Local_ipv6 (popNIPv4Jobs n l) = Local_ipv6 l"
  "Local_ipv4 (popNIPv6Jobs n l) = Local_ipv4 l" "Local_ipv6 (popNIPv6Jobs n l) = Local_ipv6 l"
  "same_eni l (popNIPv4Jobs n l)" "same_eni l (popNIPv6Jobs n l)"
  by (simp_all add: pop4_eq pop6_eq same_eni_def Let_def)

lemma created_jobs_frame [simp]:
  "Local_ipv4 (created_jobs n4 n6 eni v6 l) = Local_ipv4 l"
  "Local_ipv6 (created_jobs n4 n6 eni v6 l) = Local_ipv6 l"
  "Local_eni (created_jobs n4 n6 eni v6 l) = Some eni"
  by (simp_all add: created_jobs_def pop4_eq pop6_eq Let_def)

lemma fa_created_shape:
  assumes "fa_created now n4 n6 ans l = Ret l'"
  obtains (limited) "ans = RateLimited" "l' = l"
  | (failed) err eni t where "ans = CreateErr err eni"
      "l' = l\<lparr>Local_ipAllocInhibitExpireAt := t, Local_eni := eni,
              Local_status := (if eni \<noteq> None then statusDeleting else statusInit)\<rparr>"
  | (created) eni v4 v6 s4 where "ans = Created eni v4 v6"
      "l' = (created_jobs n4 n6 eni v6 l)\<lparr>Local_ipv4 := s4,
              Local_ipv6 := Set_PutValid v6 (Local_ipv6 l), Local_status := statusInUse\<rparr>"
      "s4 = Local_ipv4 l \<or> add_loaded (ENI_PrimaryIPv4 eni) v4 (Local_ipv4 l) = Ret s4"
proof (cases ans)
  case RateLimited
  then show thesis using assms limited by (simp add: fa_created_def)
next
  case (CreateErr err eni)
  then have "l' = (errorHandleLocked now err l)\<lparr>Local_eni := eni,
      Local_status := (if eni \<noteq> None then statusDeleting else statusInit)\<rparr>"
    using assms by (simp add: fa_created_def)
  with CreateErr show thesis by (intro failed) (simp_all add: errorHandle_eq)
next
  case (Created eni v4 v6)
  let ?add = "if ENI_PrimaryIPv4 eni = NoAddr then Ret (Local_ipv4 l)
              else add_loaded (ENI_PrimaryIPv4 eni) v4 (Local_ipv4 l)"
  have "(case ?add of Panic \<Rightarrow> Panic
         | Ret s4 \<Rightarrow> Ret ((created_jobs n4 n6 eni v6 l)\<lparr>Local_ipv4 := s4,
              Local_ipv6 := Set_PutValid v6 (Local_ipv6 l), Local_status := statusInUse\<rparr>)) = Ret l'"
    using assms Created by (simp add: fa_created_def Let_def split: if_splits go.splits)
  then obtain s4 where "?add = Ret s4"
    "l' = (created_jobs n4 n6 eni v6 l)\<lparr>Local_ipv4 := s4,
              Local_ipv6 := Set_PutValid v6 (Local_ipv6 l), Local_status := statusInUse\<rparr>"
    by (cases ?add) auto
  with Created show thesis by (intro created) (auto split: if_splits)
qed

lemma fa_assigned4_wf: "fa_assigned4 now i n6 ans l = (l', pc) \<Longrightarrow> same_eni l l' \<and> (sets_ok l \<longrightarrow> sets_ok l') \<and> \<not> creating pc"
  using pop_frame(5) [where n = "int (length (answer_ips ans))" and l = l]
  by (auto simp: fa_assigned4_def errorHandle_eq same_eni_def sets_ok_def Let_def split: assign_answer.splits if_splits)

lemma fa_assigned6_wf: "fa_assigned6 now ans l = (l', pc) \<Longrightarrow> same_eni l l' \<and> (sets_ok l \<longrightarrow> sets_ok l') \<and> \<not> creating pc"
  using pop_frame(6) [where n = "int (length (answer_ips ans))" and l = l]
  by (auto simp: fa_assigned6_def errorHandle_eq same_eni_def sets_ok_def Let_def split: assign_answer.splits)

lemma lstep_wf:
  assumes "lstep wb s lab (Ret s')" and "sys_wf s"
  shows "sys_wf s'"
  using assms(1)
proof cases
  case (allocate now o4 o6 p r l' ans)
  show ?thesis by (rule sys_wf_same [OF assms(2)]) (use Allocate_wf [OF allocate(3)] allocate(2) in auto)
next
  case (commit xs c ys d l' res)
  show ?thesis
    by (rule sys_wf_same [OF assms(2)])
       (use commit_eq(1) [OF commit(4)] commit(2) in \<open>auto simp: same_eni_def sets_ok_def set_ok_commit\<close>)
next
  case (worker xs p r ys o4 o6 cd d l' out)
  show ?thesis by (rule sys_wf_same [OF assms(2)]) (use worker_wf [OF worker(6)] worker(2) in auto)
next
  case (release p res l' ok)
  show ?thesis by (rule sys_wf_same [OF assms(2)]) (use Release_wf [OF release(3)] release(2) in auto)
next
  case (dispose ords4 ords6 n l' m)
  show ?thesis
    using Dispose_wf [OF dispose(3)] dispose(2) assms(2) by (auto simp: sys_wf_def same_eni_def)
next
  case (sync L)
  show ?thesis by (rule sys_wf_same [OF assms(2)]) (use sync_wf sync(2) in auto)
next
  case (fa_head now l' pc)
  show ?thesis
    by (rule sys_wf_same [OF assms(2)]) (use fa_head_wf [OF fa_head(4)] fa_head_shrunk [OF fa_head(4)] fa_head(2) in auto)
next
  case (fa_wake l' pc)
  show ?thesis
    using fa_wake(2) assms(2) fa_wake_wf [OF fa_wake(4)]
    by (cases "Local_eni (sys_lo s)") (auto simp: sys_wf_def sets_ok_def)
next
  case (fa_created n4 n6 now ans l')
  from fa_created(4) show ?thesis
  proof (cases rule: fa_created_shape)
    case limited then show ?thesis using fa_created(2) assms(2) by (auto simp: sys_wf_def)
  next
    case (failed err eni t)
    then show ?thesis using fa_created(2,3) assms(2) by (auto simp: sys_wf_def sets_ok_def)
  next
    case (created eni v4 v6 s4)
    have "set_ok s4" using created(3) assms(2) by (auto simp: sys_wf_def sets_ok_def add_loaded_ok)
    then show ?thesis using created(2) fa_created(2,3) assms(2) by (auto simp: sys_wf_def sets_ok_def)
  qed
next
  case (fa_limited i n4 n6)
  then show ?thesis using assms(2) by (auto simp: sys_wf_def)
next
  case (fa_call4 i n4 n6 mac)
  then show ?thesis using assms(2) by (auto simp: sys_wf_def)
next
  case (fa_call6 i n6 mac)
  then show ?thesis using assms(2) by (auto simp: sys_wf_def)
next
  case (fa_assigned4 i n4 n6 now ans l' pc)
  show ?thesis by (rule sys_wf_same [OF assms(2)]) (use fa_assigned4_wf [OF fa_assigned4(4)] fa_assigned4(2) in auto)
next
  case (fa_assigned6 i n6 now ans l' pc)
  show ?thesis by (rule sys_wf_same [OF assms(2)]) (use fa_assigned6_wf [OF fa_assigned6(4)] fa_assigned6(2) in auto)
next
  case (fd_head o4 o6 l' pc)
  have "pc = FD_Delete \<Longrightarrow> Local_status (sys_lo s) = statusDeleting"
    using fd_head(4) by (auto simp: fd_head_def Let_def split: if_splits prod.splits)
  then show ?thesis
    using fd_head(2) assms(2) same_eni_shrunk [OF fd_head_shrunk [OF fd_head(4)]] fd_head_shrunk [OF fd_head(4)]
    by (auto simp: sys_wf_def same_eni_def sets_ok_def frame_simps)
next
  case (fd_deleted ok)
  then show ?thesis using assms(2) by (auto simp: sys_wf_def sets_ok_def fd_deleted_def)
next
  case (fd_unassigned4 t4 t6 ok l' pc)
  then show ?thesis
    using assms(2) by (auto simp: sys_wf_def sets_ok_def fd_unassigned4_def split: if_splits)
next
  case (fd_unassigned6 t6 ok)
  then show ?thesis using assms(2) by (auto simp: sys_wf_def sets_ok_def fd_unassigned6_def)
qed

lemma lreach_wf:
  assumes "lreach wb l s" and "start_ok l"
  shows "sys_wf s"
  using assms
proof (induction rule: lreach.induct)
  case start
  then show ?case by (auto simp: sys_wf_def sys_init_def start_ok_def sets_ok_def)
next
  case (step s lab s')
  then show ?case by (blast intro: lstep_wf)
qed

end
