(* ===== verification/LocalOwners.thy ===== *)
theory LocalOwners
  imports LocalSystem
begin

section \<open>Who owns an address while the workers run\<close>

text \<open>
  Through every interleaving of the goroutines of an ENI, an address in use passes to nobody else
  and is lost by its owner only through the owner's own release, the end of the owner's own request,
  or the deletion of the whole ENI. The proof carries three facts along: no address in use is
  marked for deletion, the addresses a running unassign call will remove are all marked, and a
  pending \<^verbatim>\<open>commit\<close> writes only to addresses its pod already owns.
\<close>

text \<open>How the owners of one family may change when only the pods in \<open>P\<close> give something up.\<close>

definition evolves :: "string set \<Rightarrow> Set \<Rightarrow> Set \<Rightarrow> bool" where
  "evolves P s s' \<longleftrightarrow> (\<forall>a p. Set_owner s a = Some p \<longrightarrow>
     Set_owner s' a = Some p \<or> p \<in> P \<and> Set_owner s' a = None)"

definition doomed :: "addr list \<Rightarrow> Set \<Rightarrow> bool" where
  "doomed ks s \<longleftrightarrow> (\<forall>k \<in> set ks. \<exists>v. map_of s k = Some v \<and> IP_Deleting v)"

text \<open>What one step does to a family: the owners, the marks, the addresses to be removed.\<close>

definition set_step :: "string set \<Rightarrow> Set \<Rightarrow> Set \<Rightarrow> bool" where
  "set_step P s s' \<longleftrightarrow> evolves P s s' \<and> (clean s \<longrightarrow> clean s') \<and> (\<forall>ks. doomed ks s \<longrightarrow> doomed ks s')"

lemma set_step_refl [simp]: "set_step P s s"
  by (simp add: set_step_def evolves_def)

lemma Set_owner_map: "Set_owner s a = Option.bind (map_of s a) (\<lambda>v. if IP_InUse v then Some (IP_podID v) else None)"
  by (simp add: Set_owner_def split: option.split)

lemma Set_owner_SomeD:
  "Set_owner s a = Some p \<Longrightarrow> \<exists>v. map_of s a = Some v \<and> IP_InUse v \<and> IP_podID v = p"
  by (auto simp: Set_owner_def split: option.splits if_splits)

lemma set_stepI:
  assumes keep: "\<And>a v. map_of s a = Some v \<Longrightarrow> \<exists>v'. map_of s' a = Some v' \<and>
      (IP_Deleting v \<longrightarrow> IP_Deleting v') \<and>
      (IP_InUse v \<longrightarrow> IP_podID v' = IP_podID v \<or> IP_podID v \<in> P \<and> \<not> IP_InUse v')"
    and new: "\<And>a v'. map_of s' a = Some v' \<Longrightarrow> IP_InUse v' \<Longrightarrow> IP_Deleting v' \<Longrightarrow>
      \<exists>v. map_of s a = Some v \<and> IP_InUse v \<and> IP_Deleting v"
  shows "set_step P s s'"
  unfolding set_step_def
proof (intro conjI allI impI)
  show "evolves P s s'"
    unfolding evolves_def
  proof (intro allI impI)
    fix a p assume "Set_owner s a = Some p"
    then obtain v where v: "map_of s a = Some v" "IP_InUse v" "IP_podID v = p"
      by (blast dest: Set_owner_SomeD)
    from keep [OF v(1)] v obtain v' where "map_of s' a = Some v'"
      "IP_podID v' = p \<or> p \<in> P \<and> \<not> IP_InUse v'" by auto
    with v show "Set_owner s' a = Some p \<or> p \<in> P \<and> Set_owner s' a = None"
      by (auto simp: Set_owner_def IP_InUse_def)
  qed
  show "clean s'" if "clean s" using that new unfolding clean_def by blast
  show "doomed ks s'" if "doomed ks s" for ks
    using that keep unfolding doomed_def by blast
qed

lemma set_step_adjust:
  assumes v: "map_of s a = Some v"
    and "IP_Deleting v \<Longrightarrow> IP_Deleting (f v)"
    and "IP_InUse v \<Longrightarrow> IP_podID (f v) = IP_podID v \<or> IP_podID v \<in> P \<and> \<not> IP_InUse (f v)"
    and "IP_InUse (f v) \<Longrightarrow> IP_Deleting (f v) \<Longrightarrow> IP_InUse v \<and> IP_Deleting v"
  shows "set_step P s (gm_adjust a f s)"
proof (rule set_stepI)
  fix b u assume "map_of s b = Some u"
  then show "\<exists>v'. map_of (gm_adjust a f s) b = Some v' \<and> (IP_Deleting u \<longrightarrow> IP_Deleting v') \<and>
      (IP_InUse u \<longrightarrow> IP_podID v' = IP_podID u \<or> IP_podID u \<in> P \<and> \<not> IP_InUse v')"
    using assms by (cases "b = a") (auto simp: map_of_adjust)
next
  fix b u assume "map_of (gm_adjust a f s) b = Some u" "IP_InUse u" "IP_Deleting u"
  then show "\<exists>v. map_of s b = Some v \<and> IP_InUse v \<and> IP_Deleting v"
    using assms by (cases "b = a") (auto simp: map_of_adjust)
qed

lemma gm_adjust_absent: "map_of s a = None \<Longrightarrow> gm_adjust a f s = s"
  by (simp add: map_of_None_keys gm_adjust_notin)

lemma set_step_Allocate:
  assumes "p \<noteq> []" and v: "map_of s a = Some v" "IP_podID v = p \<or> IP_Allocatable v"
  shows "set_step P s (Set_Allocate p a s)"
  unfolding Set_Allocate_def
  by (rule set_step_adjust [OF v(1)]) (use assms in \<open>auto simp: IP_defs\<close>)

lemma set_step_Release: "set_step {p} s (gm_adjust a (IP_Release p) s)"
proof (cases "map_of s a")
  case (Some v)
  then show ?thesis by (rule set_step_adjust) (auto simp: IP_defs split: if_splits)
qed (simp add: gm_adjust_absent)

lemma Set_Release_adjust: "Set_Release p a s = gm_adjust a (IP_Release p) s"
  by (simp add: Set_Release_def gm_adjust_absent split: option.split)

text \<open>An allocation that is taken back in the same step.\<close>

lemma set_step_give_back:
  assumes "p \<noteq> []" and v: "map_of s a = Some v" "IP_podID v = p \<or> IP_Allocatable v"
  shows "set_step {p} s (gm_adjust a (IP_Release p) (Set_Allocate p a s))"
proof -
  have "gm_adjust a (IP_Release p) (Set_Allocate p a s) = gm_adjust a (\<lambda>v. IP_Release p (IP_Allocate p v)) s"
    by (simp add: Set_Allocate_def gm_adjust_def comp_def case_prod_beta if_distrib cong: if_cong)
  moreover have "set_step {p} s (gm_adjust a (\<lambda>v. IP_Release p (IP_Allocate p v)) s)"
    by (rule set_step_adjust [OF v(1)]) (use assms in \<open>auto simp: IP_defs\<close>)
  ultimately show ?thesis by simp
qed

lemma set_step_disposed: "set_disposed s s' \<Longrightarrow> set_step P s s'"
proof (rule set_stepI)
  assume d: "set_disposed s s'"
  fix a v
  { assume "map_of s a = Some v"
    with d obtain v' where "map_of s' a = Some v'" "may_dispose v v'" by (auto simp: set_disposed_def)
    then show "\<exists>v'. map_of s' a = Some v' \<and> (IP_Deleting v \<longrightarrow> IP_Deleting v') \<and>
        (IP_InUse v \<longrightarrow> IP_podID v' = IP_podID v \<or> IP_podID v \<in> P \<and> \<not> IP_InUse v')"
      by (auto simp: may_dispose_def IP_defs) }
  { assume v: "map_of s' a = Some v" "IP_InUse v" "IP_Deleting v"
    then obtain u where u: "map_of s a = Some u"
      using d by (metis map_of_None_keys not_None_eq set_disposed_def)
    with d v have "may_dispose u v" unfolding set_disposed_def by (metis option.inject)
    with v u show "\<exists>v. map_of s a = Some v \<and> IP_InUse v \<and> IP_Deleting v"
      by (auto simp: may_dispose_def IP_defs) }
qed

lemma set_step_sync: "set_ok s \<Longrightarrow> set_step P s (syncIPLocked s remote)"
  by (rule set_stepI) (auto simp: syncIPLocked_map sync_mark_def IP_defs split: if_splits)

text \<open>New addresses, none of them in the set so far.\<close>

lemma set_step_new:
  assumes "\<And>a v. map_of s a = Some v \<Longrightarrow> map_of s' a = Some v"
    and "\<And>a v. map_of s a = None \<Longrightarrow> map_of s' a = Some v \<Longrightarrow> \<not> IP_InUse v"
  shows "set_step P s s'"
proof (rule set_stepI)
  fix a v assume "map_of s' a = Some v" "IP_InUse v" "IP_Deleting v"
  then show "\<exists>v. map_of s a = Some v \<and> IP_InUse v \<and> IP_Deleting v"
    using assms(1) [of a] assms(2) [of a v] by (cases "map_of s a") auto
qed (use assms(1) in auto)

lemma fresh_ips_map: "fresh_ips n ips s \<Longrightarrow> map_of s a = Some v \<Longrightarrow> a \<notin> set ips"
  by (auto simp: fresh_ips_def dest!: map_of_SomeD)

lemma set_step_Put:
  assumes "fresh_ips n ips s"
  shows "set_step P s (Set_PutValid ips s)" "set_step P s (Set_PutDeleting ips s)"
  by (rule set_step_new;
      use fresh_ips_map [OF assms] in \<open>auto simp: map_of_PutValid map_of_PutDeleting IP_defs split: if_splits\<close>)+

lemma add_loaded_map:
  "add_loaded primary vs s = Ret s' \<Longrightarrow>
   map_of s' a = (if a \<in> set vs then Some (NewValidIP a (a = primary)) else map_of s a)"
proof (induction vs arbitrary: s)
  case (Cons v vs)
  then have "add_loaded primary vs (Set_Add (NewValidIP v (v = primary)) s) = Ret s'"
    by (simp split: if_splits)
  from Cons.IH [OF this] show ?case
    by (auto simp: Set_Add_def map_of_update NewValidIP_def)
qed simp

lemma set_step_add_loaded:
  assumes "fresh_ips n vs s" and "add_loaded primary vs s = Ret s'"
  shows "set_step P s s'"
  by (rule set_step_new)
     (use fresh_ips_map [OF assms(1)] in \<open>auto simp: add_loaded_map [OF assms(2)] IP_defs split: if_splits\<close>)

text \<open>Removing addresses that are all marked takes nothing from anyone.\<close>

lemma Delete_owner:
  assumes "clean s" and "doomed ks s"
  shows "evolves {} s (Set_Delete ks s)" and "clean (Set_Delete ks s)"
proof -
  have "a \<notin> set ks" if "Set_owner s a = Some p" for a p
    using that assms by (fastforce simp: clean_def doomed_def dest: Set_owner_SomeD)
  then show "evolves {} s (Set_Delete ks s)"
    by (auto simp: evolves_def Set_owner_def map_of_Delete)
  show "clean (Set_Delete ks s)" using assms(1) by (auto simp: clean_def map_of_Delete)
qed

subsection \<open>The invariant of the running system\<close>

fun unassigning4 :: "dispose_pc \<Rightarrow> addr list" where
  "unassigning4 (FD_Unassign4 t4 t6) = t4"
| "unassigning4 pc = []"

fun unassigning6 :: "dispose_pc \<Rightarrow> addr list" where
  "unassigning6 (FD_Unassign4 t4 t6) = t6"
| "unassigning6 (FD_Unassign6 t6) = t6"
| "unassigning6 pc = []"

definition commit_ok :: "string \<Rightarrow> addr option \<Rightarrow> bool \<Rightarrow> Set \<Rightarrow> bool" where
  "commit_ok p k live s \<longleftrightarrow> (\<forall>a. k = Some a \<longrightarrow> live \<longrightarrow> Set_owner s a = Some p)"

definition commits_ok :: "commit_job list \<Rightarrow> Local \<Rightarrow> bool" where
  "commits_ok cs l \<longleftrightarrow> (\<forall>c \<in> set cs. cj_pod c \<noteq> [] \<and>
     commit_ok (cj_pod c) (cj_k4 c) (cj_live4 c) (Local_ipv4 l) \<and>
     commit_ok (cj_pod c) (cj_k6 c) (cj_live6 c) (Local_ipv6 l))"

text \<open>The pods with an operation in progress; warming up the pool runs for no pod.\<close>

definition busy :: "lsys \<Rightarrow> string list" where
  "busy s = map cj_pod (sys_commits s) @ filter (\<lambda>p. p \<noteq> []) (map fst (sys_workers s))"

definition sys_own :: "lsys \<Rightarrow> bool" where
  "sys_own s \<longleftrightarrow>
     clean (Local_ipv4 (sys_lo s)) \<and> clean (Local_ipv6 (sys_lo s)) \<and>
     doomed (unassigning4 (sys_fd s)) (Local_ipv4 (sys_lo s)) \<and>
     doomed (unassigning6 (sys_fd s)) (Local_ipv6 (sys_lo s)) \<and>
     commits_ok (sys_commits s) (sys_lo s) \<and> distinct (busy s) \<and>
     (\<forall>(p, r) \<in> set (sys_workers s). p \<noteq> [] \<or> Req_NoCache r)"

text \<open>The pods that may lose an address in a step.\<close>

fun giving :: "label \<Rightarrow> string set" where
  "giving (LCommit p) = {p}"
| "giving (LWorker p) = {p}"
| "giving (LRelease p) = {p}"
| "giving LDeleted = UNIV"
| "giving _ = {}"

definition own_step :: "string set \<Rightarrow> Local \<Rightarrow> Local \<Rightarrow> bool" where
  "own_step P l l' \<longleftrightarrow> set_step P (Local_ipv4 l) (Local_ipv4 l') \<and> set_step P (Local_ipv6 l) (Local_ipv6 l')"

lemma own_step_same: "Local_ipv4 l' = Local_ipv4 l \<Longrightarrow> Local_ipv6 l' = Local_ipv6 l \<Longrightarrow> own_step P l l'"
  by (simp add: own_step_def)

lemma own_step_shrunk: "shrunk l l' \<Longrightarrow> own_step P l l'"
  by (simp add: own_step_same frame_simps)

lemma commit_ok_step:
  "commit_ok p k live s \<Longrightarrow> set_step P s s' \<Longrightarrow> p \<notin> P \<Longrightarrow> commit_ok p k live s'"
  by (auto simp: commit_ok_def set_step_def evolves_def)

lemma commits_ok_step:
  "commits_ok cs l \<Longrightarrow> own_step P l l' \<Longrightarrow> \<forall>c \<in> set cs. cj_pod c \<notin> P \<Longrightarrow> commits_ok cs l'"
  unfolding commits_ok_def own_step_def by (blast intro: commit_ok_step)

lemma commits_ok_orphan:
  "commits_ok cs l \<Longrightarrow> commits_ok (orphan4 ks cs) l" "commits_ok cs l \<Longrightarrow> commits_ok (orphan6 ks cs) l"
  by (auto simp: commits_ok_def commit_ok_def orphan4_def orphan6_def)

lemma busy_orphan [simp]:
  "map cj_pod (orphan4 ks cs) = map cj_pod cs" "map cj_pod (orphan6 ks cs) = map cj_pod cs"
  "map cj_pod (orphan_all cs) = map cj_pod cs"
  "cj_pod ` set (orphan4 ks cs) = cj_pod ` set cs" "cj_pod ` set (orphan6 ks cs) = cj_pod ` set cs"
  "cj_pod ` set (orphan_all cs) = cj_pod ` set cs"
  by (simp_all add: orphan4_def orphan6_def orphan_all_def comp_def image_image)

text \<open>A step that touches only the pool, with no pod of a pending commit among those giving up.\<close>

lemma sys_own_pool:
  assumes "sys_own s" and "own_step P (sys_lo s) (sys_lo s')"
    and "\<forall>c \<in> set (sys_commits s'). cj_pod c \<notin> P" and "commits_ok (sys_commits s') (sys_lo s)"
    and "distinct (busy s')" and "set (sys_workers s') \<subseteq> set (sys_workers s)"
    and "sys_fd s' = sys_fd s"
  shows "sys_own s'"
proof -
  have "commits_ok (sys_commits s') (sys_lo s')"
    using assms(4,2,3) by (rule commits_ok_step)
  then show ?thesis
    using assms(1,2,5,6,7) by (auto simp: sys_own_def own_step_def set_step_def)
qed

lemma got_own_step:
  assumes "p \<noteq> []" and "got4 o4 p l k4" and "got6 o6 p l k6"
    and "Local_ipv4 l' = (case k4 of None \<Rightarrow> Local_ipv4 l | Some a \<Rightarrow> Set_Allocate p a (Local_ipv4 l))"
    and "Local_ipv6 l' = (case k6 of None \<Rightarrow> Local_ipv6 l | Some a \<Rightarrow> Set_Allocate p a (Local_ipv6 l))"
  shows "own_step P l l' \<and> commit_ok p k4 True (Local_ipv4 l') \<and> commit_ok p k6 True (Local_ipv6 l')"
proof -
  have A: "set_step P s s' \<and> commit_ok p k True s'"
    if "k = None \<or> k = Set_PeekAvailable ord p s"
      and "s' = (case k of None \<Rightarrow> s | Some a \<Rightarrow> Set_Allocate p a s)" for k s s' ord
  proof (cases k)
    case (Some a)
    with that(1) have "Set_PeekAvailable ord p s = Some a" by simp
    from Peek_Some [OF this] obtain v where v: "map_of s a = Some v" "IP_podID v = p \<or> IP_Allocatable v"
      using assms(1) by auto
    have "Set_owner (Set_Allocate p a s) a = Some p" using v(1) assms(1) by (simp add: Set_owner_Allocate)
    then show ?thesis
      using set_step_Allocate [OF assms(1) v] that(2) Some by (simp add: commit_ok_def)
  qed (use that in \<open>simp add: commit_ok_def\<close>)
  show ?thesis
    using A [OF got4_peek(2) [OF assms(2)] assms(4)] A [OF got6_peek(2) [OF assms(3)] assms(5)]
    by (simp add: own_step_def)
qed

lemma commit_own_step:
  assumes "commit_ok p k live s" and "p \<noteq> []"
  shows "set_step {p} s (commit_set d k live p s)"
proof (cases "k = None \<or> \<not> live")
  case False
  then obtain a where k: "k = Some a" and live by auto
  with assms(1) obtain v where v: "map_of s a = Some v" "IP_podID v = p"
    by (auto simp: commit_ok_def dest: Set_owner_SomeD)
  then show ?thesis
    using set_step_Allocate [OF assms(2) v(1)] set_step_give_back [OF assms(2) v(1)] k \<open>live\<close>
    by (simp add: commit_set_def)
qed (auto simp: commit_set_def split: option.split)

lemma peek_commit_step:
  assumes "k = None \<or> k = Set_PeekAvailable ord p s" and "p \<noteq> []"
  shows "set_step {p} s (commit_set d k True p s)"
proof (cases k)
  case (Some a)
  with assms(1) have "Set_PeekAvailable ord p s = Some a" by simp
  from Peek_Some [OF this] obtain v where v: "map_of s a = Some v" "IP_podID v = p \<or> IP_Allocatable v"
    using assms(2) by auto
  then show ?thesis
    using set_step_Allocate [OF assms(2) v] set_step_give_back [OF assms(2) v] Some
    by (simp add: commit_set_def)
qed (simp add: commit_set_def)

definition owners_evolve :: "string set \<Rightarrow> Local \<Rightarrow> Local \<Rightarrow> bool" where
  "owners_evolve P l l' \<longleftrightarrow>
     evolves P (Local_ipv4 l) (Local_ipv4 l') \<and> evolves P (Local_ipv6 l) (Local_ipv6 l')"

lemma own_step_evolve: "own_step P l l' \<Longrightarrow> owners_evolve P l l'"
  by (simp add: own_step_def owners_evolve_def set_step_def)

lemma evolves_refl: "evolves P s s"
  by (simp add: evolves_def)

lemma doomed_Nil: "doomed [] s"
  by (simp add: doomed_def)

lemma commits_ok_evolve: "commits_ok cs l \<Longrightarrow> owners_evolve {} l l' \<Longrightarrow> commits_ok cs l'"
  by (auto simp: commits_ok_def commit_ok_def owners_evolve_def evolves_def)

lemma allocate_own:
  assumes "Local_Allocate now o4 o6 p (LocalReq r) (sys_lo s) = (l', ans)"
    and "p \<noteq> [] \<or> Req_NoCache r \<and> (Local_enableIPv4 (sys_lo s) \<or> Local_enableIPv6 (sys_lo s))"
    and "p \<noteq> [] \<Longrightarrow> idle_pod p s" and "sys_own s"
    and s': "s' = answered p ans (s\<lparr>sys_lo := l', sys_next := n\<rparr>)"
  shows "own_step {} (sys_lo s) (sys_lo s') \<and> sys_own s'"
  using assms(1)
proof (cases rule: Allocate_shape)
  case (refused ts)
  then have "own_step {} (sys_lo s) (sys_lo s')" by (simp add: s' own_step_shrunk)
  then show ?thesis
    using sys_own_pool [of s "{}" s'] assms(4) refused(1) by (simp add: s' sys_own_def busy_def)
next
  case (direct l1 k4 k6)
  note same = shrunk_frame(10,11) [OF direct(2)]
  have p: "p \<noteq> []"
  proof
    assume "p = []"
    with assms(2) have "Req_NoCache r" "Local_enableIPv4 (sys_lo s) \<or> Local_enableIPv6 (sys_lo s)" by simp_all
    with assms(1) direct(1) show False
      by (auto simp: Local_Allocate_def alloc_pool_def want4_def want6_def split: if_splits option.splits prod.splits)
  qed
  have sets: "Local_ipv4 l' = (case k4 of None \<Rightarrow> Local_ipv4 (sys_lo s) | Some a \<Rightarrow> Set_Allocate p a (Local_ipv4 (sys_lo s)))"
    "Local_ipv6 l' = (case k6 of None \<Rightarrow> Local_ipv6 (sys_lo s) | Some a \<Rightarrow> Set_Allocate p a (Local_ipv6 (sys_lo s)))"
    by (simp_all add: direct(3) assign4_set assign6_set same split: option.split)
  from got_own_step [OF p direct(4,5) sets, of "{}"] have own: "own_step {} (sys_lo s) l'"
    and c: "commit_ok p k4 True (Local_ipv4 l')" "commit_ok p k6 True (Local_ipv6 l')" by auto
  have "commits_ok (sys_commits s) l'"
    using assms(4) own by (auto simp: sys_own_def intro: commits_ok_step)
  with c p have "commits_ok (sys_commits s') (sys_lo s')"
    by (simp add: s' direct(1) commits_ok_def)
  moreover have "distinct (busy s')"
    using assms(3) [OF p] assms(4) by (auto simp: s' direct(1) sys_own_def busy_def idle_pod_def)
  ultimately show ?thesis
    using own assms(4) by (auto simp: s' direct(1) sys_own_def own_step_def set_step_def)
next
  case (queued r' l1 n4 n6)
  have own: "own_step {} (sys_lo s) l'"
    by (rule own_step_same) (simp_all add: queued(4) shrunk_frame [OF queued(3)])
  have "commits_ok (sys_commits s) l'"
    using assms(4) own by (auto simp: sys_own_def intro: commits_ok_step)
  moreover have "distinct (busy s')"
    using assms(3,4) by (auto simp: s' queued(2) sys_own_def busy_def idle_pod_def)
  ultimately show ?thesis
    using own assms(2,4) queued(1,2) by (auto simp: s' sys_own_def own_step_def set_step_def)
qed

lemma commit_own:
  assumes cs: "sys_commits s = xs @ c # ys" and own: "sys_own s"
    and run: "Local_commit d (cj_k4 c) (cj_live4 c) (cj_k6 c) (cj_live6 c) (cj_pod c) (sys_lo s) = Ret (l', res)"
    and s': "s' = s\<lparr>sys_lo := l', sys_commits := xs @ ys, sys_grants := g\<rparr>"
  shows "own_step {cj_pod c} (sys_lo s) (sys_lo s') \<and> sys_own s'"
proof -
  have c: "cj_pod c \<noteq> []" "commit_ok (cj_pod c) (cj_k4 c) (cj_live4 c) (Local_ipv4 (sys_lo s))"
    "commit_ok (cj_pod c) (cj_k6 c) (cj_live6 c) (Local_ipv6 (sys_lo s))"
    and rest: "commits_ok (xs @ ys) (sys_lo s)"
    using own cs by (auto simp: sys_own_def commits_ok_def)
  have st: "own_step {cj_pod c} (sys_lo s) (sys_lo s')"
    using commit_own_step [OF c(2,1)] commit_own_step [OF c(3,1)] commit_eq(1) [OF run]
    by (simp add: s' own_step_def)
  have "distinct (busy s)" using own by (simp add: sys_own_def)
  then have "distinct (busy s')" "\<forall>x \<in> set (sys_commits s'). cj_pod x \<notin> {cj_pod c}"
    by (auto simp: busy_def cs s' image_iff)
  then show ?thesis
    using sys_own_pool [OF own st] rest st by (simp add: s')
qed

lemma worker_own:
  assumes ws: "sys_workers s = xs @ (p, r) # ys" and own: "sys_own s"
    and run: "Local_allocWorker o4 o6 cd d p r (sys_lo s) = Ret (l', out)"
    and s': "s' = worker_ended p (xs @ ys) out (s\<lparr>sys_lo := l'\<rparr>)"
  shows "own_step {p} (sys_lo s) (sys_lo s') \<and> sys_own s'"
proof -
  have pr: "p \<noteq> [] \<or> Req_NoCache r" and d: "distinct (busy s)" and c: "commits_ok (sys_commits s) (sys_lo s)"
    using own ws by (auto simp: sys_own_def)
  have st: "own_step {p} (sys_lo s) l'"
    using run
  proof (cases rule: worker_shape)
    case (served k4 k6 l1 res)
    then have p: "p \<noteq> []" using pr by simp
    show ?thesis
      using peek_commit_step [OF got4_peek(2) [OF served(3)] p] peek_commit_step [OF got6_peek(2) [OF served(4)] p]
        commit_eq(1) [OF served(1)] by (simp add: own_step_def served(2))
  qed (simp_all add: own_step_same)
  have "\<forall>x \<in> set (sys_commits s). cj_pod x \<notin> {p}"
    using d c ws by (auto simp: busy_def commits_ok_def split: if_splits)
  moreover have "sys_commits s' = sys_commits s" "sys_lo s' = l'" "sys_fd s' = sys_fd s"
    "set (sys_workers s') \<subseteq> set (sys_workers s)"
    by (cases out; auto simp: s' ws)+
  moreover have "distinct (busy s')"
    using d ws by (cases out; cases "p = []") (auto simp: busy_def s')
  ultimately show ?thesis
    using sys_own_pool [OF own, of "{p}" s'] st c by simp
qed

lemma release_own:
  assumes run: "Local_Release p res (sys_lo s) = (l', ok)" and idle: "idle_pod p s" and own: "sys_own s"
  shows "own_step {p} (sys_lo s) l' \<and> sys_own (s\<lparr>sys_lo := l'\<rparr>)"
proof -
  have st: "own_step {p} (sys_lo s) l'"
    using run by (auto simp: Local_Release_def own_step_def Set_Release_adjust set_step_Release Let_def
        split: NetworkResource.splits option.splits if_splits)
  then show ?thesis
    using sys_own_pool [OF own, of "{p}" "s\<lparr>sys_lo := l'\<rparr>"] own idle
    by (auto simp: sys_own_def busy_def idle_pod_def)
qed

text \<open>The steps of the factory workers that touch only the pool.\<close>

lemma pool_own:
  assumes "own_step {} (sys_lo s) (sys_lo s')" and "sys_own s" and "sys_workers s' = sys_workers s"
    and "sys_fd s' = sys_fd s" and "commits_ok (sys_commits s') (sys_lo s)"
    and "map cj_pod (sys_commits s') = map cj_pod (sys_commits s)"
  shows "sys_own s'"
  by (rule sys_own_pool [OF assms(2,1)]) (use assms in \<open>auto simp: sys_own_def busy_def\<close>)

lemma created_own:
  assumes "fa_created now n4 n6 ans l = Ret l'" and "sets_ok l"
    and "\<And>eni v4 v6. ans = Created eni v4 v6 \<Longrightarrow> fresh_ips n4 v4 (Local_ipv4 l) \<and> fresh_ips n6 v6 (Local_ipv6 l)"
  shows "own_step P l l'"
  using assms(1)
proof (cases rule: fa_created_shape)
  case (created eni v4 v6 s4)
  have f: "fresh_ips n4 v4 (Local_ipv4 l)" "fresh_ips n6 v6 (Local_ipv6 l)"
    using assms(3) [OF created(1)] by auto
  have "set_step P (Local_ipv4 l) s4"
    using created(3) set_step_add_loaded [OF f(1)] by auto
  then show ?thesis
    using set_step_Put(1) [OF f(2)] by (simp add: created(2) own_step_def)
qed (simp_all add: own_step_def)

lemma assigned_own:
  "fa_assigned4 now i n6 ans l = (l', pc) \<Longrightarrow> fresh_ips n (answer_ips ans) (Local_ipv4 l) \<Longrightarrow> own_step P l l'"
  "fa_assigned6 now ans l = (l', pc) \<Longrightarrow> fresh_ips n (answer_ips ans) (Local_ipv6 l) \<Longrightarrow> own_step P l l'"
  by (auto simp: fa_assigned4_def fa_assigned6_def errorHandle_eq own_step_def set_step_Put Let_def
      split: assign_answer.splits)

lemma Deleting_doomed:
  assumes "set_ok s" and "range_order ord"
  shows "doomed (batch n (Set_Deleting ord s)) s"
proof -
  have "set (batch n (Set_Deleting ord s)) \<subseteq> set (Set_Deleting ord s)"
    by (auto simp: batch_def dest: in_set_takeD)
  then show ?thesis
    using Set_Deleting_sound [OF assms] by (auto simp: doomed_def)
qed

lemma fd_head_doomed:
  assumes "fd_head o4 o6 l = (l', pc)" and "sets_ok l" and "range_order o4" and "range_order o6"
  shows "doomed (unassigning4 pc) (Local_ipv4 l') \<and> doomed (unassigning6 pc) (Local_ipv6 l')"
proof -
  have d: "doomed (batch (Local_batchSize l) (Set_Deleting o4 (Local_ipv4 l))) (Local_ipv4 l)"
    "doomed (batch (Local_batchSize l) (Set_Deleting o6 (Local_ipv6 l))) (Local_ipv6 l)"
    using assms(2-4) by (auto simp: sets_ok_def intro: Deleting_doomed)
  have e: "doomed [] s" for s by (simp add: doomed_def)
  show ?thesis
    using assms(1) d by (auto simp: fd_head_def e Let_def split: if_splits prod.splits)
qed

lemma lstep_own:
  assumes "lstep True s lab (Ret s')" and wf: "sys_wf s" and own: "sys_own s"
  shows "sys_own s' \<and> owners_evolve (giving lab) (sys_lo s) (sys_lo s')"
  using assms(1)
proof cases
  case (allocate now o4 o6 p r l' ans)
  show ?thesis
    using allocate_own [OF allocate(3,5) allocate(6) own allocate(2)] own_step_evolve allocate(1) by simp
next
  case (commit xs c ys d l' res)
  show ?thesis
    using commit_own [OF commit(3) own commit(4) commit(2)] own_step_evolve commit(1) by simp
next
  case (worker xs p r ys o4 o6 cd d l' out)
  show ?thesis
    using worker_own [OF worker(3) own worker(6) worker(2)] own_step_evolve worker(1) by simp
next
  case (release p res l' ok)
  show ?thesis
    using release_own [OF release(3) release(5) own] own_step_evolve release(1,2) by simp
next
  case (dispose ords4 ords6 n l' m)
  have st: "own_step {} (sys_lo s) (sys_lo s')"
    using Dispose_sets [OF dispose(3)] set_step_disposed dispose(2) by (simp add: own_step_def)
  then show ?thesis
    using pool_own [OF st own] own own_step_evolve dispose(1,2) by (simp add: sys_own_def)
next
  case (sync L)
  have st: "own_step {} (sys_lo s) (sys_lo s')"
    using wf sync(2)
    by (auto simp: own_step_def Local_sync_def sys_wf_def sets_ok_def set_step_sync split: option.split sum.split)
  then show ?thesis
    using pool_own [OF st own] own own_step_evolve sync(1,2) by (simp add: sys_own_def)
next
  case (fa_head now l' pc)
  have st: "own_step {} (sys_lo s) (sys_lo s')"
    using fa_head_shrunk [OF fa_head(4)] own_step_shrunk fa_head(2) by simp
  then show ?thesis
    using pool_own [OF st own] own own_step_evolve fa_head(1,2) by (simp add: sys_own_def)
next
  case (fa_wake l' pc)
  have st: "own_step {} (sys_lo s) (sys_lo s')"
    using fa_wake_wf [OF fa_wake(4)] fa_wake(2) by (simp add: own_step_same)
  then show ?thesis
    using pool_own [OF st own] own own_step_evolve fa_wake(1,2) by (simp add: sys_own_def)
next
  case (fa_created n4 n6 now ans l')
  have st: "own_step {} (sys_lo s) (sys_lo s')"
    using created_own [OF fa_created(4)] wf fa_created(2,5) by (simp add: sys_wf_def)
  have "commits_ok (sys_commits s') (sys_lo s)" "map cj_pod (sys_commits s') = map cj_pod (sys_commits s)"
    using own fa_created(2) by (auto simp: sys_own_def commits_ok_orphan split: create_answer.split)
  then show ?thesis
    using pool_own [OF st own] own_step_evolve [OF st] fa_created(1,2) by simp
next
  case (fa_limited i n4 n6)
  then show ?thesis using own by (simp add: sys_own_def busy_def owners_evolve_def evolves_def)
next
  case (fa_call4 i n4 n6 mac)
  then show ?thesis using own by (simp add: sys_own_def busy_def owners_evolve_def evolves_def)
next
  case (fa_call6 i n6 mac)
  then show ?thesis using own by (simp add: sys_own_def busy_def owners_evolve_def evolves_def)
next
  case (fa_assigned4 i n4 n6 now ans l' pc)
  have st: "own_step {} (sys_lo s) (sys_lo s')"
    using assigned_own(1) [OF fa_assigned4(4) fa_assigned4(5)] fa_assigned4(2) by simp
  then show ?thesis
    using pool_own [OF st own] own own_step_evolve [OF st] fa_assigned4(1,2)
    by (simp add: sys_own_def commits_ok_orphan)
next
  case (fa_assigned6 i n6 now ans l' pc)
  have st: "own_step {} (sys_lo s) (sys_lo s')"
    using assigned_own(2) [OF fa_assigned6(4) fa_assigned6(5)] fa_assigned6(2) by simp
  then show ?thesis
    using pool_own [OF st own] own own_step_evolve [OF st] fa_assigned6(1,2)
    by (simp add: sys_own_def commits_ok_orphan)
next
  case (fd_head o4 o6 l' pc)
  note sh = fd_head_shrunk [OF fd_head(4)]
  have "doomed (unassigning4 pc) (Local_ipv4 l') \<and> doomed (unassigning6 pc) (Local_ipv6 l')"
    using fd_head_doomed [OF fd_head(4) _ fd_head(5,6)] wf by (simp add: sys_wf_def)
  then show ?thesis
    using own own_step_evolve [OF own_step_shrunk [OF sh]] fd_head(1,2) shrunk_frame(10,11) [OF sh]
    by (simp add: sys_own_def busy_def commits_ok_def)
next
  case (fd_deleted ok)
  have "clean []" "doomed [] x" for x by (simp_all add: clean_def doomed_def)
  moreover have "commits_ok (orphan_all cs) l" if "commits_ok cs l'" for cs l l'
    using that by (auto simp: commits_ok_def orphan_all_def commit_ok_def)
  moreover have "Set_owner [] a = None" for a by (simp add: Set_owner_def)
  ultimately show ?thesis
    using own fd_deleted
    by (cases ok) (auto simp: sys_own_def busy_def fd_deleted_def owners_evolve_def evolves_def)
next
  case (fd_unassigned4 t4 t6 ok l' pc)
  have "clean (Local_ipv4 (sys_lo s))" "doomed t4 (Local_ipv4 (sys_lo s))"
    using own fd_unassigned4(3) by (simp_all add: sys_own_def)
  note del = Delete_owner [OF this]
  have ev: "owners_evolve {} (sys_lo s) (sys_lo s')"
    using del(1) fd_unassigned4(2,4)
    by (auto simp: fd_unassigned4_def owners_evolve_def evolves_refl split: if_splits)
  show ?thesis
    using own ev commits_ok_evolve [OF _ ev, of "sys_commits s"] del(2) fd_unassigned4
    by (auto simp: sys_own_def busy_def fd_unassigned4_def commits_ok_orphan doomed_Nil split: if_splits)
next
  case (fd_unassigned6 t6 ok)
  have "clean (Local_ipv6 (sys_lo s))" "doomed t6 (Local_ipv6 (sys_lo s))"
    using own fd_unassigned6(3) by (simp_all add: sys_own_def)
  note del = Delete_owner [OF this]
  have ev: "owners_evolve {} (sys_lo s) (sys_lo s')"
    using del(1) fd_unassigned6(2) by (simp add: fd_unassigned6_def owners_evolve_def evolves_refl)
  show ?thesis
    using own ev commits_ok_evolve [OF _ ev, of "sys_commits s"] del(2) fd_unassigned6
    by (auto simp: sys_own_def busy_def fd_unassigned6_def commits_ok_orphan doomed_Nil split: if_splits)
qed

lemma lreach_own:
  assumes "lreach True l s" and "start_ok l"
  shows "sys_own s"
  using assms
proof (induction rule: lreach.induct)
  case start
  then show ?case by (auto simp: sys_own_def sys_init_def start_ok_def doomed_Nil commits_ok_def busy_def)
next
  case (step s lab s')
  then show ?case using lstep_own [OF step.hyps(2) lreach_wf [OF step.hyps(1)]] by simp
qed


lemma wit_start: "start_ok wit_local"
  by (auto simp: start_ok_def wit_local_def NewLocal_def set_ok_Allocate set_ok_PutValid clean_def
      map_of_Allocate map_of_PutValid IP_defs split: if_splits)


end
