(* ===== verification/LocalRaces.thy ===== *)
theory LocalRaces
  imports LocalSystem
begin

section \<open>Two races of the local ENI\<close>

text \<open>
  Runs of the step relation that end badly although the surroundings behave (one operation per pod,
  a cloud that keeps its promises). Both come from \<^verbatim>\<open>canDispose\<close> (\<^verbatim>\<open>pkg/eni/local.go\<close>): it asks for
  addresses in use and for jobs in the allocating lists, but not for the jobs in the danging lists,
  whose addresses have arrived and are not yet taken, nor for an assign call that is under way.
\<close>

inductive lruns :: "bool \<Rightarrow> lsys \<Rightarrow> label list \<Rightarrow> lsys \<Rightarrow> bool" for wb :: bool where
  nil: "lruns wb s [] s"
| cons: "lstep wb s lab (Ret s') \<Longrightarrow> lruns wb s' labs s'' \<Longrightarrow> lruns wb s (lab # labs) s''"

definition race_start :: Local where
  "race_start =
     (NewLocal (Some wit_eni) ''secondary''
        \<lparr>Pool_BatchSize = 10, Pool_MaxIPPerENI = 3, Pool_EnableIPv4 = True, Pool_EnableIPv6 = False\<rparr>)
     \<lparr>Local_status := statusInUse\<rparr>"

definition race_req :: LocalIPRequest where
  "race_req = wit_req 0"

text \<open>The steps both runs begin with: a request is queued, the factory worker is about to call.\<close>

definition race_queued :: lsys where
  "race_queued = (sys_init race_start)
     \<lparr>sys_lo := race_start\<lparr>Local_allocatingV4 := [race_req]\<rparr>, sys_next := 1, sys_workers := [(''b'', race_req)],
      sys_fa := FA_Assign4 ''eni-1'' 1 0\<rparr>"

lemmas race_defs = race_queued_def race_start_def race_req_def sys_init_def NewLocal_def wit_eni_def wit_req_def

lemma race_begin: "lruns True s labs t \<Longrightarrow> s = race_queued \<Longrightarrow>
  lruns True (sys_init race_start) (LAllocate ''b'' # LFactory # LFactory # labs) t"
proof -
  assume rest: "lruns True s labs t" and s: "s = race_queued"
  let ?s0 = "sys_init race_start"
  let ?l1 = "race_start\<lparr>Local_allocatingV4 := [race_req]\<rparr>"
  let ?s1 = "?s0\<lparr>sys_lo := ?l1, sys_next := 1, sys_workers := [(''b'', race_req)]\<rparr>"
  let ?s2 = "?s1\<lparr>sys_fa := FA_Sleep\<rparr>"
  have a: "Local_Allocate 0 id id ''b'' (LocalReq race_req) (sys_lo ?s0) = (?l1, Queued race_req)"
    by code_simp
  have "lstep True ?s0 (LAllocate ''b'')
      (Ret (answered ''b'' (Queued race_req) (?s0\<lparr>sys_lo := ?l1, sys_next := Suc (sys_next ?s0)\<rparr>)))"
    by (rule lstep.allocate [OF a])
       (simp_all add: race_req_def wit_req_def sys_init_def idle_pod_def range_order_def)
  then have 1: "lstep True ?s0 (LAllocate ''b'') (Ret ?s1)" by (simp add: sys_init_def)
  have h: "fa_head 0 (sys_lo ?s1) = (?l1, FA_Sleep)" by code_simp
  have 2: "lstep True ?s1 LFactory (Ret ?s2)"
    using lstep.fa_head [of ?s1 0 ?l1 FA_Sleep True] h by (simp add: sys_init_def)
  have w: "fa_wake (sys_lo ?s2) = (?l1, FA_Assign4 ''eni-1'' 1 0)" by code_simp
  have 3: "lstep True ?s2 LFactory (Ret race_queued)"
    using lstep.fa_wake [of ?s2 ?l1 "FA_Assign4 ''eni-1'' 1 0" True] w by (simp add: race_queued_def sys_init_def)
  show ?thesis using lruns.cons [OF 1 lruns.cons [OF 2 lruns.cons [OF 3 rest[unfolded s]]]] .
qed

text \<open>
  C3: a pod can be left with an address of an ENI that is gone. There is a run in which pod \<open>b\<close> is
  handed an address of the ENI and releases nothing, while the ENI is disposed of and deleted
  behind its back: its address had arrived and its job had left the allocating list, so
  \<^verbatim>\<open>canDispose\<close> saw neither an address in use nor a job, before the pod's worker took the address.
\<close>

theorem deleted_under_pod:
  "\<exists>labs s res. lruns True (sys_init race_start) labs s \<and> (''b'', res) \<in> set (sys_grants s) \<and>
     Res_IPv4 res = Addr4 7 \<and> ENI_ID (Res_ENI res) = ''eni-1'' \<and>
     LRelease ''b'' \<notin> set labs \<and> Local_eni (sys_lo s) = None \<and> Local_ipv4 (sys_lo s) = []"
proof -
  let ?ip = "\<lparr>IP_ip = Addr4 7, IP_primary = False, IP_podID = [], IP_status = ipStatusValid\<rparr>"
  let ?s4 = "race_queued\<lparr>sys_fa := FA_Assigning4 ''eni-1'' 1 0\<rparr>"
  let ?l5 = "race_start\<lparr>Local_dangingV4 := [race_req], Local_ipv4 := [(Addr4 7, ?ip)]\<rparr>"
  let ?s5 = "race_queued\<lparr>sys_fa := FA_Head, sys_lo := ?l5\<rparr>"
  let ?l6 = "?l5\<lparr>Local_status := statusDeleting\<rparr>"
  let ?s7 = "?s5\<lparr>sys_lo := ?l6, sys_fd := FD_Delete\<rparr>"
  let ?res = "\<lparr>Res_PodID = [], Res_ENI = wit_eni, Res_IPv4 = Addr4 7, Res_IPv6 = NoAddr\<rparr>"
  let ?l8 = "?l6\<lparr>Local_ipv4 := [(Addr4 7, ?ip\<lparr>IP_podID := ''b''\<rparr>)], Local_cancelled := [0]\<rparr>"
  let ?s8 = "?s7\<lparr>sys_lo := ?l8, sys_workers := [], sys_grants := [(''b'', ?res)]\<rparr>"
  let ?s9 = "?s8\<lparr>sys_lo := fd_deleted True ?l8, sys_fd := FD_Head\<rparr>"
  have "fa_call_mac (sys_lo race_queued) = Ret ''m''" by code_simp
  then have 4: "lstep True race_queued LFactory (Ret ?s4)"
    by (intro lstep.fa_call4) (simp_all add: race_queued_def)
  have "fa_assigned4 0 ''eni-1'' 0 (Assigned [Addr4 7]) (sys_lo ?s4) = (?l5, FA_Head)" by code_simp
  then have "lstep True ?s4 LFactory (Ret (?s4\<lparr>sys_lo := ?l5, sys_fa := FA_Head,
      sys_commits := orphan4 (answer_ips (Assigned [Addr4 7])) (sys_commits ?s4),
      sys_stray4 := sys_stray4 ?s4 + stray (Assigned [Addr4 7]) (sys_lo ?s4)\<rparr>))"
    by (rule lstep.fa_assigned4 [rotated]) (simp_all add: race_defs fresh_ips_def)
  then have 5: "lstep True ?s4 LFactory (Ret ?s5)"
    by (simp add: race_defs orphan4_def stray_def)
  have "Local_Dispose (\<lambda>_. id) (\<lambda>_. id) 5 (sys_lo ?s5) = (?l6, 1)" by code_simp
  from lstep.dispose [OF this] have 6: "lstep True ?s5 LDispose (Ret (?s5\<lparr>sys_lo := ?l6\<rparr>))" by simp
  have "fd_head id id (sys_lo (?s5\<lparr>sys_lo := ?l6\<rparr>)) = (?l6, FD_Delete)" by code_simp
  from lstep.fd_head [OF _ this] have 7: "lstep True (?s5\<lparr>sys_lo := ?l6\<rparr>) LUnassign (Ret ?s7)"
    by (simp add: race_defs range_order_def)
  have "Local_allocWorker id id False True ''b'' race_req (sys_lo ?s7) = Ret (?l8, WAnswer ?res)" by code_simp
  from lstep.worker [OF _ _ _ this, of "[]" "[]"] have 8: "lstep True ?s7 (LWorker ''b'') (Ret ?s8)"
    by (simp add: race_defs range_order_def)
  from lstep.fd_deleted [of ?s8 True True] have 9: "lstep True ?s8 LDeleted (Ret ?s9)"
    by (simp add: race_defs orphan_all_def)
  have "lruns True (sys_init race_start)
      [LAllocate ''b'', LFactory, LFactory, LFactory, LFactory, LDispose, LUnassign, LWorker ''b'', LDeleted] ?s9"
    by (rule race_begin [OF _ refl]) (intro lruns.cons [OF 4] lruns.cons [OF 5] lruns.cons [OF 6] lruns.cons [OF 7]
        lruns.cons [OF 8] lruns.cons [OF 9] lruns.nil)
  moreover have "(''b'', ?res) \<in> set (sys_grants ?s9)" "Local_eni (sys_lo ?s9) = None" "Local_ipv4 (sys_lo ?s9) = []"
    by (simp_all add: fd_deleted_def)
  ultimately show ?thesis
    by (intro exI [of _ "[LAllocate ''b'', LFactory, LFactory, LFactory, LFactory, LDispose, LUnassign, LWorker ''b'', LDeleted]"]
        exI [of _ ?s9] exI [of _ ?res]) (simp add: wit_eni_def)
qed

text \<open>
  C4: the daemon can crash on a nil ENI. There is a run after which the factory worker, back from the
  rate limiter, dereferences \<^verbatim>\<open>l.eni\<close> without the lock and panics: the request it works for was
  cancelled meanwhile, so nothing kept the ENI from being disposed of and deleted.
\<close>

theorem assign_panics:
  "\<exists>labs s. lruns True (sys_init race_start) labs s \<and> lstep True s LFactory Panic"
proof -
  let ?l4 = "race_start\<lparr>Local_cancelled := [0]\<rparr>"
  let ?s4 = "race_queued\<lparr>sys_lo := ?l4, sys_workers := []\<rparr>"
  let ?l5 = "?l4\<lparr>Local_status := statusDeleting\<rparr>"
  let ?s5 = "?s4\<lparr>sys_lo := ?l5\<rparr>"
  let ?s6 = "?s5\<lparr>sys_fd := FD_Delete\<rparr>"
  let ?s7 = "?s6\<lparr>sys_lo := fd_deleted True ?l5, sys_fd := FD_Head\<rparr>"
  have "Local_allocWorker id id True False ''b'' race_req (sys_lo race_queued) = Ret (?l4, WClosed)" by code_simp
  from lstep.worker [OF _ _ _ this, of "[]" "[]"] have 4: "lstep True race_queued (LWorker ''b'') (Ret ?s4)"
    by (simp add: race_defs range_order_def)
  have "Local_Dispose (\<lambda>_. id) (\<lambda>_. id) 5 (sys_lo ?s4) = (?l5, 0)" by code_simp
  from lstep.dispose [OF this] have 5: "lstep True ?s4 LDispose (Ret ?s5)" by simp
  have "fd_head id id (sys_lo ?s5) = (?l5, FD_Delete)" by code_simp
  from lstep.fd_head [OF _ this] have 6: "lstep True ?s5 LUnassign (Ret ?s6)"
    by (simp add: race_defs range_order_def)
  from lstep.fd_deleted [of ?s6 True True] have 7: "lstep True ?s6 LDeleted (Ret ?s7)"
    by (simp add: race_defs orphan_all_def)
  have "fa_call_mac (sys_lo ?s7) = Panic" by (simp add: fa_call_mac_def fd_deleted_def)
  then have 8: "lstep True ?s7 LFactory Panic"
    by (rule lstep.fa_call4_panic [rotated]) (simp add: race_queued_def)
  have "lruns True (sys_init race_start)
      [LAllocate ''b'', LFactory, LFactory, LWorker ''b'', LDispose, LUnassign, LDeleted] ?s7"
    by (rule race_begin [OF _ refl])
       (intro lruns.cons [OF 4] lruns.cons [OF 5] lruns.cons [OF 6] lruns.cons [OF 7] lruns.nil)
  with 8 show ?thesis by blast
qed

end
