(* ===== verification/NodeTypes.thy ===== *)
theory NodeTypes
  imports NetAddr
begin

section \<open>The Node resource (pkg/apis/network.alibabacloud.com/v1beta1/node_types.go)\<close>

text \<open>
  The custom resource in which the node controller and the daemon record the network interfaces of
  a node. The enumerations are those the API server enforces; a traffic mode may also be unset.
  Maps keep their entries as association lists, pointers that may be nil are options. The address
  maps of an interface are options as well: the controller tells a nil map from an empty one
  (\<open>ips\<close> is what a read sees of either). The addresses and interfaces in a map are never nil.
\<close>

datatype NetworkInterfaceTrafficMode =
    NetworkInterfaceTrafficModeUnset
  | NetworkInterfaceTrafficModeStandard
  | NetworkInterfaceTrafficModeHighPerformance

datatype IPStatus = IPStatusValid | IPStatusInvalid | IPStatusDeleting

datatype SelectionPolicy =
    VSwitchSelectionPolicyOrdered | VSwitchSelectionPolicyRandom | VSwitchSelectionPolicyMost

datatype IPPrefixStatus =
    IPPrefixStatusValid | IPPrefixStatusFrozen | IPPrefixStatusInvalid | IPPrefixStatusDeleting

datatype ENIType = ENITypeSecondary | ENITypeTrunk | ENITypeMember | ENITypePrimary

record NodeCap =
  Cap_Adapters :: int
  Cap_EriQuantity :: int
  Cap_TotalAdapters :: int
  Cap_IPv4PerAdapter :: int
  Cap_IPv6PerAdapter :: int
  Cap_MemberAdapterLimit :: int
  Cap_NetworkCardsCount :: "int option"

record ENISpec =
  ES_Tag :: "(string, string) gomap"
  ES_TagFilter :: "(string, string) gomap"
  ES_TagBlockList :: "(string \<times> string) list"
  ES_VSwitchOptions :: "string list"
  ES_SecurityGroupIDs :: "string list"
  ES_ResourceGroupID :: string
  ES_EnableIPv4 :: bool
  ES_EnableIPv6 :: bool
  ES_EnableERDMA :: bool
  ES_EnableTrunk :: bool
  ES_VSwitchSelectPolicy :: SelectionPolicy
  ES_EnableIPPrefix :: bool
  ES_IPv4PrefixCount :: int
  ES_IPv6PrefixCount :: int

record IPReclaimPolicy =
  RP_After :: "duration option"
  RP_Interval :: "duration option"
  RP_BatchSize :: int
  RP_JitterFactor :: string

record PoolSpec =
  PS_MaxPoolSize :: int
  PS_MinPoolSize :: int
  PS_PoolSyncPeriod :: string
  PS_Reclaim :: "IPReclaimPolicy option"
  PS_WarmUpSize :: int

record Flavor =
  Fl_NetworkInterfaceType :: ENIType
  Fl_NetworkInterfaceTrafficMode :: NetworkInterfaceTrafficMode
  Fl_Count :: int

record NodeMetadata =
  NM_RegionID :: string
  NM_InstanceType :: string
  NM_InstanceID :: string
  NM_ZoneID :: string

record NodeSpec =
  NS_NodeMetadata :: NodeMetadata
  NS_NodeCap :: NodeCap
  NS_ENISpec :: "ENISpec option"
  NS_Pool :: "PoolSpec option"
  NS_Flavor :: "Flavor list"

record NodeIP =
  NIP_IP :: string
  NIP_Primary :: bool
  NIP_Status :: IPStatus
  NIP_PodID :: string
  NIP_PodUID :: string
  NIP_IPName :: string

type_synonym IPMap = "(string, NodeIP) gomap"

definition ips :: "IPMap option \<Rightarrow> IPMap" where
  "ips m = (case m of None \<Rightarrow> [] | Some x \<Rightarrow> x)"

lemma ips_simps [simp]: "ips None = []" "ips (Some m) = m"
  by (simp_all add: ips_def)

record IPPrefix =
  PX_Prefix :: string
  PX_Status :: IPPrefixStatus
  PX_FrozenExpireAt :: time

record Condition =
  Cond_ObservedTime :: time
  Cond_Message :: string

record Nic =
  Nic_ID :: string
  Nic_Status :: string
  Nic_MacAddress :: string
  Nic_VSwitchID :: string
  Nic_SecurityGroupIDs :: "string list"
  Nic_PrimaryIPAddress :: string
  Nic_NetworkInterfaceTrafficMode :: NetworkInterfaceTrafficMode
  Nic_NetworkInterfaceType :: ENIType
  Nic_Unschedulable :: bool
  Nic_IPv4 :: "IPMap option"
  Nic_IPv6 :: "IPMap option"
  Nic_IPv4Prefix :: "IPPrefix list"
  Nic_IPv6Prefix :: "IPPrefix list"
  Nic_IPv4CIDR :: string
  Nic_IPv6CIDR :: string
  Nic_Conditions :: "(string, Condition) gomap"

record NodeStatus =
  St_NextSyncOpenAPITime :: time
  St_LastSyncOpenAPITime :: time
  St_LastModifiedTime :: time
  St_NextIdleIPReclaimTime :: time
  St_NetworkInterfaces :: "(string, Nic) gomap"
  St_WarmUpTarget :: int
  St_WarmUpAllocatedCount :: int
  St_WarmUpCompleted :: bool

record Node =
  Node_Name :: string
  Node_Labels :: "(string, string) gomap"
  Node_Annotations :: "(string, string) gomap"
  Node_DeletionTimestamp :: time
  Node_Finalizers :: "string list"
  Node_Spec :: NodeSpec
  Node_Status :: NodeStatus

subsection \<open>Zero values\<close>

text \<open>The values of the structs with no field set; an unset enumeration takes its first value.\<close>

definition zero_ENISpec :: ENISpec where
  "zero_ENISpec =
     \<lparr>ES_Tag = [], ES_TagFilter = [], ES_TagBlockList = [], ES_VSwitchOptions = [], ES_SecurityGroupIDs = [],
      ES_ResourceGroupID = [], ES_EnableIPv4 = False, ES_EnableIPv6 = False, ES_EnableERDMA = False, ES_EnableTrunk = False,
      ES_VSwitchSelectPolicy = VSwitchSelectionPolicyOrdered, ES_EnableIPPrefix = False, ES_IPv4PrefixCount = 0,
      ES_IPv6PrefixCount = 0\<rparr>"

definition zero_NodeSpec :: NodeSpec where
  "zero_NodeSpec =
     \<lparr>NS_NodeMetadata = \<lparr>NM_RegionID = [], NM_InstanceType = [], NM_InstanceID = [], NM_ZoneID = []\<rparr>,
      NS_NodeCap = \<lparr>Cap_Adapters = 0, Cap_EriQuantity = 0, Cap_TotalAdapters = 0, Cap_IPv4PerAdapter = 0,
                    Cap_IPv6PerAdapter = 0, Cap_MemberAdapterLimit = 0, Cap_NetworkCardsCount = None\<rparr>,
      NS_ENISpec = None, NS_Pool = None, NS_Flavor = []\<rparr>"

definition zero_Nic :: Nic where
  "zero_Nic =
     \<lparr>Nic_ID = [], Nic_Status = [], Nic_MacAddress = [], Nic_VSwitchID = [], Nic_SecurityGroupIDs = [],
      Nic_PrimaryIPAddress = [], Nic_NetworkInterfaceTrafficMode = NetworkInterfaceTrafficModeUnset,
      Nic_NetworkInterfaceType = ENITypeSecondary, Nic_Unschedulable = False, Nic_IPv4 = None, Nic_IPv6 = None,
      Nic_IPv4Prefix = [], Nic_IPv6Prefix = [], Nic_IPv4CIDR = [], Nic_IPv6CIDR = [], Nic_Conditions = []\<rparr>"

definition zero_NodeStatus :: NodeStatus where
  "zero_NodeStatus =
     \<lparr>St_NextSyncOpenAPITime = 0, St_LastSyncOpenAPITime = 0, St_LastModifiedTime = 0, St_NextIdleIPReclaimTime = 0,
      St_NetworkInterfaces = [], St_WarmUpTarget = 0, St_WarmUpAllocatedCount = 0, St_WarmUpCompleted = False\<rparr>"

definition zero_Node :: Node where
  "zero_Node =
     \<lparr>Node_Name = [], Node_Labels = [], Node_Annotations = [], Node_DeletionTimestamp = 0, Node_Finalizers = [],
      Node_Spec = zero_NodeSpec, Node_Status = zero_NodeStatus\<rparr>"

end
