(* ===== verification/PrefixIPAM.thy ===== *)
theory PrefixIPAM
  imports NodeTypes NetTypes IPAllocator "HOL-Library.Product_Lexorder"
begin

section \<open>Addresses from prefixes (pkg/eni/eni_local_ipam.go)\<close>

text \<open>
  The daemon's own allocator in prefix mode: every prefix of an ENI has a bitmap of its offsets and
  a map from pods to offsets; a second map leads from a pod to its prefix.

  The bitmap is the package \<^verbatim>\<open>bits-and-blooms/bitset\<close>, which is not part of this code: its operations
  are a parameter \<open>bs\<close>, and \<open>bitset_laws\<close> states what its documentation promises of them. The
  IPv4 and the IPv6 operations of the source are the same text over different maps; the model has
  that text once, over a pair of maps, and the operations of the source as its two uses.
\<close>

subsection \<open>The bitmap package\<close>

record 'b bitset =
  bs_New :: "nat \<Rightarrow> 'b"
  bs_Len :: "'b \<Rightarrow> nat"
  bs_Test :: "'b \<Rightarrow> nat \<Rightarrow> bool"
  bs_Set :: "nat \<Rightarrow> 'b \<Rightarrow> 'b"
  bs_Clear :: "nat \<Rightarrow> 'b \<Rightarrow> 'b"
  bs_NextClear :: "'b \<Rightarrow> nat \<Rightarrow> nat option"

definition bitset_laws :: "'b bitset \<Rightarrow> bool" where
  "bitset_laws bs \<longleftrightarrow>
     (\<forall>n. bs_Len bs (bs_New bs n) = n) \<and>
     (\<forall>n i. \<not> bs_Test bs (bs_New bs n) i) \<and>
     (\<forall>b i. i < bs_Len bs b \<longrightarrow> bs_Len bs (bs_Set bs i b) = bs_Len bs b) \<and>
     (\<forall>b i j. i < bs_Len bs b \<longrightarrow> bs_Test bs (bs_Set bs i b) j = (j = i \<or> bs_Test bs b j)) \<and>
     (\<forall>b i. bs_Len bs (bs_Clear bs i b) = bs_Len bs b) \<and>
     (\<forall>b i j. bs_Test bs (bs_Clear bs i b) j = (j \<noteq> i \<and> bs_Test bs b j)) \<and>
     (\<forall>b i j. bs_NextClear bs b i = Some j \<longrightarrow> i \<le> j \<and> \<not> bs_Test bs b j) \<and>
     (\<forall>b i. bs_NextClear bs b i = None \<longrightarrow> (\<forall>j. i \<le> j \<longrightarrow> j < bs_Len bs b \<longrightarrow> bs_Test bs b j)) \<and>
     (\<forall>b i j k. bs_NextClear bs b i = Some j \<longrightarrow> i \<le> k \<longrightarrow> k < j \<longrightarrow> bs_Test bs b k)"

subsection \<open>State\<close>

record 'b PrefixInfo =
  PI_Prefix :: string
  PI_bitmap :: 'b
  PI_allocated :: "(string, nat) gomap"
  PI_status :: IPPrefixStatus

text \<open>\<^verbatim>\<open>prefixMap\<close> and \<^verbatim>\<open>podToPrefix\<close> of one address family.\<close>

type_synonym 'b prefixMap = "(string, 'b PrefixInfo) gomap"
type_synonym 'b fam = "'b prefixMap \<times> (string, string) gomap"

record 'b ENILocalIPAM =
  IPAM_eniID :: string
  IPAM_eniMAC :: string
  IPAM_gatewayIP :: IPSet
  IPAM_vSwitchCIDR :: IPNetSet
  IPAM_vSwitchID :: string
  IPAM_trafficMode :: NetworkInterfaceTrafficMode
  IPAM_enableERDMA :: bool
  IPAM_unschedulable :: bool
  IPAM_v4 :: "'b fam"
  IPAM_v6 :: "'b fam"

subsection \<open>Prefixes and offsets\<close>

definition IPv6PrefixMaxAddresses :: nat where
  "IPv6PrefixMaxAddresses = 65536"

definition prefixSize :: "string \<Rightarrow> nat" where
  "prefixSize cidr =
     (case ParseCIDR cidr of
        None \<Rightarrow> 0
      | Some ipNet \<Rightarrow>
          if net_ones ipNet \<ge> net_bits ipNet then 1
          else let hostBits = net_bits ipNet - net_ones ipNet in
               if net_bits ipNet = 128 \<and> hostBits > 16 then IPv6PrefixMaxAddresses
               else 2 ^ hostBits)"

text \<open>
  The bytes of the network, four where \<^verbatim>\<open>To4\<close> finds an IPv4 network, plus the offset, cut to their
  length: arithmetic on words of that width.
\<close>

definition calculateIP :: "string \<Rightarrow> nat \<Rightarrow> addr option" where
  "calculateIP cidr offset =
     (case ParseCIDR cidr of
        None \<Rightarrow> None
      | Some ipNet \<Rightarrow>
          Some (if net_To4 ipNet then Addr4 (word_of_int (net_addr ipNet + int offset))
                else Addr6 (word_of_int (net_addr ipNet + int offset))))"

text \<open>An address and a network as \<^verbatim>\<open>Contains\<close> compares them: four bytes wherever \<^verbatim>\<open>To4\<close> gives them.\<close>

definition addr_norm :: "addr \<Rightarrow> nat \<times> int" where
  "addr_norm a =
     (case a of
        NoAddr \<Rightarrow> (0, 0)
      | Addr4 w \<Rightarrow> (32, uint w)
      | Addr6 w \<Rightarrow> if uint w div 2 ^ 32 = 65535 then (32, uint w mod 2 ^ 32) else (128, uint w))"

definition net_norm :: "IPNet \<Rightarrow> nat \<times> int" where
  "net_norm n = (if net_To4 n then (32, net_addr n mod 2 ^ 32) else (128, net_addr n))"

definition net_has :: "IPNet \<Rightarrow> addr \<Rightarrow> bool" where
  "net_has n a \<longleftrightarrow> fst (addr_norm a) = fst (net_norm n) \<and>
     mask_addr (host_bits n) (snd (addr_norm a)) = snd (net_norm n)"

text \<open>\<^verbatim>\<open>big.Int.Sub(..).Uint64()\<close>: the low 64 bits.\<close>

definition offset_in :: "IPNet \<Rightarrow> addr \<Rightarrow> nat" where
  "offset_in n a = nat ((Addr_num a - snd (net_norm n)) mod 2 ^ 64)"

definition findPrefixContainingIP ::
  "'b bitset \<Rightarrow> (string list \<Rightarrow> string list) \<Rightarrow> addr \<Rightarrow> 'b prefixMap \<Rightarrow> (string \<times> nat) option" where
  "findPrefixContainingIP bs ord ip m =
     map_option (\<lambda>k. (k, case ParseCIDR k of Some n \<Rightarrow> offset_in n ip | None \<Rightarrow> 0))
       (find (\<lambda>k. case (map_of m k, ParseCIDR k) of
                    (Some info, Some n) \<Rightarrow> net_has n ip \<and> offset_in n ip < bs_Len bs (PI_bitmap info)
                  | _ \<Rightarrow> False) (ord (keys m)))"


subsection \<open>Construction\<close>

definition usable :: "IPPrefixStatus \<Rightarrow> bool" where
  "usable st \<longleftrightarrow> st = IPPrefixStatusValid \<or> st = IPPrefixStatusFrozen"

definition new_info :: "'b bitset \<Rightarrow> IPPrefix \<Rightarrow> 'b PrefixInfo" where
  "new_info bs p = \<lparr>PI_Prefix = PX_Prefix p, PI_bitmap = bs_New bs (prefixSize (PX_Prefix p)),
                    PI_allocated = [], PI_status = PX_Status p\<rparr>"

definition new_prefixes :: "'b bitset \<Rightarrow> IPPrefix list \<Rightarrow> 'b prefixMap" where
  "new_prefixes bs ps =
     fold (\<lambda>p m. if usable (PX_Status p) then AList.update (PX_Prefix p) (new_info bs p) m else m) ps []"

text \<open>\<^verbatim>\<open>gatewayIP.SetIP(DeriveGatewayIP(cidr))\<close> and \<^verbatim>\<open>vSwitchCIDR.SetIPNet(cidr)\<close>, where the CIDR is set.\<close>

definition cidr_gateway :: "string \<Rightarrow> IPSet \<Rightarrow> IPSet" where
  "cidr_gateway cidr i = (if cidr \<noteq> [] then SetIP (DeriveGatewayIP cidr) i else i)"

definition cidr_net :: "string \<Rightarrow> IPNetSet \<Rightarrow> IPNetSet" where
  "cidr_net cidr i = (if cidr \<noteq> [] then SetIPNet cidr i else i)"

definition NewENILocalIPAMFromPrefix :: "'b bitset \<Rightarrow> string \<Rightarrow> string \<Rightarrow> Nic \<Rightarrow> bool \<Rightarrow> 'b ENILocalIPAM" where
  "NewENILocalIPAMFromPrefix bs eniID mac eni enableERDMA =
     \<lparr>IPAM_eniID = eniID, IPAM_eniMAC = mac,
      IPAM_gatewayIP = cidr_gateway (Nic_IPv6CIDR eni) (cidr_gateway (Nic_IPv4CIDR eni) no_IPSet),
      IPAM_vSwitchCIDR = cidr_net (Nic_IPv6CIDR eni) (cidr_net (Nic_IPv4CIDR eni) no_IPNetSet),
      IPAM_vSwitchID = Nic_VSwitchID eni,
      IPAM_trafficMode = Nic_NetworkInterfaceTrafficMode eni, IPAM_enableERDMA = enableERDMA,
      IPAM_unschedulable = Nic_Unschedulable eni,
      IPAM_v4 = (new_prefixes bs (Nic_IPv4Prefix eni), []),
      IPAM_v6 = (new_prefixes bs (Nic_IPv6Prefix eni), [])\<rparr>"

definition IPAM_IsERDMA :: "'b ENILocalIPAM \<Rightarrow> bool" where
  "IPAM_IsERDMA e \<longleftrightarrow> IPAM_enableERDMA e \<and> IPAM_trafficMode e = NetworkInterfaceTrafficModeHighPerformance"

definition IPAM_SetUnschedulable :: "bool \<Rightarrow> 'b ENILocalIPAM \<Rightarrow> 'b ENILocalIPAM" where
  "IPAM_SetUnschedulable v e = e\<lparr>IPAM_unschedulable := v\<rparr>"

definition IPAM_HasAllocations :: "'b ENILocalIPAM \<Rightarrow> bool" where
  "IPAM_HasAllocations e \<longleftrightarrow> length (snd (IPAM_v4 e)) > 0 \<or> length (snd (IPAM_v6 e)) > 0"

definition IPAM_AllocationCount :: "'b ENILocalIPAM \<Rightarrow> nat" where
  "IPAM_AllocationCount e = length (snd (IPAM_v4 e)) + length (snd (IPAM_v6 e))"

definition pool_stats :: "'b bitset \<Rightarrow> 'b prefixMap \<Rightarrow> int \<times> int" where
  "pool_stats bs m =
     (let total = sum_list (map (\<lambda>info. int (bs_Len bs (PI_bitmap info))) (vals m));
          used = sum_list (map (\<lambda>info. int (length (PI_allocated info))) (vals m))
      in (total, total - used))"

definition IPAM_PoolStats :: "'b bitset \<Rightarrow> 'b ENILocalIPAM \<Rightarrow> int \<times> int \<times> int \<times> int" where
  "IPAM_PoolStats bs e =
     (let (t4, i4) = pool_stats bs (fst (IPAM_v4 e)); (t6, i6) = pool_stats bs (fst (IPAM_v6 e))
      in (t4, i4, t6, i6))"

definition IPAM_IsEmpty :: "'b ENILocalIPAM \<Rightarrow> bool" where
  "IPAM_IsEmpty e \<longleftrightarrow> length (fst (IPAM_v4 e)) = 0 \<and> length (fst (IPAM_v6 e)) = 0"

subsection \<open>Allocation\<close>

text \<open>
  The remaining capacity is an unsigned 64-bit difference. The comparison of the source is a strict
  order on prefixes with distinct names, so the sorted slice does not depend on the order in
  which the map was visited.
\<close>

definition remain :: "'b bitset \<Rightarrow> 'b PrefixInfo \<Rightarrow> int" where
  "remain bs info = (int (bs_Len bs (PI_bitmap info)) - int (length (PI_allocated info))) mod 2 ^ 64"

definition sortedValidPrefixes :: "'b bitset \<Rightarrow> 'b prefixMap \<Rightarrow> string list" where
  "sortedValidPrefixes bs m =
     map fst (sort_key (\<lambda>(cidr, info). (remain bs info, cidr))
                (filter (\<lambda>(cidr, info). PI_status info = IPPrefixStatusValid) m))"

definition take_offset :: "'b bitset \<Rightarrow> string \<Rightarrow> nat \<Rightarrow> 'b PrefixInfo \<Rightarrow> 'b PrefixInfo" where
  "take_offset bs podID off info =
     info\<lparr>PI_bitmap := bs_Set bs off (PI_bitmap info), PI_allocated := AList.update podID off (PI_allocated info)\<rparr>"

definition free_offset :: "'b bitset \<Rightarrow> string \<Rightarrow> nat \<Rightarrow> 'b PrefixInfo \<Rightarrow> 'b PrefixInfo" where
  "free_offset bs podID off info =
     info\<lparr>PI_bitmap := bs_Clear bs off (PI_bitmap info), PI_allocated := AList.delete podID (PI_allocated info)\<rparr>"

text \<open>The loop over the candidates: where the pod was put, and the maps.\<close>

fun alloc_first :: "'b bitset \<Rightarrow> string \<Rightarrow> string list \<Rightarrow> 'b fam \<Rightarrow> (string \<times> nat) option \<times> 'b fam" where
  "alloc_first bs podID [] f = (None, f)"
| "alloc_first bs podID (cidr # cs) (m, pods) =
     (case map_of m cidr of
        None \<Rightarrow> alloc_first bs podID cs (m, pods)
      | Some info \<Rightarrow>
          (case bs_NextClear bs (PI_bitmap info) 0 of
             None \<Rightarrow> alloc_first bs podID cs (m, pods)
           | Some nextClear \<Rightarrow>
               if nextClear \<ge> bs_Len bs (PI_bitmap info) then alloc_first bs podID cs (m, pods)
               else
                 let m1 = gm_adjust cidr (take_offset bs podID nextClear) m;
                     pods1 = AList.update podID cidr pods
                 in case calculateIP cidr nextClear of
                      Some ip \<Rightarrow> (Some (cidr, nextClear), (m1, pods1))
                    | None \<Rightarrow>
                        alloc_first bs podID cs
                          (gm_adjust cidr (free_offset bs podID nextClear) m1, AList.delete podID pods1)))"

text \<open>Where the pod already is, if its address can be calculated.\<close>

definition alloc_known :: "string \<Rightarrow> 'b fam \<Rightarrow> (string \<times> nat) option" where
  "alloc_known podID f =
     (case map_of (snd f) podID of
        None \<Rightarrow> None
      | Some prefix \<Rightarrow>
          (case map_of (fst f) prefix of
             None \<Rightarrow> None
           | Some info \<Rightarrow>
               (case map_of (PI_allocated info) podID of
                  None \<Rightarrow> None
                | Some offset \<Rightarrow> if calculateIP prefix offset = None then None else Some (prefix, offset))))"

definition alloc_fam :: "'b bitset \<Rightarrow> string \<Rightarrow> 'b fam \<Rightarrow> (string \<times> nat) option \<times> 'b fam" where
  "alloc_fam bs podID f =
     (case alloc_known podID f of
        Some loc \<Rightarrow> (Some loc, f)
      | None \<Rightarrow> alloc_first bs podID (sortedValidPrefixes bs (fst f)) f)"

definition loc_ip :: "(string \<times> nat) option \<Rightarrow> addr option" where
  "loc_ip loc = (case loc of None \<Rightarrow> None | Some (prefix, offset) \<Rightarrow> calculateIP prefix offset)"

definition AllocateIPv4 :: "'b bitset \<Rightarrow> string \<Rightarrow> 'b ENILocalIPAM \<Rightarrow> addr option \<times> 'b ENILocalIPAM" where
  "AllocateIPv4 bs podID e =
     (let (loc, f) = alloc_fam bs podID (IPAM_v4 e) in (loc_ip loc, e\<lparr>IPAM_v4 := f\<rparr>))"

definition AllocateIPv6 :: "'b bitset \<Rightarrow> string \<Rightarrow> 'b ENILocalIPAM \<Rightarrow> addr option \<times> 'b ENILocalIPAM" where
  "AllocateIPv6 bs podID e =
     (let (loc, f) = alloc_fam bs podID (IPAM_v6 e) in (loc_ip loc, e\<lparr>IPAM_v6 := f\<rparr>))"

subsection \<open>Release, restore, update\<close>

definition release_fam :: "'b bitset \<Rightarrow> string \<Rightarrow> 'b fam \<Rightarrow> 'b fam" where
  "release_fam bs podID f =
     (case map_of (snd f) podID of
        None \<Rightarrow> f
      | Some prefix \<Rightarrow>
          (case map_of (fst f) prefix of
             None \<Rightarrow> f
           | Some info \<Rightarrow>
               (case map_of (PI_allocated info) podID of
                  None \<Rightarrow> f
                | Some offset \<Rightarrow>
                    (gm_adjust prefix (free_offset bs podID offset) (fst f), AList.delete podID (snd f)))))"

definition ReleaseIPv4 :: "'b bitset \<Rightarrow> string \<Rightarrow> 'b ENILocalIPAM \<Rightarrow> 'b ENILocalIPAM" where
  "ReleaseIPv4 bs podID e = e\<lparr>IPAM_v4 := release_fam bs podID (IPAM_v4 e)\<rparr>"

definition ReleaseIPv6 :: "'b bitset \<Rightarrow> string \<Rightarrow> 'b ENILocalIPAM \<Rightarrow> 'b ENILocalIPAM" where
  "ReleaseIPv6 bs podID e = e\<lparr>IPAM_v6 := release_fam bs podID (IPAM_v6 e)\<rparr>"

definition restore_fam ::
  "'b bitset \<Rightarrow> (string list \<Rightarrow> string list) \<Rightarrow> string \<Rightarrow> string \<Rightarrow> 'b fam \<Rightarrow> 'b fam" where
  "restore_fam bs ord podID ip f =
     (if ip = [] then f
      else case ParseAddr ip of
             None \<Rightarrow> f
           | Some a \<Rightarrow>
               (case findPrefixContainingIP bs ord a (fst f) of
                  None \<Rightarrow> f
                | Some (prefix, offset) \<Rightarrow>
                    (gm_adjust prefix (take_offset bs podID offset) (fst f), AList.update podID prefix (snd f))))"

definition RestorePod ::
  "'b bitset \<Rightarrow> (string list \<Rightarrow> string list) \<Rightarrow> string \<Rightarrow> string \<Rightarrow> string \<Rightarrow> string \<Rightarrow> 'b ENILocalIPAM \<Rightarrow> 'b ENILocalIPAM" where
  "RestorePod bs ord podID ipv4 ipv6 eniID e =
     (if eniID \<noteq> IPAM_eniID e then e
      else e\<lparr>IPAM_v4 := restore_fam bs ord podID ipv4 (IPAM_v4 e),
             IPAM_v6 := restore_fam bs ord podID ipv6 (IPAM_v6 e)\<rparr>)"

definition newPrefixMap :: "IPPrefix list \<Rightarrow> (string, IPPrefix) gomap" where
  "newPrefixMap ps = fold (\<lambda>p. AList.update (PX_Prefix p) p) ps []"

text \<open>The prefixes that left the list: gone if drained, marked otherwise.\<close>

definition drop_removed :: "(string, IPPrefix) gomap \<Rightarrow> 'b prefixMap \<Rightarrow> 'b prefixMap" where
  "drop_removed new m =
     map (\<lambda>(prefix, info). if map_of new prefix = None
                           then (prefix, info\<lparr>PI_status := IPPrefixStatusDeleting\<rparr>) else (prefix, info))
       (filter (\<lambda>(prefix, info). \<not> (map_of new prefix = None \<and> length (PI_allocated info) = 0)) m)"

text \<open>One prefix of the list: its status, or a new entry.\<close>

definition put_prefix :: "'b bitset \<Rightarrow> IPPrefix \<Rightarrow> 'b prefixMap \<Rightarrow> 'b prefixMap" where
  "put_prefix bs p m =
     (case map_of m (PX_Prefix p) of
        Some info \<Rightarrow>
          let m = gm_adjust (PX_Prefix p) (\<lambda>i. i\<lparr>PI_status := PX_Status p\<rparr>) m
          in if PX_Status p = IPPrefixStatusDeleting \<and> length (PI_allocated info) = 0
             then AList.delete (PX_Prefix p) m else m
      | None \<Rightarrow>
          if usable (PX_Status p) then AList.update (PX_Prefix p) (new_info bs p) m else m)"

definition UpdatePrefixes :: "'b bitset \<Rightarrow> IPPrefix list \<Rightarrow> bool \<Rightarrow> 'b ENILocalIPAM \<Rightarrow> 'b ENILocalIPAM" where
  "UpdatePrefixes bs prefixes isIPv6 e =
     (let new = newPrefixMap prefixes;
          upd = (\<lambda>m. fold (put_prefix bs) (vals new) (drop_removed new m))
      in if isIPv6 then e\<lparr>IPAM_v6 := (upd (fst (IPAM_v6 e)), snd (IPAM_v6 e))\<rparr>
         else e\<lparr>IPAM_v4 := (upd (fst (IPAM_v4 e)), snd (IPAM_v4 e))\<rparr>)"

subsection \<open>What the package promises\<close>

lemma bitset_lawsD:
  assumes "bitset_laws bs"
  shows bs_Len_New: "bs_Len bs (bs_New bs n) = n"
    and bs_Test_New: "\<not> bs_Test bs (bs_New bs n) i"
    and bs_Len_Set: "i < bs_Len bs b \<Longrightarrow> bs_Len bs (bs_Set bs i b) = bs_Len bs b"
    and bs_Test_Set: "i < bs_Len bs b \<Longrightarrow> bs_Test bs (bs_Set bs i b) j = (j = i \<or> bs_Test bs b j)"
    and bs_Len_Clear: "bs_Len bs (bs_Clear bs i b) = bs_Len bs b"
    and bs_Test_Clear: "bs_Test bs (bs_Clear bs i b) j = (j \<noteq> i \<and> bs_Test bs b j)"
  using assms by (simp_all add: bitset_laws_def)

lemma bs_NextClear_laws:
  assumes "bitset_laws bs"
  shows "\<forall>b i j. bs_NextClear bs b i = Some j \<longrightarrow> i \<le> j \<and> \<not> bs_Test bs b j" (is ?A)
    and "\<forall>b i. bs_NextClear bs b i = None \<longrightarrow> (\<forall>j. i \<le> j \<longrightarrow> j < bs_Len bs b \<longrightarrow> bs_Test bs b j)" (is ?B)
    and "\<forall>b i j k. bs_NextClear bs b i = Some j \<longrightarrow> i \<le> k \<longrightarrow> k < j \<longrightarrow> bs_Test bs b k" (is ?C)
proof -
  have "?A \<and> ?B \<and> ?C" using assms unfolding bitset_laws_def by (elim conjE) (intro conjI; assumption)
  then show ?A and ?B and ?C by simp_all
qed

lemma bs_NextClearD:
  assumes "bitset_laws bs"
  shows bs_NextClear_Some: "bs_NextClear bs b i = Some j \<Longrightarrow> i \<le> j \<and> \<not> bs_Test bs b j"
    and bs_NextClear_None: "bs_NextClear bs b i = None \<Longrightarrow> i \<le> j \<Longrightarrow> j < bs_Len bs b \<Longrightarrow> bs_Test bs b j"
    and bs_NextClear_least: "bs_NextClear bs b i = Some j \<Longrightarrow> i \<le> k \<Longrightarrow> k < j \<Longrightarrow> bs_Test bs b k"
  using bs_NextClear_laws [OF assms] by blast+

subsection \<open>The invariant\<close>

text \<open>The bits that are set are exactly the offsets of the pods, each offset held by one pod.\<close>

definition info_ok :: "'b bitset \<Rightarrow> string \<Rightarrow> 'b PrefixInfo \<Rightarrow> bool" where
  "info_ok bs cidr info \<longleftrightarrow> PI_Prefix info = cidr \<and> bs_Len bs (PI_bitmap info) = prefixSize cidr \<and>
     gm_ok (PI_allocated info) \<and>
     (\<forall>p q off. map_of (PI_allocated info) p = Some off \<longrightarrow> map_of (PI_allocated info) q = Some off \<longrightarrow> p = q) \<and>
     (\<forall>j. bs_Test bs (PI_bitmap info) j \<longleftrightarrow> (\<exists>p. map_of (PI_allocated info) p = Some j)) \<and>
     (\<forall>p off. map_of (PI_allocated info) p = Some off \<longrightarrow> off < prefixSize cidr)"

lemma info_okD:
  assumes "info_ok bs cidr info"
  shows info_Prefix: "PI_Prefix info = cidr" and info_Len: "bs_Len bs (PI_bitmap info) = prefixSize cidr"
    and info_gm: "gm_ok (PI_allocated info)"
    and info_inj: "map_of (PI_allocated info) p = Some off \<Longrightarrow> map_of (PI_allocated info) q = Some off \<Longrightarrow> p = q"
    and info_bit: "bs_Test bs (PI_bitmap info) j \<longleftrightarrow> (\<exists>p. map_of (PI_allocated info) p = Some j)"
    and info_less: "map_of (PI_allocated info) p = Some off \<Longrightarrow> off < prefixSize cidr"
proof -
  note I = assms [unfolded info_ok_def]
  show "PI_Prefix info = cidr" "bs_Len bs (PI_bitmap info) = prefixSize cidr" "gm_ok (PI_allocated info)"
    using I by simp_all
  show "bs_Test bs (PI_bitmap info) j \<longleftrightarrow> (\<exists>p. map_of (PI_allocated info) p = Some j)"
    using I by blast
  show "map_of (PI_allocated info) p = Some off \<Longrightarrow> map_of (PI_allocated info) q = Some off \<Longrightarrow> p = q"
    using I by metis
  show "map_of (PI_allocated info) p = Some off \<Longrightarrow> off < prefixSize cidr"
    using I by metis
qed

lemma info_okI:
  assumes "PI_Prefix info = cidr" and "bs_Len bs (PI_bitmap info) = prefixSize cidr" and "gm_ok (PI_allocated info)"
    and "\<And>p q off. map_of (PI_allocated info) p = Some off \<Longrightarrow> map_of (PI_allocated info) q = Some off \<Longrightarrow> p = q"
    and "\<And>j. bs_Test bs (PI_bitmap info) j \<longleftrightarrow> (\<exists>p. map_of (PI_allocated info) p = Some j)"
    and "\<And>p off. map_of (PI_allocated info) p = Some off \<Longrightarrow> off < prefixSize cidr"
  shows "info_ok bs cidr info"
  unfolding info_ok_def using assms(1-3) assms(5) assms(4,6) by (intro conjI allI impI)

text \<open>The two maps of a family agree: a pod leads to the one prefix that lists it.\<close>

definition holds :: "'b prefixMap \<Rightarrow> string \<Rightarrow> string \<Rightarrow> nat \<Rightarrow> bool" where
  "holds m p cidr off \<longleftrightarrow> (\<exists>info. map_of m cidr = Some info \<and> map_of (PI_allocated info) p = Some off)"

definition fam_ok :: "'b bitset \<Rightarrow> 'b fam \<Rightarrow> bool" where
  "fam_ok bs f \<longleftrightarrow> gm_ok (fst f) \<and> gm_ok (snd f) \<and>
     (\<forall>cidr info. map_of (fst f) cidr = Some info \<longrightarrow> info_ok bs cidr info) \<and>
     (\<forall>p cidr. map_of (snd f) p = Some cidr \<longleftrightarrow> (\<exists>off. holds (fst f) p cidr off))"

lemma fam_okD:
  assumes "fam_ok bs f"
  shows fam_gm: "gm_ok (fst f)" and fam_gm_pods: "gm_ok (snd f)"
    and fam_info: "map_of (fst f) cidr = Some info \<Longrightarrow> info_ok bs cidr info"
    and fam_pods: "map_of (snd f) p = Some cidr \<longleftrightarrow> (\<exists>off. holds (fst f) p cidr off)"
  using assms unfolding fam_ok_def by auto

lemma fam_okI:
  assumes "gm_ok m" and "gm_ok pods" and "\<And>cidr info. map_of m cidr = Some info \<Longrightarrow> info_ok bs cidr info"
    and "\<And>p cidr. map_of pods p = Some cidr \<longleftrightarrow> (\<exists>off. holds m p cidr off)"
  shows "fam_ok bs (m, pods)"
  unfolding fam_ok_def fst_conv snd_conv using assms by (intro conjI allI impI)

lemma holds_unique:
  assumes "fam_ok bs f" and "holds (fst f) p c off" and "holds (fst f) p c' off'"
  shows "c = c' \<and> off = off'"
proof -
  have "map_of (snd f) p = Some c" "map_of (snd f) p = Some c'"
    using assms fam_pods [OF assms(1)] by blast+
  with assms(2,3) show ?thesis by (auto simp: holds_def)
qed

lemma holds_inj:
  assumes "fam_ok bs f" and "holds (fst f) p c off" and "holds (fst f) q c off"
  shows "p = q"
proof -
  obtain info where i: "map_of (fst f) c = Some info" "map_of (PI_allocated info) p = Some off"
    "map_of (PI_allocated info) q = Some off"
    using assms(2,3) by (auto simp: holds_def)
  show ?thesis by (rule info_inj [OF fam_info [OF assms(1) i(1)] i(2,3)])
qed

lemma holds_bit:
  assumes "fam_ok bs f" and "map_of (fst f) c = Some info"
  shows "bs_Test bs (PI_bitmap info) off \<longleftrightarrow> (\<exists>p. holds (fst f) p c off)"
  using info_bit [OF fam_info [OF assms], of off] assms(2) by (simp add: holds_def)

lemma holds_less:
  assumes "fam_ok bs f" and "holds (fst f) p c off"
  shows "off < prefixSize c"
proof -
  obtain info where i: "map_of (fst f) c = Some info" "map_of (PI_allocated info) p = Some off"
    using assms(2) by (auto simp: holds_def)
  show ?thesis by (rule info_less [OF fam_info [OF assms(1) i(1)] i(2)])
qed

lemma prefixSize_parse: "off < prefixSize c \<Longrightarrow> calculateIP c off \<noteq> None"
  by (auto simp: prefixSize_def calculateIP_def split: option.splits)

lemma alloc_known_eq:
  assumes "fam_ok bs f"
  shows "alloc_known p f = Some (c, off) \<longleftrightarrow> holds (fst f) p c off"
proof
  assume "alloc_known p f = Some (c, off)"
  then show "holds (fst f) p c off"
    by (auto simp: alloc_known_def holds_def split: option.splits if_splits)
next
  assume h: "holds (fst f) p c off"
  then have "map_of (snd f) p = Some c" using fam_pods [OF assms] by blast
  moreover have "calculateIP c off \<noteq> None" using holds_less [OF assms h] by (rule prefixSize_parse)
  ultimately show "alloc_known p f = Some (c, off)"
    using h by (auto simp: alloc_known_def holds_def)
qed

lemma alloc_known_None:
  assumes "fam_ok bs f"
  shows "alloc_known p f = None \<longleftrightarrow> map_of (snd f) p = None"
proof -
  have "alloc_known p f \<noteq> None \<longleftrightarrow> (\<exists>c off. holds (fst f) p c off)"
  proof (cases "alloc_known p f")
    case None
    then show ?thesis using alloc_known_eq [OF assms, of p] by simp
  next
    case (Some loc)
    obtain c off where "loc = (c, off)" by (cases loc)
    with Some have "holds (fst f) p c off" using alloc_known_eq [OF assms] by blast
    then show ?thesis using Some by blast
  qed
  also have "\<dots> \<longleftrightarrow> map_of (snd f) p \<noteq> None"
    using fam_pods [OF assms, of p] by (cases "map_of (snd f) p") blast+
  finally show ?thesis by blast
qed

subsection \<open>Allocating\<close>

definition full :: "'b bitset \<Rightarrow> 'b prefixMap \<Rightarrow> string \<Rightarrow> bool" where
  "full bs m cidr \<longleftrightarrow>
     (\<forall>info. map_of m cidr = Some info \<longrightarrow> (\<forall>j < bs_Len bs (PI_bitmap info). bs_Test bs (PI_bitmap info) j))"

text \<open>The free offset the loop takes in a prefix.\<close>

definition next_free :: "'b bitset \<Rightarrow> 'b prefixMap \<Rightarrow> string \<Rightarrow> nat \<Rightarrow> bool" where
  "next_free bs m cidr off \<longleftrightarrow> (\<exists>info. map_of m cidr = Some info \<and> off < bs_Len bs (PI_bitmap info) \<and>
     \<not> bs_Test bs (PI_bitmap info) off \<and> (\<forall>j < off. bs_Test bs (PI_bitmap info) j))"

lemma alloc_first_spec:
  assumes "bitset_laws bs" and "fam_ok bs (m, pods)"
  shows "(alloc_first bs p cs (m, pods) = (None, (m, pods)) \<and> (\<forall>c \<in> set cs. full bs m c)) \<or>
    (\<exists>pre c post off. cs = pre @ c # post \<and> (\<forall>d \<in> set pre. full bs m d) \<and> next_free bs m c off \<and>
       alloc_first bs p cs (m, pods) =
         (Some (c, off), (gm_adjust c (take_offset bs p off) m, AList.update p c pods)))"
proof (induction cs)
  case (Cons c cs)
  let ?skip = "alloc_first bs p (c # cs) (m, pods) = alloc_first bs p cs (m, pods) \<and> full bs m c"
  let ?took = "\<exists>off. next_free bs m c off \<and> alloc_first bs p (c # cs) (m, pods) =
         (Some (c, off), (gm_adjust c (take_offset bs p off) m, AList.update p c pods))"
  have "?skip \<or> ?took"
  proof (cases "map_of m c")
    case None
    then show ?thesis by (simp add: full_def)
  next
    case (Some info)
    have len: "bs_Len bs (PI_bitmap info) = prefixSize c"
      using info_Len [OF fam_info [OF assms(2), of c info]] Some by simp
    show ?thesis
    proof (cases "bs_NextClear bs (PI_bitmap info) 0")
      case None
      then have "full bs m c"
        using Some bs_NextClear_None [OF assms(1) None] by (simp add: full_def)
      then show ?thesis using Some None by simp
    next
      case S: (Some off)
      show ?thesis
      proof (cases "off < bs_Len bs (PI_bitmap info)")
        case True
        then obtain ip where "calculateIP c off = Some ip"
          using prefixSize_parse [of off c] len by auto
        moreover have "next_free bs m c off"
          using Some True bs_NextClear_Some [OF assms(1) S] bs_NextClear_least [OF assms(1) S]
          by (auto simp: next_free_def)
        ultimately show ?thesis using Some S True by (simp add: Let_def)
      next
        case False
        then have "full bs m c"
          using Some bs_NextClear_least [OF assms(1) S] by (simp add: full_def)
        then show ?thesis using Some S False by simp
      qed
    qed
  qed
  then show ?case
  proof
    assume ?skip
    then have skip: "alloc_first bs p (c # cs) (m, pods) = alloc_first bs p cs (m, pods)" "full bs m c" by auto
    from Cons.IH show ?thesis
    proof
      assume "alloc_first bs p cs (m, pods) = (None, (m, pods)) \<and> (\<forall>c \<in> set cs. full bs m c)"
      then show ?thesis using skip by simp
    next
      assume "\<exists>pre d post off. cs = pre @ d # post \<and> (\<forall>d \<in> set pre. full bs m d) \<and> next_free bs m d off \<and>
       alloc_first bs p cs (m, pods) =
         (Some (d, off), (gm_adjust d (take_offset bs p off) m, AList.update p d pods))"
      then obtain pre d post off where *: "cs = pre @ d # post" "\<forall>d \<in> set pre. full bs m d" "next_free bs m d off"
        "alloc_first bs p cs (m, pods) =
         (Some (d, off), (gm_adjust d (take_offset bs p off) m, AList.update p d pods))" by blast
      then show ?thesis
        using skip by (intro disjI2 exI [of _ "c # pre"] exI [of _ d] exI [of _ post] exI [of _ off]) simp
    qed
  next
    assume ?took
    then obtain off where *: "next_free bs m c off" "alloc_first bs p (c # cs) (m, pods) =
         (Some (c, off), (gm_adjust c (take_offset bs p off) m, AList.update p c pods))" by blast
    then show ?thesis
      by (intro disjI2 exI [of _ "[]"] exI [of _ c] exI [of _ cs] exI [of _ off]) simp
  qed
qed simp

text \<open>Taking a free offset for a pod that has none keeps the invariant.\<close>

lemma info_ok_take:
  assumes "bitset_laws bs" and "info_ok bs c info" and "off < prefixSize c"
    and "\<not> bs_Test bs (PI_bitmap info) off" and "map_of (PI_allocated info) p = None"
  shows "info_ok bs c (take_offset bs p off info)"
proof -
  have len: "off < bs_Len bs (PI_bitmap info)" using info_Len [OF assms(2)] assms(3) by simp
  have fresh: "map_of (PI_allocated info) q \<noteq> Some off" for q
    using info_bit [OF assms(2), of off] assms(4) by blast
  let ?a = "AList.update p off (PI_allocated info)"
  have a: "map_of ?a q = (if q = p then Some off else map_of (PI_allocated info) q)" for q
    by (simp add: gm_simps)
  have bit: "bs_Test bs (bs_Set bs off (PI_bitmap info)) j \<longleftrightarrow> (\<exists>q. map_of ?a q = Some j)" for j
  proof -
    have "(\<exists>q. map_of ?a q = Some j) \<longleftrightarrow> j = off \<or> (\<exists>q. map_of (PI_allocated info) q = Some j)"
      using assms(5) unfolding a by (metis option.distinct(1) option.inject)
    then show ?thesis
      unfolding bs_Test_Set [OF assms(1) len] info_bit [OF assms(2)] by simp
  qed
  have inj: "map_of ?a q = Some j \<Longrightarrow> map_of ?a r = Some j \<Longrightarrow> q = r" for q r j
    using info_inj [OF assms(2), of q j r] fresh by (simp add: a split: if_splits)
  have less: "map_of ?a q = Some j \<Longrightarrow> j < prefixSize c" for q j
    using info_less [OF assms(2), of q j] assms(3) by (simp add: a split: if_splits)
  show ?thesis
  proof (rule info_okI)
    show "map_of (PI_allocated (take_offset bs p off info)) q = Some j \<Longrightarrow>
      map_of (PI_allocated (take_offset bs p off info)) r = Some j \<Longrightarrow> q = r" for q r j
      using inj [of q j r] by (simp add: take_offset_def)
    show "map_of (PI_allocated (take_offset bs p off info)) q = Some j \<Longrightarrow> j < prefixSize c" for q j
      using less [of q j] by (simp add: take_offset_def)
  qed (use assms(2) len bit in \<open>simp_all add: take_offset_def bs_Len_Set [OF assms(1)] info_Prefix info_Len info_gm\<close>)
qed

lemma info_ok_free:
  assumes "bitset_laws bs" and "info_ok bs c info" and "map_of (PI_allocated info) p = Some off"
  shows "info_ok bs c (free_offset bs p off info)"
proof -
  let ?a = "AList.delete p (PI_allocated info)"
  have a: "map_of ?a q = (if q = p then None else map_of (PI_allocated info) q)" for q
    by (simp add: gm_simps)
  have bit: "bs_Test bs (bs_Clear bs off (PI_bitmap info)) j \<longleftrightarrow> (\<exists>q. map_of ?a q = Some j)" for j
  proof
    assume "bs_Test bs (bs_Clear bs off (PI_bitmap info)) j"
    then have "j \<noteq> off" "bs_Test bs (PI_bitmap info) j" using bs_Test_Clear [OF assms(1)] by auto
    then obtain q where "map_of (PI_allocated info) q = Some j" using info_bit [OF assms(2)] by blast
    moreover have "q \<noteq> p" using calculation assms(3) \<open>j \<noteq> off\<close> by auto
    ultimately show "\<exists>q. map_of ?a q = Some j" by (auto simp: a)
  next
    assume "\<exists>q. map_of ?a q = Some j"
    then obtain q where q: "q \<noteq> p" "map_of (PI_allocated info) q = Some j" by (auto simp: a split: if_splits)
    then have "j \<noteq> off" using info_inj [OF assms(2), of q j p] assms(3) by auto
    then show "bs_Test bs (bs_Clear bs off (PI_bitmap info)) j"
      using q bs_Test_Clear [OF assms(1)] info_bit [OF assms(2), of j] by blast
  qed
  have inj: "map_of ?a q = Some j \<Longrightarrow> map_of ?a r = Some j \<Longrightarrow> q = r" for q r j
    using info_inj [OF assms(2), of q j r] by (simp add: a split: if_splits)
  have less: "map_of ?a q = Some j \<Longrightarrow> j < prefixSize c" for q j
    using info_less [OF assms(2), of q j] by (simp add: a split: if_splits)
  show ?thesis
  proof (rule info_okI)
    show "map_of (PI_allocated (free_offset bs p off info)) q = Some j \<Longrightarrow>
      map_of (PI_allocated (free_offset bs p off info)) r = Some j \<Longrightarrow> q = r" for q r j
      using inj [of q j r] by (simp add: free_offset_def)
    show "map_of (PI_allocated (free_offset bs p off info)) q = Some j \<Longrightarrow> j < prefixSize c" for q j
      using less [of q j] by (simp add: free_offset_def)
  qed (use assms(2) bit in \<open>simp_all add: free_offset_def bs_Len_Clear [OF assms(1)] info_Prefix info_Len info_gm\<close>)
qed

lemma holds_adjust:
  "holds (gm_adjust c g m) p d off \<longleftrightarrow>
     (if d = c then \<exists>info. map_of m c = Some info \<and> map_of (PI_allocated (g info)) p = Some off
      else holds m p d off)"
  by (auto simp: holds_def gm_simps)

lemma no_prefix_no_hold:
  assumes "fam_ok bs (m, pods)" and "map_of pods p = None"
  shows "\<not> holds m p c off"
  using fam_pods [OF assms(1), of p c] assms(2) by auto

lemma fam_ok_take:
  assumes bs: "bitset_laws bs" and f: "fam_ok bs (m, pods)" and info: "map_of m c = Some info"
    and off: "off < prefixSize c" "\<not> bs_Test bs (PI_bitmap info) off" and p: "map_of pods p = None"
  shows "fam_ok bs (gm_adjust c (take_offset bs p off) m, AList.update p c pods)" (is ?ok)
    and "holds (gm_adjust c (take_offset bs p off) m) q d j \<longleftrightarrow> q = p \<and> d = c \<and> j = off \<or> holds m q d j" (is ?holds)
proof -
  have none: "map_of (PI_allocated info) p = None"
    using no_prefix_no_hold [OF f p, of c] info by (auto simp: holds_def)
  have h: "holds (gm_adjust c (take_offset bs p off) m) q d j \<longleftrightarrow> q = p \<and> d = c \<and> j = off \<or> holds m q d j"
    for q d j
    using info none by (auto simp: holds_adjust take_offset_def gm_simps holds_def)
  show ?holds by (rule h)
  have i: "info_ok bs c (take_offset bs p off info)"
    using info_ok_take [OF bs fam_info [OF f, of c info] off none] info by simp
  have pods: "map_of (AList.update p c pods) q = Some d \<longleftrightarrow> (\<exists>j. holds (gm_adjust c (take_offset bs p off) m) q d j)"
    for q d
    using fam_pods [OF f, of q d] no_prefix_no_hold [OF f p, of d] unfolding h by (auto simp: gm_simps)
  have infos: "info_ok bs d inf" if "map_of (gm_adjust c (take_offset bs p off) m) d = Some inf" for d inf
    using that i info fam_info [OF f, of d inf] by (auto simp: gm_simps split: if_splits)
  show ?ok
    by (rule fam_okI [OF _ _ infos pods]) (use fam_gm [OF f] fam_gm_pods [OF f] in simp_all)
qed

lemma fam_ok_free:
  assumes bs: "bitset_laws bs" and f: "fam_ok bs (m, pods)" and p: "holds m p c off"
  shows "fam_ok bs (gm_adjust c (free_offset bs p off) m, AList.delete p pods)" (is ?ok)
    and "holds (gm_adjust c (free_offset bs p off) m) q d j \<longleftrightarrow> q \<noteq> p \<and> holds m q d j" (is ?holds)
proof -
  obtain info where info: "map_of m c = Some info" "map_of (PI_allocated info) p = Some off"
    using p by (auto simp: holds_def)
  have only: "holds m p d j \<Longrightarrow> d = c" for d j
    using holds_unique [OF f, of p c off d j] p by simp
  have h: "holds (gm_adjust c (free_offset bs p off) m) q d j \<longleftrightarrow> q \<noteq> p \<and> holds m q d j" for q d j
  proof (cases "d = c")
    case True
    then show ?thesis using info by (auto simp: holds_adjust free_offset_def gm_simps holds_def)
  next
    case False
    then show ?thesis using only [of d j] by (auto simp: holds_adjust)
  qed
  show ?holds by (rule h)
  have i: "info_ok bs c (free_offset bs p off info)"
    using info_ok_free [OF bs fam_info [OF f, of c info] info(2)] info(1) by simp
  have pods: "map_of (AList.delete p pods) q = Some d \<longleftrightarrow> (\<exists>j. holds (gm_adjust c (free_offset bs p off) m) q d j)"
    for q d
    using fam_pods [OF f, of q d] unfolding h by (auto simp: gm_simps)
  have infos: "info_ok bs d inf" if "map_of (gm_adjust c (free_offset bs p off) m) d = Some inf" for d inf
    using that i info(1) fam_info [OF f, of d inf] by (auto simp: gm_simps split: if_splits)
  show ?ok
    by (rule fam_okI [OF _ _ infos pods]) (use fam_gm [OF f] fam_gm_pods [OF f] in simp_all)
qed

lemma release_fam_eq:
  assumes "fam_ok bs f"
  shows "release_fam bs p f =
    (case alloc_known p f of None \<Rightarrow> f
     | Some (c, off) \<Rightarrow> (gm_adjust c (free_offset bs p off) (fst f), AList.delete p (snd f)))"
proof (cases "alloc_known p f")
  case None
  then show ?thesis using alloc_known_None [OF assms, of p] by (simp add: release_fam_def)
next
  case (Some loc)
  obtain c off where loc: "loc = (c, off)" by (cases loc)
  then have "holds (fst f) p c off" using Some alloc_known_eq [OF assms] by blast
  moreover have "map_of (snd f) p = Some c" using calculation fam_pods [OF assms] by blast
  ultimately show ?thesis using Some loc by (auto simp: release_fam_def holds_def)
qed

lemma release_fam_ok:
  assumes "bitset_laws bs" and "fam_ok bs f"
  shows "fam_ok bs (release_fam bs p f)"
    and "holds (fst (release_fam bs p f)) q d j \<longleftrightarrow> q \<noteq> p \<and> holds (fst f) q d j"
proof -
  obtain m pods where f: "f = (m, pods)" by (cases f)
  have "fam_ok bs (release_fam bs p f) \<and> (holds (fst (release_fam bs p f)) q d j \<longleftrightarrow> q \<noteq> p \<and> holds (fst f) q d j)"
  proof (cases "alloc_known p f")
    case None
    then have "map_of pods p = None" using alloc_known_None [OF assms(2), of p] f by simp
    then have "\<not> holds m p d j" using assms(2) f by (intro no_prefix_no_hold) auto
    then show ?thesis using None assms(2) release_fam_eq [OF assms(2), of p] f by auto
  next
    case (Some loc)
    obtain c off where loc: "loc = (c, off)" by (cases loc)
    have h: "holds m p c off" using Some loc f alloc_known_eq [OF assms(2), of p c off] by simp
    have r: "release_fam bs p f = (gm_adjust c (free_offset bs p off) m, AList.delete p pods)"
      using release_fam_eq [OF assms(2), of p] Some loc f by simp
    show ?thesis
      using fam_ok_free [OF assms(1) _ h, of pods] assms(2) r f by simp
  qed
  then show "fam_ok bs (release_fam bs p f)"
    and "holds (fst (release_fam bs p f)) q d j \<longleftrightarrow> q \<noteq> p \<and> holds (fst f) q d j" by auto
qed

lemma next_free_holds:
  assumes "fam_ok bs (m, pods)"
  shows "next_free bs m c off \<longleftrightarrow>
    map_of m c \<noteq> None \<and> off < prefixSize c \<and> (\<nexists>q. holds m q c off) \<and> (\<forall>j < off. \<exists>q. holds m q c j)"
proof (cases "map_of m c")
  case (Some info)
  have "bs_Test bs (PI_bitmap info) j \<longleftrightarrow> (\<exists>q. holds m q c j)" for j
    using holds_bit [OF assms, of c info j] Some by simp
  moreover have "bs_Len bs (PI_bitmap info) = prefixSize c"
    using info_Len [OF fam_info [OF assms, of c info]] Some by simp
  ultimately show ?thesis using Some by (simp add: next_free_def)
qed (simp add: next_free_def)

text \<open>The outcomes of an allocation: the pod is known, every prefix is full, or a new offset is taken.\<close>

lemma alloc_fam_cases:
  assumes "bitset_laws bs" and "fam_ok bs f"
  obtains (known) c off where "holds (fst f) p c off" and "alloc_fam bs p f = (Some (c, off), f)"
  | (none) "map_of (snd f) p = None" and "alloc_fam bs p f = (None, f)"
      and "\<forall>c \<in> set (sortedValidPrefixes bs (fst f)). full bs (fst f) c"
  | (fresh) pre c post off where "map_of (snd f) p = None"
      and "sortedValidPrefixes bs (fst f) = pre @ c # post" and "\<forall>d \<in> set pre. full bs (fst f) d"
      and "next_free bs (fst f) c off"
      and "alloc_fam bs p f =
         (Some (c, off), (gm_adjust c (take_offset bs p off) (fst f), AList.update p c (snd f)))"
proof (cases "alloc_known p f")
  case (Some loc)
  obtain c off where loc: "loc = (c, off)" by (cases loc)
  then have "holds (fst f) p c off" using Some alloc_known_eq [OF assms(2)] by blast
  then show ?thesis using Some loc by (intro known) (simp_all add: alloc_fam_def)
next
  case None
  obtain m pods where f: "f = (m, pods)" by (cases f)
  have p: "map_of (snd f) p = None" using None alloc_known_None [OF assms(2)] by blast
  have eq: "alloc_fam bs p f = alloc_first bs p (sortedValidPrefixes bs m) (m, pods)"
    using None f by (simp add: alloc_fam_def)
  from alloc_first_spec [OF assms(1) assms(2) [unfolded f], of p "sortedValidPrefixes bs m"] show ?thesis
  proof (elim disjE conjE exE)
    assume "alloc_first bs p (sortedValidPrefixes bs m) (m, pods) = (None, m, pods)"
      and "\<forall>c \<in> set (sortedValidPrefixes bs m). full bs m c"
    then show ?thesis using p eq f by (intro none) simp_all
  next
    fix pre c post off
    assume "sortedValidPrefixes bs m = pre @ c # post" and "\<forall>d \<in> set pre. full bs m d"
      and "next_free bs m c off"
      and "alloc_first bs p (sortedValidPrefixes bs m) (m, pods) =
         (Some (c, off), (gm_adjust c (take_offset bs p off) m, AList.update p c pods))"
    then show ?thesis using p eq f by (intro fresh) simp_all
  qed
qed

lemma alloc_fam_ok:
  assumes "bitset_laws bs" and "fam_ok bs f"
  shows "fam_ok bs (snd (alloc_fam bs p f))"
  using assms
proof (cases rule: alloc_fam_cases [where p = p])
  case (fresh pre c post off)
  obtain m pods where f: "f = (m, pods)" by (cases f)
  obtain info where info: "map_of m c = Some info" "\<not> bs_Test bs (PI_bitmap info) off"
    using fresh(4) f by (auto simp: next_free_def)
  moreover have "off < prefixSize c"
    using fresh(4) next_free_holds [OF assms(2) [unfolded f]] f by simp
  ultimately show ?thesis
    using fam_ok_take [OF assms(1) assms(2) [unfolded f], of c info off p] fresh(1,5) f by simp
qed (use assms in simp_all)

lemma alloc_fam_holds:
  assumes "bitset_laws bs" and "fam_ok bs f" and "alloc_fam bs p f = (Some (c, off), f')"
  shows "holds (fst f') q d j \<longleftrightarrow> q = p \<and> d = c \<and> j = off \<or> holds (fst f) q d j"
    and "(\<nexists>q. holds (fst f) q c off) \<or> holds (fst f) p c off"
proof -
  obtain m pods where f: "f = (m, pods)" by (cases f)
  have "(holds (fst f') q d j \<longleftrightarrow> q = p \<and> d = c \<and> j = off \<or> holds (fst f) q d j) \<and>
        ((\<nexists>q. holds (fst f) q c off) \<or> holds (fst f) p c off)"
    using assms(1,2)
  proof (cases rule: alloc_fam_cases [where p = p])
    case (known c' off')
    then have "c' = c" "off' = off" "f' = f" using assms(3) by auto
    then show ?thesis using known(1) by auto
  next
    case none
    then show ?thesis using assms(3) by simp
  next
    case (fresh pre c' post off')
    then have eq: "c' = c" "off' = off" "f' = (gm_adjust c (take_offset bs p off) m, AList.update p c pods)"
      using assms(3) f by auto
    obtain info where info: "map_of m c = Some info" "\<not> bs_Test bs (PI_bitmap info) off"
      using fresh(4) f eq by (auto simp: next_free_def)
    have nf: "off < prefixSize c" "\<nexists>q. holds m q c off"
      using fresh(4) next_free_holds [OF assms(2) [unfolded f]] f eq by simp_all
    show ?thesis
      using fam_ok_take(2) [OF assms(1) assms(2) [unfolded f] info(1) nf(1) info(2), of p] fresh(1) nf(2) f eq by simp
  qed
  then show "holds (fst f') q d j \<longleftrightarrow> q = p \<and> d = c \<and> j = off \<or> holds (fst f) q d j"
    and "(\<nexists>q. holds (fst f) q c off) \<or> holds (fst f) p c off" by auto
qed

subsection \<open>The contract\<close>

text \<open>The pod that holds an offset, by the map of the prefix.\<close>

definition loc_owner :: "'b fam \<Rightarrow> string \<times> nat \<Rightarrow> string option" where
  "loc_owner f loc =
     (case map_of (fst f) (fst loc) of
        None \<Rightarrow> None
      | Some info \<Rightarrow> find (\<lambda>p. map_of (PI_allocated info) p = Some (snd loc)) (keys (PI_allocated info)))"

definition ipam_take :: "'b bitset \<Rightarrow> unit \<Rightarrow> string \<Rightarrow> 'b fam \<Rightarrow> ((string \<times> nat) \<times> 'b fam) option" where
  "ipam_take bs ch p f =
     (case alloc_fam bs p f of (None, f') \<Rightarrow> None | (Some loc, f') \<Rightarrow> Some (loc, f'))"

definition ipam_give :: "'b bitset \<Rightarrow> string \<Rightarrow> string \<times> nat \<Rightarrow> 'b fam \<Rightarrow> 'b fam" where
  "ipam_give bs p loc f = release_fam bs p f"

lemma loc_owner_holds:
  assumes "fam_ok bs f"
  shows "loc_owner f (c, off) = Some p \<longleftrightarrow> holds (fst f) p c off"
proof (cases "map_of (fst f) c")
  case (Some info)
  let ?P = "\<lambda>p. map_of (PI_allocated info) p = Some off"
  have own: "loc_owner f (c, off) = find ?P (keys (PI_allocated info))"
    using Some by (simp add: loc_owner_def)
  have "find ?P (keys (PI_allocated info)) = Some p \<longleftrightarrow> ?P p"
  proof
    assume "?P p"
    then have "p \<in> set (keys (PI_allocated info))" using map_of_None_keys by (metis option.distinct(1))
    from find_not_None [where P = ?P, OF this \<open>?P p\<close>]
    obtain q where q: "find ?P (keys (PI_allocated info)) = Some q" by (cases "find ?P (keys (PI_allocated info))") simp_all
    then have "?P q" using find_Some_D [OF q] by simp
    then have "q = p" using info_inj [OF fam_info [OF assms Some]] \<open>?P p\<close> by simp
    then show "find ?P (keys (PI_allocated info)) = Some p" using q by simp
  next
    assume "find ?P (keys (PI_allocated info)) = Some p"
    then show "?P p" using find_Some_D [of ?P] by blast
  qed
  then show ?thesis using own Some by (simp add: holds_def)
qed (simp add: loc_owner_def holds_def)

lemma loc_owner_None:
  assumes "fam_ok bs f"
  shows "loc_owner f (c, off) = None \<longleftrightarrow> (\<nexists>p. holds (fst f) p c off)"
  using loc_owner_holds [OF assms, of c off] by (cases "loc_owner f (c, off)") auto

lemma option_eqI:
  assumes "\<And>v. x = Some v \<longleftrightarrow> y = Some v"
  shows "x = y"
  using assms by (metis not_None_eq)

locale prefix_bitset =
  fixes bs :: "'b bitset"
  assumes laws: "bitset_laws bs"

sublocale prefix_bitset \<subseteq> ipam: ip_allocator "fam_ok bs" loc_owner "\<lambda>p. True" "ipam_take bs" "ipam_give bs"
proof unfold_locales
  fix f f' :: "'b fam" and p a and ch :: unit
  assume f: "fam_ok bs f" and "ipam_take bs ch p f = Some (a, f')"
  then obtain c off where a: "a = (c, off)" and al: "alloc_fam bs p f = (Some (c, off), f')"
    by (cases a) (auto simp: ipam_take_def split: prod.splits option.splits)
  show f': "fam_ok bs f'" using alloc_fam_ok [OF laws f, of p] al by simp
  show "loc_owner f a = None \<or> loc_owner f a = Some p"
    using alloc_fam_holds(2) [OF laws f al] by (simp add: a loc_owner_None [OF f] loc_owner_holds [OF f])
  show "loc_owner f' = (loc_owner f)(a \<mapsto> p)"
  proof
    fix l :: "string \<times> nat"
    obtain d j where l: "l = (d, j)" by (cases l)
    have "loc_owner f' (d, j) = Some q \<longleftrightarrow> ((loc_owner f)(a \<mapsto> p)) (d, j) = Some q" for q
    proof (cases "(d, j) = a")
      case True
      have "holds (fst f') p c off" using alloc_fam_holds(1) [OF laws f al] by blast
      then have "loc_owner f' (d, j) = Some p" using True a by (simp add: loc_owner_holds [OF f'])
      then show ?thesis using True by simp
    next
      case False
      then show ?thesis
        using alloc_fam_holds(1) [OF laws f al, of q d j] a
        by (auto simp: loc_owner_holds [OF f'] loc_owner_holds [OF f])
    qed
    then show "loc_owner f' l = ((loc_owner f)(a \<mapsto> p)) l"
      unfolding l by (rule option_eqI)
  qed
next
  fix f :: "'b fam" and p a
  assume f: "fam_ok bs f"
  show r: "fam_ok bs (ipam_give bs p a f)" using release_fam_ok(1) [OF laws f] by (simp add: ipam_give_def)
  fix b :: "string \<times> nat"
  obtain d j where b: "b = (d, j)" by (cases b)
  show "loc_owner (ipam_give bs p a f) b = loc_owner f b \<or>
        loc_owner f b = Some p \<and> loc_owner (ipam_give bs p a f) b = None"
  proof (cases "loc_owner f b")
    case None
    then have "loc_owner (ipam_give bs p a f) b = None"
      using release_fam_ok [OF laws f, of p] unfolding b ipam_give_def
      by (simp add: loc_owner_None [OF f] loc_owner_None [OF release_fam_ok(1) [OF laws f]])
    then show ?thesis using None by simp
  next
    case (Some q)
    then have q: "holds (fst f) q d j" using loc_owner_holds [OF f] b by simp
    show ?thesis
    proof (cases "q = p")
      case True
      have "\<not> holds (fst (release_fam bs p f)) r d j" for r
        using release_fam_ok(2) [OF laws f, of p r d j] holds_inj [OF f q, of r] True by auto
      then have "loc_owner (ipam_give bs p a f) b = None"
        unfolding b ipam_give_def by (simp add: loc_owner_None [OF release_fam_ok(1) [OF laws f]])
      then show ?thesis using Some True by simp
    next
      case False
      then have "holds (fst (release_fam bs p f)) q d j"
        using release_fam_ok(2) [OF laws f, of p q d j] q by simp
      then have "loc_owner (ipam_give bs p a f) b = Some q"
        unfolding b ipam_give_def by (simp add: loc_owner_holds [OF release_fam_ok(1) [OF laws f]])
      then show ?thesis using Some by simp
    qed
  qed
qed

text \<open>A bitmap as a list of bits has the laws.\<close>

definition list_bitset :: "bool list bitset" where
  "list_bitset =
     \<lparr>bs_New = (\<lambda>n. replicate n False), bs_Len = length, bs_Test = (\<lambda>b i. i < length b \<and> b ! i),
      bs_Set = (\<lambda>i b. b[i := True]), bs_Clear = (\<lambda>i b. b[i := False]),
      bs_NextClear = (\<lambda>b i. find (\<lambda>j. \<not> b ! j) [i..<length b])\<rparr>"

lemma find_upt_least: "find P [i..<n] = Some j \<Longrightarrow> i \<le> j \<and> j < n \<and> P j \<and> (\<forall>k. i \<le> k \<longrightarrow> k < j \<longrightarrow> \<not> P k)"
proof (induction "n - i" arbitrary: i)
  case (Suc d)
  then have "i < n" by simp
  then have upt: "[i..<n] = i # [Suc i..<n]" by (rule upt_conv_Cons)
  show ?case
  proof (cases "P i")
    case True
    then show ?thesis using Suc.prems \<open>i < n\<close> upt by auto
  next
    case False
    then have "find P [Suc i..<n] = Some j" using Suc.prems upt by simp
    then have IH: "Suc i \<le> j \<and> j < n \<and> P j \<and> (\<forall>k. Suc i \<le> k \<longrightarrow> k < j \<longrightarrow> \<not> P k)"
      using Suc.hyps(1) [of "Suc i"] Suc.hyps(2) by simp
    have "\<not> P k" if "i \<le> k" "k < j" for k
      using False IH that by (cases "k = i") auto
    then show ?thesis using IH by auto
  qed
qed simp

lemma list_bitset_laws: "bitset_laws list_bitset"
proof -
  have none: "find (\<lambda>j. \<not> b ! j) [i..<length b] = None \<longrightarrow> (\<forall>j. i \<le> j \<longrightarrow> j < length b \<longrightarrow> j < length b \<and> b ! j)"
    for b :: "bool list" and i
    by (auto dest: find_None_D)
  have clear: "find (\<lambda>j. \<not> b ! j) [i..<length b] = Some j \<longrightarrow> i \<le> j \<and> \<not> (j < length b \<and> b ! j)"
    for b :: "bool list" and i j
    by (auto dest: find_upt_least)
  have least: "find (\<lambda>j. \<not> b ! j) [i..<length b] = Some j \<longrightarrow> i \<le> k \<longrightarrow> k < j \<longrightarrow> k < length b \<and> b ! k"
    for b :: "bool list" and i j k
  proof (intro impI)
    assume "find (\<lambda>j. \<not> b ! j) [i..<length b] = Some j" and k: "i \<le> k" "k < j"
    from find_upt_least [OF this(1)] have "j < length b" "\<forall>k. i \<le> k \<longrightarrow> k < j \<longrightarrow> b ! k" by simp_all
    with k show "k < length b \<and> b ! k" by simp
  qed
  have upd: "j < length (b[i := x]) \<and> b[i := x] ! j \<longleftrightarrow> (if j = i \<and> i < length b then x else j < length b \<and> b ! j)"
    for b :: "bool list" and i j x
    by (auto simp: nth_list_update)
  have upd2: "j < length b \<and> b[i := x] ! j \<longleftrightarrow> (if j = i \<and> i < length b then x else j < length b \<and> b ! j)"
    for b :: "bool list" and i j x
    using upd [of j b i x] by simp
  show ?thesis
    unfolding bitset_laws_def list_bitset_def bitset.simps
    by (intro conjI allI none clear least) (auto simp: upd2)
qed

interpretation lb: prefix_bitset list_bitset
  by unfold_locales (rule list_bitset_laws)

subsection \<open>Offsets and addresses\<close>

lemma prefixSize_bound:
  assumes "off < prefixSize c" and "ParseCIDR c = Some n"
  shows "int off < 2 ^ host_bits n" and "int off < 2 ^ 32" and "net_bits n = 128 \<Longrightarrow> int off < 65536"
proof -
  have ok: "net_ok n" using assms(2) by (rule ParseCIDR_ok)
  have bits: "net_bits n = 32 \<or> net_bits n = 128" using ok by (simp add: net_ok_def)
  have cases: "(host_bits n = 0 \<and> off = 0) \<or> off < 2 ^ host_bits n \<and> (net_bits n = 128 \<longrightarrow> off < 65536)"
  proof (cases "net_bits n = 128 \<and> host_bits n > 16")
    case True
    have "(65536 :: nat) = 2 ^ 16" by simp
    also have "\<dots> \<le> 2 ^ host_bits n" using True by (intro power_increasing) simp_all
    finally have "(65536 :: nat) \<le> 2 ^ host_bits n" .
    moreover have "off < 65536"
      using True assms by (simp add: prefixSize_def host_bits_def IPv6PrefixMaxAddresses_def Let_def split: if_splits)
    ultimately show ?thesis by linarith
  next
    case False
    have "net_bits n = 128 \<Longrightarrow> (2::nat) ^ host_bits n \<le> 2 ^ 16"
      using False by (intro power_increasing) simp_all
    then show ?thesis
      using False assms by (auto simp: prefixSize_def host_bits_def Let_def split: if_splits)
  qed
  then have "off < 2 ^ host_bits n" by auto
  then have "int off < int (2 ^ host_bits n)" by (simp only: of_nat_less_iff)
  then show less: "int off < 2 ^ host_bits n" by simp
  show "net_bits n = 128 \<Longrightarrow> int off < 65536" using cases by auto
  show "int off < 2 ^ 32"
    using bits
  proof
    assume "net_bits n = 32"
    then have "(2::int) ^ host_bits n \<le> 2 ^ 32" by (intro power_increasing) (simp_all add: host_bits_def)
    then show ?thesis using less by linarith
  next
    assume "net_bits n = 128"
    then show ?thesis using cases by auto
  qed
qed

text \<open>In a 128-bit network the offset stays inside the low 32 bits.\<close>

lemma low_room:
  assumes ok: "net_ok n" and "0 \<le> k" and "k < 2 ^ host_bits n" and "k < 2 ^ 32"
  shows "net_addr n mod 2 ^ 32 mod 2 ^ host_bits n = 0" and "net_addr n mod 2 ^ 32 + k < 2 ^ 32"
proof -
  let ?h = "host_bits n"
  have z: "2 ^ ?h dvd net_addr n" using ok by (simp add: net_ok_def mod_eq_0_iff_dvd)
  have "net_addr n mod 2 ^ 32 mod 2 ^ ?h = 0 \<and> net_addr n mod 2 ^ 32 + k < 2 ^ 32"
  proof (cases "?h \<le> 32")
    case True
    then have d: "(2::int) ^ ?h dvd 2 ^ 32" by (rule le_imp_power_dvd)
    then have r: "2 ^ ?h dvd net_addr n mod 2 ^ 32" using z by (rule dvd_mod [rotated])
    then obtain q where q: "net_addr n mod 2 ^ 32 = 2 ^ ?h * q" by (rule dvdE)
    obtain w where w: "(2::int) ^ 32 = 2 ^ ?h * w" using d by (rule dvdE)
    have "net_addr n mod 2 ^ 32 < 2 ^ 32" by simp
    then have "2 ^ ?h * q < 2 ^ ?h * w" using q w by simp
    then have "q + 1 \<le> w" by simp
    then have "2 ^ ?h * (q + 1) \<le> 2 ^ ?h * w" by (intro mult_left_mono) simp_all
    then have "net_addr n mod 2 ^ 32 + 2 ^ ?h \<le> 2 ^ 32" using q w by (simp add: distrib_left)
    then show ?thesis using r assms(3) by (simp add: mod_eq_0_iff_dvd)
  next
    case False
    then have "(2::int) ^ 32 dvd 2 ^ ?h" by (intro le_imp_power_dvd) simp
    then have "net_addr n mod 2 ^ 32 = 0" using z by (simp add: dvd_trans)
    then show ?thesis using assms(4) by simp
  qed
  then show "net_addr n mod 2 ^ 32 mod 2 ^ ?h = 0" and "net_addr n mod 2 ^ 32 + k < 2 ^ 32" by auto
qed

lemma uint32: "uint (word_of_int k :: 32 word) = k mod 2 ^ 32"
  by (simp add: uint_word_of_int)

lemma uint128: "uint (word_of_int k :: 128 word) = k mod 2 ^ 128"
  by (simp add: uint_word_of_int)

lemma calculateIP_in:
  assumes "off < prefixSize c" and c: "ParseCIDR c = Some n"
  obtains a where "calculateIP c off = Some a" and "net_has n a" and "offset_in n a = off"
proof -
  have ok: "net_ok n" using c by (rule ParseCIDR_ok)
  note b = prefixSize_bound [OF assms]
  note low = low_room [OF ok of_nat_0_le_iff b(1,2)]
  have bits: "net_bits n = 32 \<or> net_bits n = 128" and pos: "0 \<le> net_addr n" using ok by (simp_all add: net_ok_def)
  have room: "net_addr n + int off < 2 ^ net_bits n" using ok b(1) by (rule net_room)
  have off64: "int off mod 2 ^ 64 = int off" using b(2) by simp
  let ?r = "net_addr n mod 2 ^ 32"
  have small: "net_bits n = 32 \<Longrightarrow> ?r = net_addr n" using ok by (simp add: net_ok_def)
  have m32: "(net_addr n + int off) mod 2 ^ 32 = ?r + int off"
  proof -
    have "(net_addr n + int off) mod 2 ^ 32 = (?r + int off) mod 2 ^ 32" by (simp add: mod_add_left_eq)
    then show ?thesis using low(2) by simp
  qed
  have masked: "mask_addr (host_bits n) (?r + int off) = ?r"
    using low(1) b(1) by (intro mask_addr_add) simp_all
  show ?thesis
  proof (cases "net_To4 n")
    case True
    define w :: "32 word" where "w = word_of_int (net_addr n + int off)"
    let ?a = "Addr4 w"
    have u: "uint w = ?r + int off"
      by (simp only: w_def uint32 m32)
    show ?thesis
    proof (rule that)
      show "calculateIP c off = Some ?a" unfolding w_def using c True by (simp add: calculateIP_def)
      show "net_has n ?a" using True masked u by (simp add: net_has_def addr_norm_def net_norm_def)
      show "offset_in n ?a = off"
        using True u off64 by (simp add: offset_in_def Addr_num_def net_norm_def)
    qed
  next
    case False
    then have n128: "net_bits n = 128" using bits by (auto simp: net_To4_def)
    define w :: "128 word" where "w = word_of_int (net_addr n + int off)"
    let ?a = "Addr6 w"
    have u: "uint w = net_addr n + int off"
      using room pos n128 by (simp only: w_def uint128) (rule mod_pos_pos_trivial, simp_all)
    have "(net_addr n + int off) div 2 ^ 32 = net_addr n div 2 ^ 32"
    proof -
      have "net_addr n + int off = (?r + int off) + 2 ^ 32 * (net_addr n div 2 ^ 32)"
        using mod_mult_div_eq [of "net_addr n" "2 ^ 32"] by linarith
      then have "(net_addr n + int off) div 2 ^ 32 = net_addr n div 2 ^ 32 + (?r + int off) div 2 ^ 32"
        by (metis add.commute div_mult_self2 zero_neq_numeral power_not_zero)
      moreover have "(?r + int off) div 2 ^ 32 = 0" using low(2) by (intro div_pos_pos_trivial) simp_all
      ultimately show ?thesis by simp
    qed
    then have v6: "(net_addr n + int off) div 2 ^ 32 \<noteq> 65535" using False n128 by (simp add: net_To4_def)
    have m: "mask_addr (host_bits n) (net_addr n + int off) = net_addr n"
      using ok b(1) by (intro mask_addr_add) (simp_all add: net_ok_def)
    show ?thesis
    proof (rule that)
      show "calculateIP c off = Some ?a" unfolding w_def using c False by (simp add: calculateIP_def)
      show "net_has n ?a" using False m u v6 by (simp add: net_has_def addr_norm_def net_norm_def)
      show "offset_in n ?a = off"
        using False u off64 by (simp add: offset_in_def Addr_num_def net_norm_def)
    qed
  qed
qed

end
