(* ===== verification/PrefixPool.thy ===== *)
theory PrefixPool
  imports PrefixIPAM
begin

section \<open>What the prefix allocator guarantees\<close>

text \<open>
  The properties of \<^verbatim>\<open>pkg/eni/eni_local_ipam.go\<close>: which offset a pod is given and when a request
  fails, that nobody shares an address, that a release undoes an allocation, that the prefixes of
  the Node CR can change under running pods, and that a restart rebuilds what was handed out.
\<close>

subsection \<open>Counting\<close>

lemma info_vals:
  assumes "info_ok bs c info"
  shows "set (vals (PI_allocated info)) = {j. bs_Test bs (PI_bitmap info) j}"
    and "distinct (vals (PI_allocated info))"
    and "set (vals (PI_allocated info)) \<subseteq> {..<prefixSize c}"
proof -
  let ?a = "PI_allocated info"
  have mem: "(p, j) \<in> set ?a \<longleftrightarrow> map_of ?a p = Some j" for p j
    using info_gm [OF assms] by (simp add: gm_ok_def)
  show eq: "set (vals ?a) = {j. bs_Test bs (PI_bitmap info) j}"
    unfolding info_bit [OF assms] using mem by force
  show "set (vals ?a) \<subseteq> {..<prefixSize c}"
    using mem info_less [OF assms] by force
  have "inj_on snd (set ?a)"
  proof (rule inj_onI)
    fix x y assume xy: "x \<in> set ?a" "y \<in> set ?a" "snd x = snd y"
    obtain p i where x: "x = (p, i)" by (cases x)
    obtain q j where y: "y = (q, j)" by (cases y)
    have "p = q" using xy x y mem info_inj [OF assms, of p i q] by simp
    then show "x = y" using xy(3) x y by simp
  qed
  moreover have "distinct ?a" using info_gm [OF assms] by (simp add: gm_ok_def distinct_map)
  ultimately show "distinct (vals ?a)" by (simp add: distinct_map)
qed

lemma info_length:
  assumes "info_ok bs c info"
  shows "length (PI_allocated info) \<le> prefixSize c"
    and "length (PI_allocated info) = prefixSize c \<longleftrightarrow> (\<forall>j < prefixSize c. bs_Test bs (PI_bitmap info) j)"
proof -
  let ?v = "set (vals (PI_allocated info))"
  have len: "length (PI_allocated info) = card ?v"
    using distinct_card [OF info_vals(2) [OF assms]] by simp
  note sub = info_vals(3) [OF assms]
  have fin: "finite {..<prefixSize c}" by simp
  from card_mono [OF fin sub] len show "length (PI_allocated info) \<le> prefixSize c" by simp
  show "length (PI_allocated info) = prefixSize c \<longleftrightarrow> (\<forall>j < prefixSize c. bs_Test bs (PI_bitmap info) j)"
  proof
    assume "length (PI_allocated info) = prefixSize c"
    then have "?v = {..<prefixSize c}" using len sub by (intro card_subset_eq) simp_all
    then show "\<forall>j < prefixSize c. bs_Test bs (PI_bitmap info) j"
      using info_vals(1) [OF assms] by auto
  next
    assume "\<forall>j < prefixSize c. bs_Test bs (PI_bitmap info) j"
    then have "{..<prefixSize c} \<subseteq> ?v" using info_vals(1) [OF assms] by auto
    with sub have "?v = {..<prefixSize c}" by (rule subset_antisym)
    then show "length (PI_allocated info) = prefixSize c" using len by simp
  qed
qed

lemma prefixSize_le: "prefixSize c \<le> 2 ^ 32"
proof (rule ccontr)
  assume "\<not> ?thesis"
  then have "2 ^ 32 < prefixSize c" by simp
  then obtain n where "ParseCIDR c = Some n" by (auto simp: prefixSize_def split: option.splits)
  from prefixSize_bound(2) [OF \<open>2 ^ 32 < prefixSize c\<close> this] show False by simp
qed

text \<open>The unsigned difference never wraps.\<close>

lemma remain_exact:
  assumes "info_ok bs c info"
  shows "remain bs info = int (prefixSize c - length (PI_allocated info))"
proof -
  have "length (PI_allocated info) \<le> prefixSize c" by (rule info_length(1) [OF assms])
  moreover have "int (prefixSize c) \<le> int (2 ^ 32)" unfolding of_nat_le_iff by (rule prefixSize_le)
  ultimately show ?thesis by (simp add: remain_def info_Len [OF assms] of_nat_diff)
qed

lemma full_length:
  assumes "fam_ok bs f" and "map_of (fst f) c = Some info"
  shows "full bs (fst f) c \<longleftrightarrow> length (PI_allocated info) = prefixSize c"
  using info_length(2) [OF fam_info [OF assms]] assms(2) info_Len [OF fam_info [OF assms]]
  by (simp add: full_def)

subsection \<open>The candidates\<close>

lemma sortedValid_set:
  assumes "gm_ok m"
  shows "c \<in> set (sortedValidPrefixes bs m) \<longleftrightarrow> (\<exists>info. map_of m c = Some info \<and> PI_status info = IPPrefixStatusValid)"
  using assms by (force simp: sortedValidPrefixes_def gm_ok_def)

lemma sortedValid_order:
  assumes "gm_ok m" and "sortedValidPrefixes bs m = pre @ c # post" and "d \<in> set post"
    and "map_of m c = Some ci" and "map_of m d = Some di"
  shows "(remain bs ci, c) \<le> (remain bs di, d)"
proof -
  let ?key = "\<lambda>(cidr, info). (remain bs info, cidr)"
  let ?l = "sort_key ?key (filter (\<lambda>(cidr, info). PI_status info = IPPrefixStatusValid) m)"
  have l: "map fst ?l = pre @ c # post" using assms(2) by (simp add: sortedValidPrefixes_def)
  then obtain l1 y l2 where l2: "?l = l1 @ y # l2" "fst y = c" "map fst l2 = post"
    by (auto simp: map_eq_append_conv map_eq_Cons_conv)
  obtain z where z: "z \<in> set l2" "fst z = d" using assms(3) l2(3) by auto
  have sub: "set ?l \<subseteq> set m" by auto
  moreover have "y \<in> set ?l" "z \<in> set ?l" unfolding l2(1) using z(1) by simp_all
  ultimately have "y \<in> set m" "z \<in> set m" by blast+
  then have "map_of m (fst y) = Some (snd y)" "map_of m (fst z) = Some (snd z)"
    using gm_okD [OF assms(1)] by (metis prod.collapse)+
  then have yz: "y = (c, ci)" "z = (d, di)" using assms(4,5) l2(2) z(2) by (auto simp: prod_eq_iff)
  have "sorted (map ?key ?l)" by (rule sorted_sort_key)
  then have "sorted (map ?key (l1 @ y # l2))" unfolding l2(1) .
  then have "?key y \<le> ?key z" using z(1) by (simp add: sorted_append)
  then show ?thesis unfolding yz by simp
qed

subsection \<open>Disjoint prefixes\<close>

text \<open>Two networks, as \<^verbatim>\<open>Contains\<close> compares addresses with them, have no address in common.\<close>

definition nets_disjoint :: "IPNet \<Rightarrow> IPNet \<Rightarrow> bool" where
  "nets_disjoint n k \<longleftrightarrow> fst (net_norm n) \<noteq> fst (net_norm k) \<or>
     snd (net_norm n) + 2 ^ host_bits n \<le> snd (net_norm k) \<or> snd (net_norm k) + 2 ^ host_bits k \<le> snd (net_norm n)"

definition disjoint_prefixes :: "'b prefixMap \<Rightarrow> bool" where
  "disjoint_prefixes m \<longleftrightarrow> (\<forall>c \<in> set (keys m). \<forall>d \<in> set (keys m). c = d \<or>
     (case (ParseCIDR c, ParseCIDR d) of (Some n, Some k) \<Rightarrow> nets_disjoint n k | _ \<Rightarrow> True))"

lemma net_has_range:
  assumes "net_has n a"
  shows "fst (addr_norm a) = fst (net_norm n)" and "snd (net_norm n) \<le> snd (addr_norm a)"
    and "snd (addr_norm a) < snd (net_norm n) + 2 ^ host_bits n"
proof -
  let ?h = "2 ^ host_bits n :: int" and ?x = "snd (addr_norm a)"
  show "fst (addr_norm a) = fst (net_norm n)" using assms by (simp add: net_has_def)
  have m: "?x div ?h * ?h = snd (net_norm n)" using assms by (simp add: net_has_def mask_addr_def)
  have "0 \<le> ?x mod ?h" "?x mod ?h < ?h" by simp_all
  then show "snd (net_norm n) \<le> ?x" "?x < snd (net_norm n) + ?h"
    using m div_mult_mod_eq [of ?x ?h] by linarith+
qed

lemma nets_disjoint_has: "nets_disjoint n k \<Longrightarrow> net_has n a \<Longrightarrow> \<not> net_has k a"
  using net_has_range [of n a] net_has_range [of k a] unfolding nets_disjoint_def by linarith

lemma holds_key: "holds m p c off \<Longrightarrow> c \<in> set (keys m)"
  by (force simp: holds_def dest: map_of_SomeD)

lemma holds_same_address:
  assumes "fam_ok bs f" and "disjoint_prefixes (fst f)" and "holds (fst f) p c i" and "holds (fst f) q d j"
    and "loc_ip (Some (c, i)) = loc_ip (Some (d, j))"
  shows "q = p"
proof -
  have less: "i < prefixSize c" "j < prefixSize d" using assms(1,3,4) by (auto intro: holds_less)
  then obtain n k where nk: "ParseCIDR c = Some n" "ParseCIDR d = Some k"
    by (auto simp: prefixSize_def split: option.splits)
  obtain a where a: "calculateIP c i = Some a" "net_has n a" "offset_in n a = i"
    using less(1) nk(1) by (rule calculateIP_in)
  obtain b where b: "calculateIP d j = Some b" "net_has k b" "offset_in k b = j"
    using less(2) nk(2) by (rule calculateIP_in)
  have ab: "a = b" using assms(5) a(1) b(1) by (simp add: loc_ip_def)
  have "c = d"
  proof (rule ccontr)
    assume "c \<noteq> d"
    moreover have "c \<in> set (keys (fst f))" "d \<in> set (keys (fst f))" using assms(3,4) by (auto dest: holds_key)
    ultimately have "nets_disjoint n k" using assms(2) nk unfolding disjoint_prefixes_def by fastforce
    then show False using a(2) b(2) ab nets_disjoint_has by blast
  qed
  then have "i = j" using ab a(3) b(3) nk by simp
  then show ?thesis using \<open>c = d\<close> assms(1,3,4) by (auto intro: holds_inj)
qed

lemma alloc_exec_keys:
  assumes "bitset_laws bs" and "fam_ok bs f"
  shows "keys (fst (alloc_exec (ipam_take bs) (ipam_give bs) x f)) = keys (fst f)"
proof (cases x)
  case (Take ch p)
  from assms show ?thesis
    by (cases rule: alloc_fam_cases [where p = p]) (simp_all add: Take ipam_take_def)
next
  case (Give p a)
  then show ?thesis
    using release_fam_eq [OF assms(2), of p] by (simp add: ipam_give_def split: option.splits prod.splits)
qed

context prefix_bitset
begin

lemma run_keys: "fam_ok bs f \<Longrightarrow> keys (fst (alloc_run (ipam_take bs) (ipam_give bs) ops f)) = keys (fst f)"
  unfolding alloc_run_def
proof (induction ops arbitrary: f)
  case (Cons x ops)
  have "fam_ok bs (alloc_exec (ipam_take bs) (ipam_give bs) x f)" using Cons.prems by (intro ipam.exec_inv) simp_all
  from Cons.IH [OF this] show ?case using alloc_exec_keys [OF laws Cons.prems] by simp
qed simp

text \<open>Whoever is served last, after \<open>p\<close> was served and did not release, has another address.\<close>

lemma no_shared_address:
  assumes f: "fam_ok bs f" and dis: "disjoint_prefixes (fst f)"
    and p: "ipam_take bs ch p f = Some (a, f1)" and ops: "\<forall>b. Give p b \<notin> set ops"
    and q: "ipam_take bs ch2 q (alloc_run (ipam_take bs) (ipam_give bs) ops f1) = Some (b, f2)" and "q \<noteq> p"
  shows "loc_ip (Some a) \<noteq> loc_ip (Some b)"
proof
  assume same: "loc_ip (Some a) = loc_ip (Some b)"
  let ?r = "alloc_run (ipam_take bs) (ipam_give bs) ops f1"
  have f1: "fam_ok bs f1" using ipam.allocate_inv [OF f _ p] by simp
  have r: "fam_ok bs ?r" using ipam.run_inv [OF f1, of ops] by (simp add: list_all_iff)
  have f2: "fam_ok bs f2" using ipam.allocate_inv [OF r _ q] by simp
  have "loc_owner f1 a = Some p" using ipam.allocate_owner [OF f _ p] by simp
  then have pr: "loc_owner ?r a = Some p"
    using ipam.run_keeps [OF f1, of ops a p] ops by (simp add: list_all_iff)
  have o2: "loc_owner f2 = (loc_owner ?r)(b \<mapsto> q)" using ipam.allocate_owner [OF r _ q] by simp
  have "loc_owner ?r b = None \<or> loc_owner ?r b = Some q" using ipam.allocate_free [OF r _ q] by simp
  then have "b \<noteq> a" using pr \<open>q \<noteq> p\<close> by auto
  then have "holds (fst f2) p (fst a) (snd a)" "holds (fst f2) q (fst b) (snd b)"
    using o2 pr loc_owner_holds [OF f2, of "fst a" "snd a" p] loc_owner_holds [OF f2, of "fst b" "snd b" q] by simp_all
  moreover have "keys (fst f2) = keys (fst f)"
    using alloc_exec_keys [OF laws f, of "Take ch p"] alloc_exec_keys [OF laws r, of "Take ch2 q"] run_keys [OF f1, of ops] p q
    by simp
  then have "disjoint_prefixes (fst f2)" using dis by (simp add: disjoint_prefixes_def)
  ultimately have "q = p" using holds_same_address [OF f2, of p "fst a" "snd a" q "fst b" "snd b"] same by simp
  then show False using \<open>q \<noteq> p\<close> by simp
qed

lemma address_in_prefix:
  assumes "fam_ok bs f" and "ipam_take bs ch p f = Some (a, f1)"
  shows "\<exists>n ip. ParseCIDR (fst a) = Some n \<and> loc_ip (Some a) = Some ip \<and> net_has n ip"
proof -
  have f1: "fam_ok bs f1" using ipam.allocate_inv [OF assms(1) _ assms(2)] by simp
  have "loc_owner f1 a = Some p" using ipam.allocate_owner [OF assms(1) _ assms(2)] by simp
  then have "holds (fst f1) p (fst a) (snd a)" using loc_owner_holds [OF f1, of "fst a" "snd a" p] by simp
  then have less: "snd a < prefixSize (fst a)" by (rule holds_less [OF f1])
  then obtain n where n: "ParseCIDR (fst a) = Some n" by (auto simp: prefixSize_def split: option.splits)
  obtain ip where "calculateIP (fst a) (snd a) = Some ip" "net_has n ip" using less n by (rule calculateIP_in)
  then show ?thesis using n by (simp add: loc_ip_def case_prod_beta)
qed

end

subsection \<open>Properties\<close>

text \<open>
  C17: a pod that holds nothing in the family gets the lowest free offset of the fullest Valid
  prefix that still has room (ties broken by the text of the prefix), and nothing but that offset
  changes hands; the request is refused only if every Valid prefix is full, and then the
  allocator is unchanged.
\<close>

theorem AllocateIPv4_picks:
  assumes "bitset_laws bs" and "fam_ok bs (IPAM_v4 e)" and "map_of (snd (IPAM_v4 e)) p = None"
    and "AllocateIPv4 bs p e = (res, e')"
  shows "case res of
      None \<Rightarrow> e' = e \<and> (\<forall>c info. map_of (fst (IPAM_v4 e)) c = Some info \<longrightarrow> PI_status info = IPPrefixStatusValid \<longrightarrow>
                length (PI_allocated info) = prefixSize c)
    | Some ip \<Rightarrow> \<exists>c info off. map_of (fst (IPAM_v4 e)) c = Some info \<and> PI_status info = IPPrefixStatusValid \<and>
          calculateIP c off = Some ip \<and> off < prefixSize c \<and>
          (\<nexists>q. holds (fst (IPAM_v4 e)) q c off) \<and> (\<forall>j < off. \<exists>q. holds (fst (IPAM_v4 e)) q c j) \<and>
          (\<forall>d di. map_of (fst (IPAM_v4 e)) d = Some di \<longrightarrow> PI_status di = IPPrefixStatusValid \<longrightarrow>
             length (PI_allocated di) < prefixSize d \<longrightarrow>
             (prefixSize c - length (PI_allocated info), c) \<le> (prefixSize d - length (PI_allocated di), d)) \<and>
          (\<forall>q d j. holds (fst (IPAM_v4 e')) q d j \<longleftrightarrow> (q, d, j) = (p, c, off) \<or> holds (fst (IPAM_v4 e)) q d j)"
proof -
  let ?f = "IPAM_v4 e"
  note bs = assms(1) and ok = assms(2)
  note gm = fam_gm [OF ok]
  note valid = sortedValid_set [OF gm, where bs = bs]
  from bs ok show ?thesis
  proof (cases rule: alloc_fam_cases [where p = p])
    case (known c off)
    then have "map_of (snd ?f) p = Some c" using fam_pods [OF ok] by blast
    then show ?thesis using assms(3) by simp
  next
    case none
    have "length (PI_allocated info) = prefixSize c"
      if "map_of (fst ?f) c = Some info" "PI_status info = IPPrefixStatusValid" for c info
      using none(3) valid that full_length [OF ok that(1)] by blast
    moreover have "res = None" "e' = e" using none(2) assms(4) by (simp_all add: AllocateIPv4_def loc_ip_def)
    ultimately show ?thesis by simp
  next
    case (fresh pre c post off)
    obtain info where info: "map_of (fst ?f) c = Some info" "PI_status info = IPPrefixStatusValid"
      using fresh(2) valid [of c] by auto
    have nf: "off < prefixSize c" "\<nexists>q. holds (fst ?f) q c off" "\<forall>j < off. \<exists>q. holds (fst ?f) q c j"
      using fresh(4) next_free_holds [of bs "fst ?f" "snd ?f" c off] ok by simp_all
    obtain ip where ip: "calculateIP c off = Some ip" using prefixSize_parse [OF nf(1)] by auto
    have res: "res = Some ip" "e' = e\<lparr>IPAM_v4 := snd (alloc_fam bs p ?f)\<rparr>"
      using fresh(5) assms(4) ip by (simp_all add: AllocateIPv4_def loc_ip_def)
    have least: "(prefixSize c - length (PI_allocated info), c) \<le> (prefixSize d - length (PI_allocated di), d)"
      if d: "map_of (fst ?f) d = Some di" "PI_status di = IPPrefixStatusValid" "length (PI_allocated di) < prefixSize d" for d di
    proof (cases "d = c")
      case True
      then show ?thesis using info(1) d(1) by simp
    next
      case False
      have "d \<notin> set pre" using fresh(3) full_length [OF ok d(1)] d(3) by auto
      then have "d \<in> set post" using fresh(2) valid [of d] d False by auto
      from sortedValid_order [OF gm fresh(2) this info(1) d(1)] show ?thesis
        by (auto simp: remain_exact [OF fam_info [OF ok info(1)]] remain_exact [OF fam_info [OF ok d(1)]])
    qed
    have after: "holds (fst (IPAM_v4 e')) q d j \<longleftrightarrow> (q, d, j) = (p, c, off) \<or> holds (fst ?f) q d j" for q d j
      using alloc_fam_holds(1) [OF bs ok fresh(5), of q d j] res(2) fresh(5) by simp
    show ?thesis
      unfolding res(1) option.case
      by (rule exI [of _ c], rule exI [of _ info], rule exI [of _ off], intro conjI allI impI)
        (use info ip nf least after in simp_all)
  qed
qed

text \<open>
  C16: no two pods ever have the same address. When pod \<open>p\<close> was given a place, then after any
  sequence of allocations and releases in which \<open>p\<close> did not release, a place given to another
  pod has another address, provided the prefixes of the ENI are disjoint networks; and the address
  lies in the network of the pod's prefix.
\<close>

theorem prefix_no_shared_address:
  assumes "bitset_laws bs" and "fam_ok bs f" and "disjoint_prefixes (fst f)"
    and "ipam_take bs ch p f = Some (a, f1)" and "\<forall>b. Give p b \<notin> set ops"
    and "ipam_take bs ch2 q (alloc_run (ipam_take bs) (ipam_give bs) ops f1) = Some (b, f2)" and "q \<noteq> p"
  shows "loc_ip (Some a) \<noteq> loc_ip (Some b) \<and>
    (\<exists>n ip. ParseCIDR (fst a) = Some n \<and> loc_ip (Some a) = Some ip \<and> net_has n ip)"
proof -
  have bs: "prefix_bitset bs" using assms(1) by (rule prefix_bitset.intro)
  show ?thesis
    using prefix_bitset.no_shared_address [OF bs assms(2-7)] prefix_bitset.address_in_prefix [OF bs assms(2,4)] by simp
qed

text \<open>
  Asking again changes nothing: a second request of the same pod returns the same address and
  leaves the allocator as it is.
\<close>

theorem AllocateIPv4_idempotent:
  assumes "bitset_laws bs" and "fam_ok bs (IPAM_v4 e)" and "AllocateIPv4 bs p e = (Some ip, e')"
  shows "AllocateIPv4 bs p e' = (Some ip, e')"
proof -
  obtain loc f where al: "alloc_fam bs p (IPAM_v4 e) = (loc, f)" by (cases "alloc_fam bs p (IPAM_v4 e)")
  then have ip: "loc_ip loc = Some ip" and e': "e' = e\<lparr>IPAM_v4 := f\<rparr>"
    using assms(3) by (simp_all add: AllocateIPv4_def)
  obtain c off where loc: "loc = Some (c, off)" using ip by (auto simp: loc_ip_def split: option.splits)
  have f: "fam_ok bs f" using alloc_fam_ok [OF assms(1,2), of p] al by simp
  have "holds (fst f) p c off" using alloc_fam_holds(1) [OF assms(1,2), of p c off f p c off] al loc by simp
  then have "alloc_known p f = Some (c, off)" using alloc_known_eq [OF f] by simp
  then have "alloc_fam bs p f = (Some (c, off), f)" by (simp add: alloc_fam_def)
  then show ?thesis using e' ip loc by (simp add: AllocateIPv4_def)
qed

text \<open>
  C19: a release undoes an allocation: after \<^verbatim>\<open>AllocateIPv4\<close> for a new pod and \<^verbatim>\<open>ReleaseIPv4\<close>, the
  pod is unknown again, every other pod holds what it held before, and the invariant holds.
\<close>

theorem AllocateIPv4_ReleaseIPv4:
  assumes "bitset_laws bs" and "fam_ok bs (IPAM_v4 e)" and "map_of (snd (IPAM_v4 e)) p = None"
    and "AllocateIPv4 bs p e = (res, e1)" and "ReleaseIPv4 bs p e1 = e2"
  shows "fam_ok bs (IPAM_v4 e2) \<and> map_of (snd (IPAM_v4 e2)) p = None \<and>
    (\<forall>q c off. holds (fst (IPAM_v4 e2)) q c off \<longleftrightarrow> holds (fst (IPAM_v4 e)) q c off)"
proof -
  obtain loc f where al: "alloc_fam bs p (IPAM_v4 e) = (loc, f)" by (cases "alloc_fam bs p (IPAM_v4 e)")
  have e2: "IPAM_v4 e2 = release_fam bs p f" using assms(4,5) al by (auto simp: AllocateIPv4_def ReleaseIPv4_def)
  have f: "fam_ok bs f" using alloc_fam_ok [OF assms(1,2), of p] al by simp
  note rel = release_fam_ok [OF assms(1) f, of p]
  have new: "\<not> holds (fst (IPAM_v4 e)) p c off" for c off
    using fam_pods [OF assms(2), of p c] assms(3) by auto
  have keep: "q \<noteq> p \<Longrightarrow> holds (fst f) q c off \<longleftrightarrow> holds (fst (IPAM_v4 e)) q c off" for q c off
  proof (cases loc)
    case None
    have "f = IPAM_v4 e"
      using assms(1,2) al None by (cases rule: alloc_fam_cases [where p = p]) auto
    then show ?thesis by simp
  next
    case (Some l)
    assume "q \<noteq> p"
    then show ?thesis
      using alloc_fam_holds(1) [OF assms(1,2), of p "fst l" "snd l" f q c off] al Some by simp
  qed
  have "holds (fst (release_fam bs p f)) q c off \<longleftrightarrow> holds (fst (IPAM_v4 e)) q c off" for q c off
    using rel(2) [of q c off] keep [of q c off] new [of c off] by auto
  moreover have "map_of (snd (release_fam bs p f)) p = None"
    using fam_pods [OF rel(1), of p] rel(2) [of p] by (cases "map_of (snd (release_fam bs p f)) p") auto
  ultimately show ?thesis unfolding e2 using rel(1) by blast
qed

subsection \<open>Prefixes that come and go\<close>

text \<open>What one entry of the list makes of the map's entry with its name.\<close>

definition put_value :: "'b bitset \<Rightarrow> IPPrefix \<Rightarrow> 'b PrefixInfo option \<Rightarrow> 'b PrefixInfo option" where
  "put_value bs p old =
     (case old of
        Some info \<Rightarrow> if PX_Status p = IPPrefixStatusDeleting \<and> PI_allocated info = [] then None
                     else Some (info\<lparr>PI_status := PX_Status p\<rparr>)
      | None \<Rightarrow> if usable (PX_Status p) then Some (new_info bs p) else None)"

lemma map_of_put:
  "map_of (put_prefix bs p m) c = (if c = PX_Prefix p then put_value bs p (map_of m c) else map_of m c)"
  by (simp add: put_prefix_def put_value_def gm_simps Let_def split: option.splits)

lemma map_of_puts:
  "distinct (map PX_Prefix ps) \<Longrightarrow> map_of (fold (put_prefix bs) ps m) c =
     (case find (\<lambda>p. PX_Prefix p = c) ps of None \<Rightarrow> map_of m c | Some p \<Rightarrow> put_value bs p (map_of m c))"
proof (induction ps arbitrary: m)
  case (Cons p ps)
  have "find (\<lambda>q. PX_Prefix q = PX_Prefix p) ps = None"
    unfolding find_None_iff using Cons.prems by (metis distinct.simps(2) image_eqI list.simps(9) list.set_map)
  then show ?case using Cons by (auto simp: map_of_put split: option.splits)
qed simp

lemma map_of_drop:
  assumes "gm_ok m"
  shows "map_of (drop_removed new m) c =
     (case map_of m c of
        None \<Rightarrow> None
      | Some info \<Rightarrow> if map_of new c = None
                     then if PI_allocated info = [] then None else Some (info\<lparr>PI_status := IPPrefixStatusDeleting\<rparr>)
                     else Some info)"
  using assms
proof (induction m)
  case (Cons x m)
  obtain k v where x: "x = (k, v)" by (cases x)
  have "map_of m k = None" and "gm_ok m" using Cons.prems by (simp_all add: x gm_ok_def map_of_eq_None_iff)
  then show ?case using Cons.IH by (auto simp: x drop_removed_def split: option.splits)
qed (simp add: drop_removed_def)

lemma newPrefixMap_eq: "map_of (newPrefixMap ps) c = find (\<lambda>p. PX_Prefix p = c) (rev ps)"
proof -
  have "map_of (fold (\<lambda>p. AList.update (PX_Prefix p) p) ps m) c =
    (case find (\<lambda>p. PX_Prefix p = c) (rev ps) of None \<Rightarrow> map_of m c | Some p \<Rightarrow> Some p)" for m
  proof (induction ps rule: rev_induct)
    case (snoc p ps)
    then show ?case by (simp add: gm_simps)
  qed simp
  from this [of "[]"] show ?thesis by (simp add: newPrefixMap_def split: option.splits)
qed

lemma newPrefixMap_ok: "gm_ok (newPrefixMap ps) \<and> (\<forall>(k, p) \<in> set (newPrefixMap ps). k = PX_Prefix p)"
proof -
  have "gm_ok m \<and> (\<forall>(k, p) \<in> set m. k = PX_Prefix p) \<Longrightarrow>
    gm_ok (fold (\<lambda>p. AList.update (PX_Prefix p) p) ps m) \<and>
    (\<forall>(k, p) \<in> set (fold (\<lambda>p. AList.update (PX_Prefix p) p) ps m). k = PX_Prefix p)" for m
  proof (induction ps arbitrary: m)
    case (Cons p ps)
    have "set (AList.update (PX_Prefix p) p m) \<subseteq> set m \<union> {(PX_Prefix p, p)}" by (induction m) auto
    then have "\<forall>(k, q) \<in> set (AList.update (PX_Prefix p) p m). k = PX_Prefix q" using Cons.prems by fastforce
    then show ?case using Cons.IH [of "AList.update (PX_Prefix p) p m"] Cons.prems by simp
  qed simp
  from this [of "[]"] show ?thesis by (simp add: newPrefixMap_def)
qed

lemma newPrefixMap_vals:
  "distinct (map PX_Prefix (vals (newPrefixMap ps)))"
  "find (\<lambda>p. PX_Prefix p = c) (vals (newPrefixMap ps)) = map_of (newPrefixMap ps) c"
proof -
  note ok = newPrefixMap_ok [of ps]
  have "map PX_Prefix (vals (newPrefixMap ps)) = keys (newPrefixMap ps)" using ok by auto
  then show "distinct (map PX_Prefix (vals (newPrefixMap ps)))" using ok unfolding gm_ok_def by metis
  have "(\<forall>(k, p) \<in> set m. k = PX_Prefix p) \<Longrightarrow> find (\<lambda>p. PX_Prefix p = c) (vals m) = map_of m c" for m
    by (induction m) auto
  then show "find (\<lambda>p. PX_Prefix p = c) (vals (newPrefixMap ps)) = map_of (newPrefixMap ps) c" using ok by blast
qed

text \<open>One family after an update, name by name.\<close>

definition upd_value :: "'b bitset \<Rightarrow> IPPrefix option \<Rightarrow> 'b PrefixInfo option \<Rightarrow> 'b PrefixInfo option" where
  "upd_value bs new old =
     (case new of
        Some p \<Rightarrow> put_value bs p old
      | None \<Rightarrow> (case old of
                   None \<Rightarrow> None
                 | Some info \<Rightarrow> if PI_allocated info = [] then None else Some (info\<lparr>PI_status := IPPrefixStatusDeleting\<rparr>)))"

definition updated :: "'b bitset \<Rightarrow> IPPrefix list \<Rightarrow> 'b prefixMap \<Rightarrow> 'b prefixMap" where
  "updated bs ps m = fold (put_prefix bs) (vals (newPrefixMap ps)) (drop_removed (newPrefixMap ps) m)"

lemma map_of_updated:
  assumes "gm_ok m"
  shows "map_of (updated bs ps m) c = upd_value bs (find (\<lambda>p. PX_Prefix p = c) (rev ps)) (map_of m c)"
  unfolding updated_def map_of_puts [OF newPrefixMap_vals(1)] newPrefixMap_vals(2) map_of_drop [OF assms] newPrefixMap_eq
  by (simp add: upd_value_def split: option.splits)

lemma gm_ok_put: "gm_ok m \<Longrightarrow> gm_ok (put_prefix bs p m)"
  by (simp add: put_prefix_def Let_def split: option.splits)

lemma gm_ok_updated: "gm_ok m \<Longrightarrow> gm_ok (updated bs ps m)"
proof -
  assume "gm_ok m"
  then have "gm_ok (drop_removed new m)" for new
  proof -
    have "keys (drop_removed new m) =
      keys (filter (\<lambda>(prefix, info). \<not> (map_of new prefix = None \<and> length (PI_allocated info) = 0)) m)"
      unfolding drop_removed_def map_map by (rule map_cong) auto
    then show ?thesis using \<open>gm_ok m\<close> unfolding gm_ok_def by (metis distinct_map_filter)
  qed
  moreover have "gm_ok k \<Longrightarrow> gm_ok (fold (put_prefix bs) qs k)" for qs k
    by (induction qs arbitrary: k) (simp_all add: gm_ok_put)
  ultimately show ?thesis unfolding updated_def by blast
qed

lemma upd_value_alloc:
  "(\<exists>info. upd_value bs new old = Some info \<and> map_of (PI_allocated info) q = Some off) \<longleftrightarrow>
   (\<exists>info. old = Some info \<and> map_of (PI_allocated info) q = Some off)"
  by (auto simp: upd_value_def put_value_def new_info_def split: option.splits if_splits)

lemma holds_updated:
  assumes "gm_ok m"
  shows "holds (updated bs ps m) q c off \<longleftrightarrow> holds m q c off"
  unfolding holds_def map_of_updated [OF assms] by (rule upd_value_alloc)

lemma info_ok_status: "info_ok bs c (info\<lparr>PI_status := st\<rparr>) \<longleftrightarrow> info_ok bs c info"
  by (simp add: info_ok_def)

lemma info_ok_new: "bitset_laws bs \<Longrightarrow> info_ok bs (PX_Prefix p) (new_info bs p)"
  by (simp add: info_ok_def new_info_def bs_Len_New bs_Test_New)

lemma fam_ok_updated:
  assumes "bitset_laws bs" and "fam_ok bs f"
  shows "fam_ok bs (updated bs ps (fst f), snd f)"
proof (rule fam_okI)
  note gm = fam_gm [OF assms(2)]
  show "gm_ok (updated bs ps (fst f))" using gm by (rule gm_ok_updated)
  show "gm_ok (snd f)" by (rule fam_gm_pods [OF assms(2)])
  show "map_of (snd f) p = Some c \<longleftrightarrow> (\<exists>off. holds (updated bs ps (fst f)) p c off)" for p c
    unfolding holds_updated [OF gm] by (rule fam_pods [OF assms(2)])
  show "info_ok bs c info" if "map_of (updated bs ps (fst f)) c = Some info" for c info
  proof -
    have name: "find (\<lambda>p. PX_Prefix p = c) (rev ps) = Some p \<Longrightarrow> PX_Prefix p = c" for p
      by (drule find_Some_D) simp
    show ?thesis
      using that name unfolding map_of_updated [OF gm]
      by (auto simp: upd_value_def put_value_def info_ok_status info_ok_new [OF assms(1)] fam_info [OF assms(2)]
               split: option.splits if_splits)
  qed
qed

text \<open>
  C18: the prefixes of an ENI can change under running pods: \<^verbatim>\<open>UpdatePrefixes\<close> keeps the invariant
  and every allocation, whatever the new list says; from then on addresses are taken exactly from
  the prefixes whose last entry in the list is Valid, a prefix that left the list disappears
  unless a pod still holds an address of it, and the other family is untouched.
\<close>

theorem UpdatePrefixes_keeps:
  assumes "bitset_laws bs" and "fam_ok bs (IPAM_v4 e)"
  shows "fam_ok bs (IPAM_v4 (UpdatePrefixes bs ps False e)) \<and>
    (\<forall>q c off. holds (fst (IPAM_v4 (UpdatePrefixes bs ps False e))) q c off \<longleftrightarrow> holds (fst (IPAM_v4 e)) q c off) \<and>
    (\<forall>c. c \<in> set (sortedValidPrefixes bs (fst (IPAM_v4 (UpdatePrefixes bs ps False e)))) \<longleftrightarrow>
       (\<exists>p. find (\<lambda>p. PX_Prefix p = c) (rev ps) = Some p \<and> PX_Status p = IPPrefixStatusValid)) \<and>
    (\<forall>c. find (\<lambda>p. PX_Prefix p = c) (rev ps) = None \<longrightarrow>
       (c \<in> set (keys (fst (IPAM_v4 (UpdatePrefixes bs ps False e)))) \<longleftrightarrow> (\<exists>q off. holds (fst (IPAM_v4 e)) q c off))) \<and>
    IPAM_v6 (UpdatePrefixes bs ps False e) = IPAM_v6 e"
proof -
  let ?m = "fst (IPAM_v4 e)"
  have eq: "IPAM_v4 (UpdatePrefixes bs ps False e) = (updated bs ps ?m, snd (IPAM_v4 e))"
    "IPAM_v6 (UpdatePrefixes bs ps False e) = IPAM_v6 e"
    by (simp_all add: UpdatePrefixes_def updated_def Let_def)
  note gm = fam_gm [OF assms(2)]
  have valid: "c \<in> set (sortedValidPrefixes bs (updated bs ps ?m)) \<longleftrightarrow>
       (\<exists>p. find (\<lambda>p. PX_Prefix p = c) (rev ps) = Some p \<and> PX_Status p = IPPrefixStatusValid)" for c
    unfolding sortedValid_set [OF gm_ok_updated [OF gm]] map_of_updated [OF gm]
    by (auto simp: upd_value_def put_value_def new_info_def usable_def split: option.splits if_splits)
  have left: "c \<in> set (keys (updated bs ps ?m)) \<longleftrightarrow> (\<exists>q off. holds ?m q c off)"
    if "find (\<lambda>p. PX_Prefix p = c) (rev ps) = None" for c
  proof -
    have "c \<in> set (keys (updated bs ps ?m)) \<longleftrightarrow> (\<exists>info. map_of ?m c = Some info \<and> PI_allocated info \<noteq> [])"
      using map_of_None_keys [of "updated bs ps ?m" c] that unfolding map_of_updated [OF gm]
      by (auto simp: upd_value_def split: option.splits if_splits)
    moreover have "PI_allocated info \<noteq> [] \<longleftrightarrow> (\<exists>q off. map_of (PI_allocated info) q = Some off)" for info :: "'a PrefixInfo"
      by (cases "PI_allocated info") auto
    ultimately show ?thesis by (auto simp: holds_def)
  qed
  show ?thesis
    unfolding eq fst_conv using fam_ok_updated [OF assms] holds_updated [OF gm] valid left by blast
qed

subsection \<open>After a restart\<close>

lemma new_prefixes_info:
  assumes "bitset_laws bs"
  shows "gm_ok (new_prefixes bs ps)"
    and "map_of (new_prefixes bs ps) c = Some info \<Longrightarrow> info_ok bs c info \<and> PI_allocated info = []"
proof -
  let ?step = "\<lambda>p m. if usable (PX_Status p) then AList.update (PX_Prefix p) (new_info bs p) m else m"
  have "gm_ok m \<and> (\<forall>c info. map_of m c = Some info \<longrightarrow> info_ok bs c info \<and> PI_allocated info = []) \<Longrightarrow>
    gm_ok (fold ?step ps m) \<and>
    (\<forall>c info. map_of (fold ?step ps m) c = Some info \<longrightarrow> info_ok bs c info \<and> PI_allocated info = [])" for m
  proof (induction ps arbitrary: m)
    case (Cons p ps)
    have "gm_ok (?step p m)" using Cons.prems by simp
    moreover have "info_ok bs c info \<and> PI_allocated info = []" if "map_of (?step p m) c = Some info" for c info
    proof (cases "usable (PX_Status p) \<and> c = PX_Prefix p")
      case True
      then have "info = new_info bs p" using that by (simp add: gm_simps)
      then show ?thesis using True info_ok_new [OF assms] by (simp add: new_info_def)
    next
      case False
      then have "map_of m c = Some info" using that by (auto simp: gm_simps split: if_splits)
      then show ?thesis using Cons.prems by blast
    qed
    ultimately have "gm_ok (?step p m) \<and>
      (\<forall>c info. map_of (?step p m) c = Some info \<longrightarrow> info_ok bs c info \<and> PI_allocated info = [])" by blast
    from Cons.IH [OF this] show ?case unfolding fold_simps(2) .
  next
    case Nil
    then show ?case unfolding fold_simps(1) .
  qed
  from this [of "[]"] have ok: "gm_ok (new_prefixes bs ps) \<and>
    (\<forall>c info. map_of (new_prefixes bs ps) c = Some info \<longrightarrow> info_ok bs c info \<and> PI_allocated info = [])"
    unfolding new_prefixes_def by simp
  then show "gm_ok (new_prefixes bs ps)" ..
  show "map_of (new_prefixes bs ps) c = Some info \<Longrightarrow> info_ok bs c info \<and> PI_allocated info = []"
    using ok by blast
qed

lemma new_prefixes_ok:
  assumes "bitset_laws bs"
  shows "fam_ok bs (new_prefixes bs ps, [])" and "\<not> holds (new_prefixes bs ps) q c off"
proof -
  show no: "\<not> holds (new_prefixes bs ps) q c off" for q c off
    using new_prefixes_info(2) [OF assms, of ps c] by (auto simp: holds_def)
  show "fam_ok bs (new_prefixes bs ps, [])"
  proof (rule fam_okI)
    show "info_ok bs c info" if "map_of (new_prefixes bs ps) c = Some info" for c info
      using new_prefixes_info(2) [OF assms that] by simp
  qed (simp_all add: no new_prefixes_info(1) [OF assms])
qed

text \<open>The offset found for an IPv4 address leads back to the address.\<close>

lemma offset_in_calculateIP:
  assumes c: "ParseCIDR c = Some n" and has: "net_has n (Addr4 w)"
  shows "calculateIP c (offset_in n (Addr4 w)) = Some (Addr4 w)"
proof -
  have to4: "net_To4 n" using has by (auto simp: net_has_def addr_norm_def net_norm_def split: if_splits)
  let ?r = "net_addr n mod 2 ^ 32"
  have "?r \<le> uint w" using net_has_range(2) [OF has] to4 by (simp add: net_norm_def addr_norm_def)
  moreover have w: "uint w < 2 ^ 32" using unsigned_less [of w] by simp
  moreover have "0 \<le> ?r" by simp
  ultimately have off: "int (offset_in n (Addr4 w)) = uint w - ?r"
    using to4 by (simp add: offset_in_def Addr_num_def net_norm_def)
  have "(net_addr n + int (offset_in n (Addr4 w))) mod 2 ^ 32 = (?r + int (offset_in n (Addr4 w))) mod 2 ^ 32"
    by (simp add: mod_add_left_eq)
  also have "\<dots> = uint w" unfolding off using w by simp
  finally have "word_of_int (net_addr n + int (offset_in n (Addr4 w))) = w"
    by (simp only: uint32 word_uint_eq_iff)
  then show ?thesis using c to4 by (simp add: calculateIP_def)
qed

definition covered :: "'b prefixMap \<Rightarrow> addr \<Rightarrow> bool" where
  "covered m a \<longleftrightarrow> (\<exists>c \<in> set (keys m).
     case ParseCIDR c of None \<Rightarrow> False | Some n \<Rightarrow> net_has n a \<and> offset_in n a < prefixSize c)"

lemma findPrefix_covered:
  assumes f: "fam_ok bs (m, pods)" and ord: "range_order ord" and cov: "covered m (Addr4 w)"
  obtains c off info where "findPrefixContainingIP bs ord (Addr4 w) m = Some (c, off)" and "map_of m c = Some info"
    and "off < prefixSize c" and "calculateIP c off = Some (Addr4 w)"
proof -
  let ?P = "\<lambda>k. case (map_of m k, ParseCIDR k) of
      (Some info, Some n) \<Rightarrow> net_has n (Addr4 w) \<and> offset_in n (Addr4 w) < bs_Len bs (PI_bitmap info) | _ \<Rightarrow> False"
  have len: "map_of m k = Some info \<Longrightarrow> bs_Len bs (PI_bitmap info) = prefixSize k" for k info
    using info_Len [OF fam_info [OF f, of k info]] by simp
  obtain k n where k: "k \<in> set (keys m)" "ParseCIDR k = Some n" "net_has n (Addr4 w)" "offset_in n (Addr4 w) < prefixSize k"
    using cov by (auto simp: covered_def split: option.splits)
  obtain info where "map_of m k = Some info" using k(1) map_of_None_keys [of m k] by auto
  then have "?P k" using k len by simp
  moreover have "k \<in> set (ord (keys m))" using k(1) range_order_set [OF ord, of "keys m"] by simp
  ultimately have "find ?P (ord (keys m)) \<noteq> None" by (rule find_not_None [rotated])
  then obtain c where c: "find ?P (ord (keys m)) = Some c" by blast
  have "?P c" using find_Some_D [OF c] by simp
  then obtain ci cn where ci: "map_of m c = Some ci" "ParseCIDR c = Some cn" "net_has cn (Addr4 w)"
    "offset_in cn (Addr4 w) < prefixSize c"
    using len by (auto split: option.splits)
  show ?thesis
  proof (rule that)
    show "findPrefixContainingIP bs ord (Addr4 w) m = Some (c, offset_in cn (Addr4 w))"
      unfolding findPrefixContainingIP_def c using ci(2) by simp
    show "map_of m c = Some ci" "offset_in cn (Addr4 w) < prefixSize c" by (fact ci)+
    show "calculateIP c (offset_in cn (Addr4 w)) = Some (Addr4 w)" by (rule offset_in_calculateIP [OF ci(2,3)])
  qed
qed

lemma restore_fam_step:
  assumes bs: "bitset_laws bs" and ord: "range_order ord" and f: "fam_ok bs f"
    and ip: "ip \<noteq> []" "ParseAddr ip = Some (Addr4 w)" and p: "map_of (snd f) p = None"
    and cov: "covered (fst f) (Addr4 w)"
    and free: "\<forall>q c off. holds (fst f) q c off \<longrightarrow> calculateIP c off \<noteq> Some (Addr4 w)"
  shows "\<exists>c off. calculateIP c off = Some (Addr4 w) \<and> fam_ok bs (restore_fam bs ord p ip f) \<and>
    keys (fst (restore_fam bs ord p ip f)) = keys (fst f) \<and>
    (\<forall>q d j. holds (fst (restore_fam bs ord p ip f)) q d j \<longleftrightarrow> (q, d, j) = (p, c, off) \<or> holds (fst f) q d j)"
proof -
  obtain m pods where fam: "f = (m, pods)" by (cases f)
  have fm: "fam_ok bs (m, pods)" and cm: "covered m (Addr4 w)" and pm: "map_of pods p = None"
    using f cov p fam by simp_all
  from fm ord cm obtain c off info where c: "findPrefixContainingIP bs ord (Addr4 w) m = Some (c, off)"
    "map_of m c = Some info" "off < prefixSize c" "calculateIP c off = Some (Addr4 w)"
    by (rule findPrefix_covered)
  have "\<not> bs_Test bs (PI_bitmap info) off"
    using holds_bit [OF fm, of c info off] c(2,4) free fam by auto
  note tk = fam_ok_take [OF bs fm c(2,3) this pm]
  have r: "restore_fam bs ord p ip f = (gm_adjust c (take_offset bs p off) m, AList.update p c pods)"
    using ip c(1) fam by (simp add: restore_fam_def)
  show ?thesis
    by (rule exI [of _ c], rule exI [of _ off]) (use c(4) tk r fam in simp)
qed

subsection \<open>A node with two prefixes\<close>

definition wit_ipam :: "bool list ENILocalIPAM" where
  "wit_ipam =
     \<lparr>IPAM_eniID = ''eni-1'', IPAM_eniMAC = ''00:16:3e:00:00:01'', IPAM_gatewayIP = no_IPSet, IPAM_vSwitchCIDR = no_IPNetSet,
      IPAM_vSwitchID = ''vsw-1'', IPAM_trafficMode = NetworkInterfaceTrafficModeStandard, IPAM_enableERDMA = False,
      IPAM_unschedulable = False,
      IPAM_v4 = (new_prefixes list_bitset
                   [\<lparr>PX_Prefix = ''10.0.0.16/31'', PX_Status = IPPrefixStatusValid, PX_FrozenExpireAt = 0\<rparr>,
                    \<lparr>PX_Prefix = ''10.0.0.0/30'', PX_Status = IPPrefixStatusValid, PX_FrozenExpireAt = 0\<rparr>], []),
      IPAM_v6 = ([], [])\<rparr>"

lemma wit_ipam_ok: "fam_ok list_bitset (IPAM_v4 wit_ipam)" "map_of (snd (IPAM_v4 wit_ipam)) p = None"
  by (simp_all add: wit_ipam_def new_prefixes_ok(1) [OF list_bitset_laws])

lemma wit_ipam_disjoint: "disjoint_prefixes (fst (IPAM_v4 wit_ipam))"
  by code_simp

lemma fst_pair: "fst x = a \<Longrightarrow> x = (a, snd x)"
  by auto

definition wit_e1 :: "bool list ENILocalIPAM" where
  "wit_e1 = snd (AllocateIPv4 list_bitset ''ns/a'' wit_ipam)"

lemma wit_allocate: "AllocateIPv4 list_bitset ''ns/a'' wit_ipam = (Some (Addr4 167772176), wit_e1)"
proof -
  have "fst (AllocateIPv4 list_bitset ''ns/a'' wit_ipam) = Some (Addr4 167772176)" by code_simp
  then show ?thesis unfolding wit_e1_def by (rule fst_pair)
qed

theorem AllocateIPv4_picks_witness:
  "\<exists>c info off. map_of (fst (IPAM_v4 wit_ipam)) c = Some info \<and> PI_status info = IPPrefixStatusValid \<and>
     calculateIP c off = Some (Addr4 167772176) \<and> off < prefixSize c \<and> (\<nexists>q. holds (fst (IPAM_v4 wit_ipam)) q c off)"
  using AllocateIPv4_picks [OF list_bitset_laws wit_ipam_ok wit_allocate] unfolding option.case
  by (elim exE conjE) (intro exI conjI; assumption)

definition wit_f1 :: "bool list fam" where
  "wit_f1 = snd (alloc_fam list_bitset ''ns/a'' (IPAM_v4 wit_ipam))"

definition wit_ops :: "(unit, string, string \<times> nat) alloc_op list" where
  "wit_ops = [Take () ''ns/b'', Take () ''ns/c'', Give ''ns/b'' (''10.0.0.16/31'', 1)]"

lemma wit_alloc_fam: "alloc_fam list_bitset ''ns/a'' (IPAM_v4 wit_ipam) = (Some (''10.0.0.16/31'', 0), wit_f1)"
proof -
  have "fst (alloc_fam list_bitset ''ns/a'' (IPAM_v4 wit_ipam)) = Some (''10.0.0.16/31'', 0)" by code_simp
  then show ?thesis unfolding wit_f1_def by (rule fst_pair)
qed

lemma wit_take: "ipam_take list_bitset () ''ns/a'' (IPAM_v4 wit_ipam) = Some ((''10.0.0.16/31'', 0), wit_f1)"
  by (simp only: ipam_take_def wit_alloc_fam prod.case option.case)

lemma wit_pods_differ: "(''ns/d'' = ''ns/a'') = False"
  by simp

lemma wit_take2:
  "map_option fst (ipam_take list_bitset () ''ns/d'' (alloc_run (ipam_take list_bitset) (ipam_give list_bitset) wit_ops wit_f1)) =
     Some (''10.0.0.16/31'', 1)"
  by code_simp

lemma map_fst_Some: "map_option fst x = Some a \<Longrightarrow> \<exists>y. x = Some (a, y)"
  by (cases x) auto

theorem prefix_no_shared_address_witness:
  "loc_ip (Some (''10.0.0.16/31'', 0)) \<noteq> loc_ip (Some (''10.0.0.16/31'', 1)) \<and>
   (\<exists>n ip. ParseCIDR ''10.0.0.16/31'' = Some n \<and> loc_ip (Some (''10.0.0.16/31'', 0)) = Some ip \<and> net_has n ip)"
proof -
  obtain f2 where q: "ipam_take list_bitset () ''ns/d'' (alloc_run (ipam_take list_bitset) (ipam_give list_bitset) wit_ops wit_f1) =
    Some ((''10.0.0.16/31'', 1), f2)"
    using map_fst_Some [OF wit_take2] by blast
  have "\<forall>b. Give ''ns/a'' b \<notin> set wit_ops" by (simp add: wit_ops_def)
  from prefix_no_shared_address [OF list_bitset_laws wit_ipam_ok(1) wit_ipam_disjoint wit_take this q]
  show ?thesis unfolding fst_conv by (simp only: wit_pods_differ simp_thms)
qed

theorem AllocateIPv4_idempotent_witness:
  "AllocateIPv4 list_bitset ''ns/a'' wit_e1 = (Some (Addr4 167772176), wit_e1)"
  by (rule AllocateIPv4_idempotent [OF list_bitset_laws wit_ipam_ok(1) wit_allocate])

theorem AllocateIPv4_ReleaseIPv4_witness:
  "map_of (snd (IPAM_v4 (ReleaseIPv4 list_bitset ''ns/a'' wit_e1))) ''ns/a'' = None"
  using AllocateIPv4_ReleaseIPv4 [OF list_bitset_laws wit_ipam_ok wit_allocate refl] by blast

theorem UpdatePrefixes_keeps_witness:
  "holds (fst wit_f1) ''ns/a'' ''10.0.0.16/31'' 0 \<and>
   holds (fst (IPAM_v4 (UpdatePrefixes list_bitset [] False (wit_ipam\<lparr>IPAM_v4 := wit_f1\<rparr>)))) ''ns/a'' ''10.0.0.16/31'' 0"
proof -
  have ok: "fam_ok list_bitset (IPAM_v4 (wit_ipam\<lparr>IPAM_v4 := wit_f1\<rparr>))"
    using alloc_fam_ok [OF list_bitset_laws wit_ipam_ok(1)] by (simp add: wit_f1_def)
  have h: "holds (fst wit_f1) ''ns/a'' ''10.0.0.16/31'' 0"
    using alloc_fam_holds(1) [OF list_bitset_laws wit_ipam_ok(1) wit_alloc_fam] by blast
  moreover have "IPAM_v4 (wit_ipam\<lparr>IPAM_v4 := wit_f1\<rparr>) = wit_f1" by simp
  ultimately show ?thesis
    using UpdatePrefixes_keeps [OF list_bitset_laws ok, of "[]"] by metis
qed

end
