(* ===== verification/LocalDelegate.thy ===== *)
theory LocalDelegate
  imports LocalENI PrefixPool
begin

section \<open>The delegate of the prefix allocators (pkg/eni/local_delegate.go)\<close>

text \<open>
  One prefix allocator per ENI of the Node CR: a request tries the ENIs in the order of the map,
  a release goes to the ENI named in the resource, the start-up builds the allocators and
  restores the recorded pods, and every change of the Node CR is taken over. \<open>Get\<close> of the CR is an
  argument (\<open>None\<close> where it failed); the goroutine that waits for a change of the CR before it
  tries again is a function of the changes it sees. Metrics are left out.
\<close>

record 'b LocalDelegate =
  LD_eniIPAMs :: "(string, 'b ENILocalIPAM) gomap"
  LD_enableIPv4 :: bool
  LD_enableIPv6 :: bool
  LD_enableERDMA :: bool

definition NewLocalDelegate :: "bool \<Rightarrow> bool \<Rightarrow> 'b LocalDelegate" where
  "NewLocalDelegate enableIPv4 enableIPv6 =
     \<lparr>LD_eniIPAMs = [], LD_enableIPv4 = enableIPv4, LD_enableIPv6 = enableIPv6, LD_enableERDMA = False\<rparr>"

definition LD_Priority :: int where
  "LD_Priority = 200"

definition LD_Dispose :: "int \<Rightarrow> 'b LocalDelegate \<Rightarrow> int \<times> 'b LocalDelegate" where
  "LD_Dispose n l = (0, l)"

subsection \<open>Allocation\<close>

type_synonym 'b ipams = "(string, 'b ENILocalIPAM) gomap"

text \<open>The three loops of \<^verbatim>\<open>tryAllocateLocal\<close>: the ENI and the addresses it gave, and the allocators.\<close>

fun try_dual :: "'b bitset \<Rightarrow> string \<Rightarrow> string list \<Rightarrow> 'b ipams \<Rightarrow> (string \<times> addr \<times> addr) option \<times> 'b ipams" where
  "try_dual bs podID [] m = (None, m)"
| "try_dual bs podID (k # ks) m =
     (case map_of m k of
        None \<Rightarrow> try_dual bs podID ks m
      | Some ipam \<Rightarrow>
          if IPAM_unschedulable ipam then try_dual bs podID ks m
          else
            (case AllocateIPv4 bs podID ipam of
               (None, ipam1) \<Rightarrow> try_dual bs podID ks (AList.update k ipam1 m)
             | (Some v4, ipam1) \<Rightarrow>
                 (case AllocateIPv6 bs podID ipam1 of
                    (None, ipam2) \<Rightarrow> try_dual bs podID ks (AList.update k (ReleaseIPv4 bs podID ipam2) m)
                  | (Some v6, ipam2) \<Rightarrow> (Some (k, v4, v6), AList.update k ipam2 m))))"

fun try_v4 :: "'b bitset \<Rightarrow> string \<Rightarrow> string list \<Rightarrow> 'b ipams \<Rightarrow> (string \<times> addr \<times> addr) option \<times> 'b ipams" where
  "try_v4 bs podID [] m = (None, m)"
| "try_v4 bs podID (k # ks) m =
     (case map_of m k of
        None \<Rightarrow> try_v4 bs podID ks m
      | Some ipam \<Rightarrow>
          if IPAM_unschedulable ipam then try_v4 bs podID ks m
          else
            (case AllocateIPv4 bs podID ipam of
               (None, ipam1) \<Rightarrow> try_v4 bs podID ks (AList.update k ipam1 m)
             | (Some v4, ipam1) \<Rightarrow> (Some (k, v4, NoAddr), AList.update k ipam1 m)))"

fun try_v6 :: "'b bitset \<Rightarrow> string \<Rightarrow> string list \<Rightarrow> 'b ipams \<Rightarrow> (string \<times> addr \<times> addr) option \<times> 'b ipams" where
  "try_v6 bs podID [] m = (None, m)"
| "try_v6 bs podID (k # ks) m =
     (case map_of m k of
        None \<Rightarrow> try_v6 bs podID ks m
      | Some ipam \<Rightarrow>
          if IPAM_unschedulable ipam then try_v6 bs podID ks m
          else
            (case AllocateIPv6 bs podID ipam of
               (None, ipam1) \<Rightarrow> try_v6 bs podID ks (AList.update k ipam1 m)
             | (Some v6, ipam1) \<Rightarrow> (Some (k, NoAddr, v6), AList.update k ipam1 m)))"

text \<open>The resource the caller gets, from the allocator that served it.\<close>

definition ipam_resource :: "string \<Rightarrow> 'b ENILocalIPAM \<Rightarrow> addr \<Rightarrow> addr \<Rightarrow> LocalIPResource" where
  "ipam_resource podID ipam v4 v6 =
     \<lparr>Res_PodID = podID,
      Res_ENI = \<lparr>ENI_ID = IPAM_eniID ipam, ENI_MAC = IPAM_eniMAC ipam, ENI_Trunk = False, ENI_ERdma = IPAM_IsERDMA ipam,
                 ENI_PrimaryIPv4 = NoAddr, ENI_GatewayIP = IPAM_gatewayIP ipam, ENI_VSwitchCIDR = IPAM_vSwitchCIDR ipam,
                 ENI_VSwitchID = IPAM_vSwitchID ipam\<rparr>,
      Res_IPv4 = v4, Res_IPv6 = v6\<rparr>"

definition tryAllocateLocal ::
  "'b bitset \<Rightarrow> (string list \<Rightarrow> string list) \<Rightarrow> string \<Rightarrow> 'b LocalDelegate \<Rightarrow> LocalIPResource option \<times> 'b LocalDelegate" where
  "tryAllocateLocal bs ord podID l =
     (let ks = ord (keys (LD_eniIPAMs l));
          (res, m) = (if LD_enableIPv4 l \<and> LD_enableIPv6 l then try_dual bs podID ks (LD_eniIPAMs l)
                      else if LD_enableIPv4 l then try_v4 bs podID ks (LD_eniIPAMs l)
                      else if LD_enableIPv6 l then try_v6 bs podID ks (LD_eniIPAMs l)
                      else (None, LD_eniIPAMs l))
      in (case res of
            None \<Rightarrow> None
          | Some (k, v4, v6) \<Rightarrow> map_option (\<lambda>ipam. ipam_resource podID ipam v4 v6) (map_of m k),
          l\<lparr>LD_eniIPAMs := m\<rparr>))"

text \<open>
  \<^verbatim>\<open>Allocate\<close>: another type of resource and a delegate without allocators are left to the next
  interface; otherwise one goroutine tries now and again after every change of the Node CR it is
  told of, until its context is done. A change is the state the delegate is in when the goroutine
  runs; \<open>LDWait\<close> is a goroutine that is still waiting.
\<close>

datatype ld_alloc = LDRefuse "Trace list" | LDNext | LDServe

definition LD_Allocate :: "ResourceType \<Rightarrow> 'b LocalDelegate \<Rightarrow> ld_alloc" where
  "LD_Allocate rt l =
     (if rt \<noteq> ResourceTypeLocalIP \<and> rt \<noteq> ResourceTypeRDMA then LDRefuse [trace ResourceTypeMismatch]
      else if \<not> length (LD_eniIPAMs l) > 0 then LDNext
      else LDServe)"

datatype 'b ld_event = LDDone | LDChanged "string list \<Rightarrow> string list" "'b LocalDelegate"
datatype 'b ld_answer = LDWait | LDCancelled | LDAnswer LocalIPResource "'b LocalDelegate"

fun LD_serve :: "'b bitset \<Rightarrow> string \<Rightarrow> 'b ld_event list \<Rightarrow> 'b ld_answer" where
  "LD_serve bs podID [] = LDWait"
| "LD_serve bs podID (LDDone # evs) = LDCancelled"
| "LD_serve bs podID (LDChanged ord l # evs) =
     (case tryAllocateLocal bs ord podID l of
        (Some r, l') \<Rightarrow> LDAnswer r l'
      | (None, l') \<Rightarrow> LD_serve bs podID evs)"

subsection \<open>Release\<close>

text \<open>
  The map is searched for the allocator that carries the ENI of the resource. Keys and names
  agree in every state of the delegate (\<open>ipams_ok\<close>), so the order of the search does not matter.
\<close>

definition LD_Release :: "'b bitset \<Rightarrow> string \<Rightarrow> NetworkResource \<Rightarrow> 'b LocalDelegate \<Rightarrow> bool \<times> 'b LocalDelegate" where
  "LD_Release bs podID request l =
     (case request of
        RemoteRes e \<Rightarrow> (False, l)
      | LocalRes r \<Rightarrow>
          (case find (\<lambda>(k, ipam). IPAM_eniID ipam = ENI_ID (Res_ENI r)) (LD_eniIPAMs l) of
             None \<Rightarrow> (False, l)
           | Some (k, ipam) \<Rightarrow>
               let ipam = (if Res_IPv4 r \<noteq> NoAddr then ReleaseIPv4 bs podID ipam else ipam);
                   ipam = (if Res_IPv6 r \<noteq> NoAddr then ReleaseIPv6 bs podID ipam else ipam)
               in (True, l\<lparr>LD_eniIPAMs := AList.update k ipam (LD_eniIPAMs l)\<rparr>)))"

subsection \<open>Start-up\<close>

definition init_enis :: "'b bitset \<Rightarrow> bool \<Rightarrow> (string, Nic) gomap \<Rightarrow> 'b ipams \<Rightarrow> 'b ipams" where
  "init_enis bs erdma nics m =
     fold (\<lambda>(eniID, eni) m.
             if Nic_Status eni \<noteq> ''InUse'' then m
             else AList.update eniID (NewENILocalIPAMFromPrefix bs eniID (Nic_MacAddress eni) eni erdma) m) nics m"

definition restore_item ::
  "'b bitset \<Rightarrow> (string list \<Rightarrow> string list) \<Rightarrow> string \<times> ResourceItem \<Rightarrow> 'b ipams \<Rightarrow> 'b ipams" where
  "restore_item bs ord item m = (case item of (podID, res) \<Rightarrow>
     if Item_Type res = ResourceTypeENIIP \<and> Item_ENIID res \<noteq> [] then
       gm_adjust (Item_ENIID res) (RestorePod bs ord podID (Item_IPv4 res) (Item_IPv6 res) (Item_ENIID res)) m
     else m)"

text \<open>A record without its pod (\<^verbatim>\<open>PodInfo == nil\<close>) is \<open>None\<close>.\<close>

definition doInit ::
  "'b bitset \<Rightarrow> (string list \<Rightarrow> string list) \<Rightarrow> Node option \<Rightarrow> PodResources option list \<Rightarrow> 'b LocalDelegate \<Rightarrow>
   'b LocalDelegate option" where
  "doInit bs ord nodeCR podResources l =
     (case nodeCR of
        None \<Rightarrow> None
      | Some nodeCR \<Rightarrow>
          (case NS_ENISpec (Node_Spec nodeCR) of
             None \<Rightarrow> None
           | Some spec \<Rightarrow>
               let l = l\<lparr>LD_enableERDMA := ES_EnableERDMA spec\<rparr>;
                   m = init_enis bs (ES_EnableERDMA spec) (St_NetworkInterfaces (Node_Status nodeCR)) (LD_eniIPAMs l);
                   items = pod_items (List.map_filter (\<lambda>p. p) podResources)
               in Some (l\<lparr>LD_eniIPAMs := fold (restore_item bs ord) items m\<rparr>)))"

subsection \<open>Changes of the Node CR\<close>

definition sync_eni :: "'b bitset \<Rightarrow> bool \<Rightarrow> string \<times> Nic \<Rightarrow> 'b ipams \<Rightarrow> 'b ipams" where
  "sync_eni bs erdma nic m = (case nic of (eniID, eni) \<Rightarrow>
     if Nic_Status eni \<noteq> ''InUse'' then m
     else case map_of m eniID of
            None \<Rightarrow> AList.update eniID (NewENILocalIPAMFromPrefix bs eniID (Nic_MacAddress eni) eni erdma) m
          | Some ipam \<Rightarrow>
              AList.update eniID
                (UpdatePrefixes bs (Nic_IPv6Prefix eni) True
                  (UpdatePrefixes bs (Nic_IPv4Prefix eni) False (IPAM_SetUnschedulable (Nic_Unschedulable eni) ipam))) m)"

text \<open>An ENI that left the CR drains; an allocator without prefixes is dropped.\<close>

definition drain_eni :: "'b bitset \<Rightarrow> (string, Nic) gomap \<Rightarrow> string \<times> 'b ENILocalIPAM \<Rightarrow> string \<times> 'b ENILocalIPAM" where
  "drain_eni bs nics x = (case x of (eniID, ipam) \<Rightarrow>
     (eniID, if map_of nics eniID = None then UpdatePrefixes bs [] True (UpdatePrefixes bs [] False ipam) else ipam))"

definition syncNodeCR :: "'b bitset \<Rightarrow> Node option \<Rightarrow> 'b LocalDelegate \<Rightarrow> 'b LocalDelegate" where
  "syncNodeCR bs nodeCR l =
     (case nodeCR of
        None \<Rightarrow> l
      | Some nodeCR \<Rightarrow>
          let nics = St_NetworkInterfaces (Node_Status nodeCR);
              m = fold (sync_eni bs (LD_enableERDMA l)) nics (LD_eniIPAMs l)
          in l\<lparr>LD_eniIPAMs := filter (\<lambda>(eniID, ipam). \<not> IPAM_IsEmpty ipam) (map (drain_eni bs nics) m)\<rparr>)"

subsection \<open>Who holds what\<close>

text \<open>The places a family has given out, and the invariant of one allocator.\<close>

definition fam_held :: "'b fam \<Rightarrow> (string \<times> string \<times> nat) set" where
  "fam_held f = {(p, c, off). holds (fst f) p c off}"

definition ipam_ok :: "'b bitset \<Rightarrow> string \<Rightarrow> 'b ENILocalIPAM \<Rightarrow> bool" where
  "ipam_ok bs k ipam \<longleftrightarrow> IPAM_eniID ipam = k \<and> fam_ok bs (IPAM_v4 ipam) \<and> fam_ok bs (IPAM_v6 ipam)"

text \<open>Every Valid prefix of the family is used up.\<close>

definition fam_full :: "'b fam \<Rightarrow> bool" where
  "fam_full f \<longleftrightarrow> (\<forall>(c, info) \<in> set (fst f). PI_status info = IPPrefixStatusValid \<longrightarrow>
     length (PI_allocated info) = prefixSize c)"

lemma ipam_okD:
  assumes "ipam_ok bs k ipam"
  shows "IPAM_eniID ipam = k" and "fam_ok bs (IPAM_v4 ipam)" and "fam_ok bs (IPAM_v6 ipam)"
  using assms by (simp_all add: ipam_ok_def)

lemma held_pods:
  assumes "fam_ok bs f"
  shows "map_of (snd f) p = None \<longleftrightarrow> (\<forall>a. (p, a) \<notin> fam_held f)"
proof (cases "map_of (snd f) p")
  case None
  then show ?thesis using fam_pods [OF assms, of p] by (simp add: fam_held_def)
next
  case (Some c)
  then have "\<exists>off. holds (fst f) p c off" using fam_pods [OF assms, of p c] by simp
  then show ?thesis using Some by (auto simp: fam_held_def)
qed

text \<open>One family, asked for a pod that holds nothing in it.\<close>

lemma alloc_fam_new:
  assumes "bitset_laws bs" and "fam_ok bs f" and "\<forall>a. (p, a) \<notin> fam_held f"
  obtains (none) "alloc_fam bs p f = (None, f)" and "fam_full f"
  | (some) a f' ip where "alloc_fam bs p f = (Some a, f')" and "loc_ip (Some a) = Some ip" and "fam_ok bs f'"
      and "\<forall>q. (q, a) \<notin> fam_held f" and "fam_held f' = insert (p, a) (fam_held f)"
proof -
  have p: "map_of (snd f) p = None" using held_pods [OF assms(2)] assms(3) by blast
  from assms(1,2) show ?thesis
  proof (cases rule: alloc_fam_cases [where p = p])
    case (known c off)
    then show ?thesis using assms(3) by (auto simp: fam_held_def)
  next
    case N: none
    have "fam_full f"
      unfolding fam_full_def
    proof (intro ballI, clarify)
      fix c info assume ci: "(c, info) \<in> set (fst f)" and v: "PI_status info = IPPrefixStatusValid"
      have m: "map_of (fst f) c = Some info" using gm_okD [OF fam_gm [OF assms(2)] ci] .
      then have "c \<in> set (sortedValidPrefixes bs (fst f))" using v sortedValid_set [OF fam_gm [OF assms(2)]] by blast
      then show "length (PI_allocated info) = prefixSize c" using N(3) full_length [OF assms(2) m] by blast
    qed
    then show ?thesis using N(2) by (intro none)
  next
    case (fresh pre c post off)
    let ?f = "snd (alloc_fam bs p f)"
    have al: "alloc_fam bs p f = (Some (c, off), ?f)" using fresh(5) by simp
    have ok: "fam_ok bs ?f" by (rule alloc_fam_ok [OF assms(1,2)])
    have nf: "off < prefixSize c" "\<nexists>q. holds (fst f) q c off"
      using fresh(4) next_free_holds [of bs "fst f" "snd f" c off] assms(2) by simp_all
    obtain ip where ip: "loc_ip (Some (c, off)) = Some ip" using prefixSize_parse [OF nf(1)] by (auto simp: loc_ip_def)
    have "fam_held ?f = insert (p, c, off) (fam_held f)"
      using alloc_fam_holds(1) [OF assms(1,2) al] by (auto simp: fam_held_def)
    then show ?thesis using al ip ok nf(2) by (intro some) (auto simp: fam_held_def)
  qed
qed

lemma release_fam_held:
  assumes "bitset_laws bs" and "fam_ok bs f"
  shows "fam_ok bs (release_fam bs p f)" and "fam_held (release_fam bs p f) = {x \<in> fam_held f. fst x \<noteq> p}"
  using release_fam_ok [OF assms] by (auto simp: fam_held_def)

subsection \<open>One ENI\<close>

text \<open>What the loops do at one ENI, for the families that are enabled.\<close>

definition attempt :: "'b bitset \<Rightarrow> bool \<Rightarrow> bool \<Rightarrow> string \<Rightarrow> 'b ENILocalIPAM \<Rightarrow> (addr \<times> addr) option \<times> 'b ENILocalIPAM" where
  "attempt bs en4 en6 p ipam =
     (if en4 then
        (case AllocateIPv4 bs p ipam of
           (None, ipam1) \<Rightarrow> (None, ipam1)
         | (Some v4, ipam1) \<Rightarrow>
             if en6 then
               (case AllocateIPv6 bs p ipam1 of
                  (None, ipam2) \<Rightarrow> (None, ReleaseIPv4 bs p ipam2)
                | (Some v6, ipam2) \<Rightarrow> (Some (v4, v6), ipam2))
             else (Some (v4, NoAddr), ipam1))
      else
        (case AllocateIPv6 bs p ipam of (None, ipam1) \<Rightarrow> (None, ipam1) | (Some v6, ipam1) \<Rightarrow> (Some (NoAddr, v6), ipam1)))"

fun try_enis :: "'b bitset \<Rightarrow> bool \<Rightarrow> bool \<Rightarrow> string \<Rightarrow> string list \<Rightarrow> 'b ipams \<Rightarrow> (string \<times> addr \<times> addr) option \<times> 'b ipams" where
  "try_enis bs en4 en6 p [] m = (None, m)"
| "try_enis bs en4 en6 p (k # ks) m =
     (case map_of m k of
        None \<Rightarrow> try_enis bs en4 en6 p ks m
      | Some ipam \<Rightarrow>
          if IPAM_unschedulable ipam then try_enis bs en4 en6 p ks m
          else
            (case attempt bs en4 en6 p ipam of
               (None, ipam') \<Rightarrow> try_enis bs en4 en6 p ks (AList.update k ipam' m)
             | (Some (v4, v6), ipam') \<Rightarrow> (Some (k, v4, v6), AList.update k ipam' m)))"

lemma try_enis_eq:
  "try_dual bs p ks m = try_enis bs True True p ks m"
  "try_v4 bs p ks m = try_enis bs True False p ks m"
  "try_v6 bs p ks m = try_enis bs False True p ks m"
proof -
  show "try_dual bs p ks m = try_enis bs True True p ks m"
    by (induction bs p ks m rule: try_dual.induct) (simp_all add: attempt_def split: option.splits prod.splits)
  show "try_v4 bs p ks m = try_enis bs True False p ks m"
    by (induction bs p ks m rule: try_v4.induct) (simp_all add: attempt_def split: option.splits prod.splits)
  show "try_v6 bs p ks m = try_enis bs False True p ks m"
    by (induction bs p ks m rule: try_v6.induct) (simp_all add: attempt_def split: option.splits prod.splits)
qed

text \<open>What one family of an ENI went through: served the pod with an address, or nothing at all.\<close>

definition served :: "bool \<Rightarrow> string \<Rightarrow> addr \<Rightarrow> (string \<times> string \<times> nat) set \<Rightarrow> (string \<times> string \<times> nat) set \<Rightarrow> bool" where
  "served en p ip old new \<longleftrightarrow>
     (if en then \<exists>a. loc_ip (Some a) = Some ip \<and> (\<forall>q. (q, a) \<notin> old) \<and> new = insert (p, a) old
      else ip = NoAddr \<and> new = old)"

definition fresh_pod :: "string \<Rightarrow> 'b ENILocalIPAM \<Rightarrow> bool" where
  "fresh_pod p ipam \<longleftrightarrow> (\<forall>a. (p, a) \<notin> fam_held (IPAM_v4 ipam) \<and> (p, a) \<notin> fam_held (IPAM_v6 ipam))"

lemma loc_ip_None: "loc_ip None = None"
  by (simp add: loc_ip_def)

lemma attempt_new:
  assumes bs: "bitset_laws bs" and ok: "ipam_ok bs k ipam" and new: "fresh_pod p ipam" and en: "en4 \<or> en6"
  shows "case attempt bs en4 en6 p ipam of
      (None, ipam') \<Rightarrow> ipam_ok bs k ipam' \<and> fam_held (IPAM_v4 ipam') = fam_held (IPAM_v4 ipam) \<and>
        fam_held (IPAM_v6 ipam') = fam_held (IPAM_v6 ipam) \<and>
        (en4 \<and> fam_full (IPAM_v4 ipam) \<or> en6 \<and> fam_full (IPAM_v6 ipam))
    | (Some (v4, v6), ipam') \<Rightarrow> ipam_ok bs k ipam' \<and>
        served en4 p v4 (fam_held (IPAM_v4 ipam)) (fam_held (IPAM_v4 ipam')) \<and>
        served en6 p v6 (fam_held (IPAM_v6 ipam)) (fam_held (IPAM_v6 ipam'))"
proof -
  have n4: "\<forall>a. (p, a) \<notin> fam_held (IPAM_v4 ipam)" and n6: "\<forall>a. (p, a) \<notin> fam_held (IPAM_v6 ipam)"
    using new by (simp_all add: fresh_pod_def)
  note okD = ipam_okD [OF ok]
  have six: "case alloc_fam bs p (IPAM_v6 ipam) of
      (None, f) \<Rightarrow> f = IPAM_v6 ipam \<and> fam_full f
    | (Some a, f) \<Rightarrow> fam_ok bs f \<and> (\<exists>ip. loc_ip (Some a) = Some ip \<and>
        served True p ip (fam_held (IPAM_v6 ipam)) (fam_held f))"
    using bs okD(3) n6
    by (cases rule: alloc_fam_new) (auto simp: served_def)
  have four: "case alloc_fam bs p (IPAM_v4 ipam) of
      (None, f) \<Rightarrow> f = IPAM_v4 ipam \<and> fam_full f
    | (Some a, f) \<Rightarrow> fam_ok bs f \<and> (\<exists>ip. loc_ip (Some a) = Some ip \<and>
        served True p ip (fam_held (IPAM_v4 ipam)) (fam_held f))"
    using bs okD(2) n4
    by (cases rule: alloc_fam_new) (auto simp: served_def)
  obtain r4 f4 where a4: "alloc_fam bs p (IPAM_v4 ipam) = (r4, f4)" by (cases "alloc_fam bs p (IPAM_v4 ipam)")
  obtain r6 f6 where a6: "alloc_fam bs p (IPAM_v6 ipam) = (r6, f6)" by (cases "alloc_fam bs p (IPAM_v6 ipam)")
  note A = attempt_def AllocateIPv4_def AllocateIPv6_def ReleaseIPv4_def ipam_ok_def
  have rolled: "fam_ok bs (release_fam bs p f4)" "fam_held (release_fam bs p f4) = fam_held (IPAM_v4 ipam)"
    if "r4 = Some a" for a
  proof -
    have f4: "fam_ok bs f4" "\<exists>ip. served True p ip (fam_held (IPAM_v4 ipam)) (fam_held f4)"
      using four a4 that by auto
    show "fam_ok bs (release_fam bs p f4)" by (rule release_fam_held(1) [OF bs f4(1)])
    show "fam_held (release_fam bs p f4) = fam_held (IPAM_v4 ipam)"
      unfolding release_fam_held(2) [OF bs f4(1)] using f4(2) n4 by (auto simp: served_def)
  qed
  show ?thesis
  proof (cases en4)
    case True
    show ?thesis
    proof (cases r4)
      case None
      then have "fam_full (IPAM_v4 ipam)" "f4 = IPAM_v4 ipam" using four a4 by auto
      then show ?thesis using a4 None okD True by (simp add: A loc_ip_def)
    next
      case S4: (Some a)
      then obtain ip4 where ip4: "loc_ip (Some a) = Some ip4" "fam_ok bs f4"
        "served True p ip4 (fam_held (IPAM_v4 ipam)) (fam_held f4)" using four a4 by auto
      show ?thesis
      proof (cases "en6 \<and> r6 = None")
        case T: True
        then have "fam_full (IPAM_v6 ipam)" "f6 = IPAM_v6 ipam" using six a6 by auto
        then show ?thesis using a4 a6 S4 ip4(1) T True okD rolled [OF S4] by (simp add: A loc_ip_None)
      next
        case F: False
        show ?thesis
        proof (cases en6)
          case False
          then show ?thesis using a4 S4 ip4 okD True by (simp add: A served_def)
        next
          case E: True
          then obtain b where r6: "r6 = Some b" using F by auto
          then obtain ip6 where "loc_ip (Some b) = Some ip6" "fam_ok bs f6"
            "served True p ip6 (fam_held (IPAM_v6 ipam)) (fam_held f6)" using six a6 by auto
          then show ?thesis using a4 a6 S4 r6 ip4 okD True E by (simp add: A)
        qed
      qed
    qed
  next
    case False
    then have "en6" using en by simp
    show ?thesis
    proof (cases r6)
      case None
      then have "fam_full (IPAM_v6 ipam)" "f6 = IPAM_v6 ipam" using six a6 by auto
      then show ?thesis using a6 None okD False \<open>en6\<close> by (simp add: A loc_ip_def)
    next
      case (Some b)
      then obtain ip6 where "loc_ip (Some b) = Some ip6" "fam_ok bs f6"
        "served True p ip6 (fam_held (IPAM_v6 ipam)) (fam_held f6)" using six a6 by auto
      then show ?thesis using a6 Some okD False \<open>en6\<close> by (simp add: A served_def)
    qed
  qed
qed

lemma ipam_frame [frame_simps]:
  "IPAM_unschedulable (snd (AllocateIPv4 bs p ipam)) = IPAM_unschedulable ipam"
  "IPAM_unschedulable (snd (AllocateIPv6 bs p ipam)) = IPAM_unschedulable ipam"
  "IPAM_unschedulable (ReleaseIPv4 bs p ipam) = IPAM_unschedulable ipam"
  by (simp_all add: AllocateIPv4_def AllocateIPv6_def ReleaseIPv4_def case_prod_beta)

lemma attempt_frame: "IPAM_unschedulable (snd (attempt bs en4 en6 p ipam)) = IPAM_unschedulable ipam"
  by (simp add: attempt_def case_prod_beta frame_simps split: option.splits)

subsection \<open>All ENIs\<close>

definition ipams_ok :: "'b bitset \<Rightarrow> 'b ipams \<Rightarrow> bool" where
  "ipams_ok bs m \<longleftrightarrow> gm_ok m \<and> (\<forall>k ipam. map_of m k = Some ipam \<longrightarrow> ipam_ok bs k ipam)"

definition held_by :: "('b ENILocalIPAM \<Rightarrow> 'b fam) \<Rightarrow> 'b ipams \<Rightarrow> string \<Rightarrow> (string \<times> string \<times> nat) set" where
  "held_by fam m k = (case map_of m k of None \<Rightarrow> {} | Some ipam \<Rightarrow> fam_held (fam ipam))"

lemma ipams_okD:
  assumes "ipams_ok bs m"
  shows "gm_ok m" and "map_of m k = Some ipam \<Longrightarrow> ipam_ok bs k ipam"
  using assms unfolding ipams_ok_def by blast+

lemma ipams_ok_update:
  assumes "ipams_ok bs m" and "ipam_ok bs k ipam"
  shows "ipams_ok bs (AList.update k ipam m)"
  unfolding ipams_ok_def using ipams_okD [OF assms(1)] assms(2) by (simp add: gm_simps)

lemma held_by_update: "held_by fam (AList.update k ipam m) j = (if j = k then fam_held (fam ipam) else held_by fam m j)"
  by (simp add: held_by_def gm_simps)

definition fresh_in :: "string \<Rightarrow> 'b ipams \<Rightarrow> bool" where
  "fresh_in p m \<longleftrightarrow> (\<forall>k ipam. map_of m k = Some ipam \<longrightarrow> fresh_pod p ipam)"

text \<open>Nobody could serve the pod, and nobody's holdings changed.\<close>

definition nobody :: "bool \<Rightarrow> bool \<Rightarrow> string list \<Rightarrow> 'b ipams \<Rightarrow> 'b ipams \<Rightarrow> bool" where
  "nobody en4 en6 ks m m' \<longleftrightarrow> (\<forall>k. held_by IPAM_v4 m' k = held_by IPAM_v4 m k \<and> held_by IPAM_v6 m' k = held_by IPAM_v6 m k) \<and>
     (\<forall>k \<in> set ks. \<forall>ipam. map_of m k = Some ipam \<longrightarrow> \<not> IPAM_unschedulable ipam \<longrightarrow>
        en4 \<and> fam_full (IPAM_v4 ipam) \<or> en6 \<and> fam_full (IPAM_v6 ipam))"

text \<open>One schedulable ENI served it, and nothing else changed hands.\<close>

definition somebody :: "bool \<Rightarrow> bool \<Rightarrow> string \<Rightarrow> string \<times> addr \<times> addr \<Rightarrow> 'b ipams \<Rightarrow> 'b ipams \<Rightarrow> bool" where
  "somebody en4 en6 p r m m' \<longleftrightarrow> (case r of (k, v4, v6) \<Rightarrow>
     (\<exists>ipam. map_of m k = Some ipam \<and> \<not> IPAM_unschedulable ipam) \<and> map_of m' k \<noteq> None \<and>
     served en4 p v4 (held_by IPAM_v4 m k) (held_by IPAM_v4 m' k) \<and>
     served en6 p v6 (held_by IPAM_v6 m k) (held_by IPAM_v6 m' k) \<and>
     (\<forall>j. j \<noteq> k \<longrightarrow> held_by IPAM_v4 m' j = held_by IPAM_v4 m j \<and> held_by IPAM_v6 m' j = held_by IPAM_v6 m j))"

lemma try_enis_spec:
  assumes "bitset_laws bs" and "en4 \<or> en6" and "ipams_ok bs m" and "fresh_in p m" and "distinct ks"
  shows "case try_enis bs en4 en6 p ks m of
      (None, m') \<Rightarrow> ipams_ok bs m' \<and> nobody en4 en6 ks m m'
    | (Some r, m') \<Rightarrow> ipams_ok bs m' \<and> somebody en4 en6 p r m m'"
  using assms(3-5)
proof (induction ks arbitrary: m)
  case Nil
  then show ?case by (simp add: nobody_def)
next
  case (Cons k ks)
  have ks: "distinct ks" "k \<notin> set ks" using Cons.prems(3) by simp_all
  consider (skip) "map_of m k = None \<or> (\<exists>ipam. map_of m k = Some ipam \<and> IPAM_unschedulable ipam)"
    | (visit) ipam where "map_of m k = Some ipam" "\<not> IPAM_unschedulable ipam"
    by (cases "map_of m k") auto
  then show ?case
  proof cases
    case skip
    then have eq: "try_enis bs en4 en6 p (k # ks) m = try_enis bs en4 en6 p ks m" by auto
    have "nobody en4 en6 ks m m' \<Longrightarrow> nobody en4 en6 (k # ks) m m'" for m'
      using skip by (auto simp: nobody_def)
    then show ?thesis unfolding eq using Cons.IH [OF Cons.prems(1,2) ks(1)] by (auto split: option.splits)
  next
    case visit
    have ok: "ipam_ok bs k ipam" by (rule ipams_okD(2) [OF Cons.prems(1) visit(1)])
    have new: "fresh_pod p ipam" using Cons.prems(2) visit(1) unfolding fresh_in_def by blast
    obtain r ipam' where at: "attempt bs en4 en6 p ipam = (r, ipam')" by (cases "attempt bs en4 en6 p ipam")
    note spec = attempt_new [OF assms(1) ok new assms(2), unfolded at prod.case]
    show ?thesis
    proof (cases r)
      case (Some vs)
      obtain v4 v6 where vs: "vs = (v4, v6)" by (cases vs)
      have eq: "try_enis bs en4 en6 p (k # ks) m = (Some (k, v4, v6), AList.update k ipam' m)"
        using visit at Some vs by simp
      have sp: "ipam_ok bs k ipam'" "served en4 p v4 (fam_held (IPAM_v4 ipam)) (fam_held (IPAM_v4 ipam'))"
        "served en6 p v6 (fam_held (IPAM_v6 ipam)) (fam_held (IPAM_v6 ipam'))"
        using spec Some vs by auto
      have "held_by IPAM_v4 m k = fam_held (IPAM_v4 ipam)" "held_by IPAM_v6 m k = fam_held (IPAM_v6 ipam)"
        using visit(1) by (simp_all add: held_by_def)
      then show ?thesis
        unfolding eq using sp visit ipams_ok_update [OF Cons.prems(1) sp(1)]
        by (simp add: somebody_def held_by_update gm_simps)
    next
      case None
      let ?m = "AList.update k ipam' m"
      have eq: "try_enis bs en4 en6 p (k # ks) m = try_enis bs en4 en6 p ks ?m"
        using visit at None by simp
      have sp: "ipam_ok bs k ipam'" "fam_held (IPAM_v4 ipam') = fam_held (IPAM_v4 ipam)"
        "fam_held (IPAM_v6 ipam') = fam_held (IPAM_v6 ipam)" "en4 \<and> fam_full (IPAM_v4 ipam) \<or> en6 \<and> fam_full (IPAM_v6 ipam)"
        using spec None by auto
      have same: "held_by IPAM_v4 ?m j = held_by IPAM_v4 m j" "held_by IPAM_v6 ?m j = held_by IPAM_v6 m j" for j
        using sp(2,3) visit(1) by (simp_all add: held_by_update) (simp_all add: held_by_def)
      have ok': "ipams_ok bs ?m" by (rule ipams_ok_update [OF Cons.prems(1) sp(1)])
      have new': "fresh_in p ?m"
        using Cons.prems(2) new sp(2,3) unfolding fresh_in_def by (auto simp: gm_simps fresh_pod_def split: if_splits)
      have un: "IPAM_unschedulable ipam' = IPAM_unschedulable ipam" using attempt_frame [of bs en4 en6 p ipam] at by simp
      have other: "map_of ?m j = Some x" if "j \<in> set ks" "map_of m j = Some x" for j x
        using that ks(2) by (auto simp: gm_simps)
      have N: "nobody en4 en6 (k # ks) m m'" if n: "nobody en4 en6 ks ?m m'" for m'
        unfolding nobody_def
      proof (intro conjI ballI allI impI)
        show "held_by IPAM_v4 m' j = held_by IPAM_v4 m j" "held_by IPAM_v6 m' j = held_by IPAM_v6 m j" for j
          using n same unfolding nobody_def by simp_all
        fix j x assume j: "j \<in> set (k # ks)" "map_of m j = Some x" "\<not> IPAM_unschedulable x"
        show "en4 \<and> fam_full (IPAM_v4 x) \<or> en6 \<and> fam_full (IPAM_v6 x)"
        proof (cases "j = k")
          case True
          then show ?thesis using j(2) visit(1) sp(4) by simp
        next
          case False
          then have jk: "j \<in> set ks" using j(1) by simp
          show ?thesis using n jk other [OF jk j(2)] j(3) unfolding nobody_def by blast
        qed
      qed
      have S: "somebody en4 en6 p r m m'" if "somebody en4 en6 p r ?m m'" for r m'
        using that visit un unfolding somebody_def same by (auto simp: gm_simps split: if_splits)
      show ?thesis
        unfolding eq using Cons.IH [OF ok' new' ks(1)] N S by (auto split: option.splits)
    qed
  qed
qed

subsection \<open>Serving a new pod\<close>

lemma tryAllocate_spec:
  assumes "bitset_laws bs" and "range_order ord" and "LD_enableIPv4 l \<or> LD_enableIPv6 l"
    and "ipams_ok bs (LD_eniIPAMs l)" and "fresh_in p (LD_eniIPAMs l)" and "tryAllocateLocal bs ord p l = (res, l')"
  shows "ipams_ok bs (LD_eniIPAMs l') \<and>
    (case res of
       None \<Rightarrow> nobody (LD_enableIPv4 l) (LD_enableIPv6 l) (keys (LD_eniIPAMs l)) (LD_eniIPAMs l) (LD_eniIPAMs l')
     | Some r \<Rightarrow> Res_PodID r = p \<and>
         somebody (LD_enableIPv4 l) (LD_enableIPv6 l) p (ENI_ID (Res_ENI r), Res_IPv4 r, Res_IPv6 r)
           (LD_eniIPAMs l) (LD_eniIPAMs l'))"
proof -
  let ?m = "LD_eniIPAMs l" and ?en4 = "LD_enableIPv4 l" and ?en6 = "LD_enableIPv6 l"
  let ?ks = "ord (keys ?m)"
  have ks: "distinct ?ks" "set ?ks = set (keys ?m)"
    using ipams_okD(1) [OF assms(4)] assms(2) unfolding gm_ok_def range_order_def
    by (metis mset_eq_imp_distinct_iff) (rule range_order_set [OF assms(2)])
  obtain r m' where tr: "try_enis bs ?en4 ?en6 p ?ks ?m = (r, m')" by (cases "try_enis bs ?en4 ?en6 p ?ks ?m")
  have l': "l' = l\<lparr>LD_eniIPAMs := m'\<rparr>"
    and res: "res = (case r of None \<Rightarrow> None | Some (k, v4, v6) \<Rightarrow> map_option (\<lambda>ipam. ipam_resource p ipam v4 v6) (map_of m' k))"
    using assms(3,6) tr by (auto simp: tryAllocateLocal_def try_enis_eq Let_def split: if_splits)
  note spec = try_enis_spec [OF assms(1,3,4,5) ks(1), unfolded tr prod.case]
  show ?thesis
  proof (cases r)
    case None
    then show ?thesis using spec res l' ks(2) by (simp add: nobody_def)
  next
    case (Some x)
    obtain k v4 v6 where x: "x = (k, v4, v6)" by (cases x)
    have ok: "ipams_ok bs m'" and sb: "somebody ?en4 ?en6 p (k, v4, v6) ?m m'" using spec Some x by simp_all
    then obtain ipam where ipam: "map_of m' k = Some ipam" by (auto simp: somebody_def)
    have "IPAM_eniID ipam = k" using ipams_okD(2) [OF ok ipam] by (simp add: ipam_ok_def)
    then show ?thesis using res Some x ipam ok sb l' by (simp add: ipam_resource_def)
  qed
qed

text \<open>
  C12: a pod that holds no address is served by one ENI or by none. If it is served, the ENI is
  one of the delegate's that is not marked unschedulable, the pod gets an address nobody held for
  each enabled family and both of the same ENI, and nothing else changes hands. If it is not
  served, nobody's addresses changed (an IPv4 address taken on the way is given back), and every
  schedulable ENI has used up its Valid prefixes of an enabled family.
\<close>

theorem tryAllocateLocal_new_pod:
  assumes "bitset_laws bs" and "range_order ord" and "LD_enableIPv4 l \<or> LD_enableIPv6 l"
    and "ipams_ok bs (LD_eniIPAMs l)" and "fresh_in p (LD_eniIPAMs l)" and "tryAllocateLocal bs ord p l = (res, l')"
  shows "ipams_ok bs (LD_eniIPAMs l') \<and>
    (case res of
       None \<Rightarrow> nobody (LD_enableIPv4 l) (LD_enableIPv6 l) (keys (LD_eniIPAMs l)) (LD_eniIPAMs l) (LD_eniIPAMs l')
     | Some r \<Rightarrow> Res_PodID r = p \<and>
         somebody (LD_enableIPv4 l) (LD_enableIPv6 l) p (ENI_ID (Res_ENI r), Res_IPv4 r, Res_IPv6 r)
           (LD_eniIPAMs l) (LD_eniIPAMs l'))"
  using assms by (rule tryAllocate_spec)

subsection \<open>Giving back\<close>

lemma calculateIP_valid: "calculateIP c off = Some ip \<Longrightarrow> ip \<noteq> NoAddr"
  by (auto simp: calculateIP_def split: option.splits if_splits)

lemma loc_ip_valid: "loc_ip (Some a) = Some ip \<Longrightarrow> ip \<noteq> NoAddr"
  by (cases a) (auto simp: loc_ip_def dest: calculateIP_valid)

lemma find_ipam:
  assumes "ipams_ok bs m" and "map_of m k = Some ipam"
  shows "find (\<lambda>(j, x). IPAM_eniID x = k) m = Some (k, ipam)"
proof -
  have "(k, ipam) \<in> set m" using assms(2) by (rule map_of_SomeD)
  moreover have "IPAM_eniID ipam = k" using ipams_okD(2) [OF assms] by (simp add: ipam_ok_def)
  ultimately obtain j x where f: "find (\<lambda>(j, x). IPAM_eniID x = k) m = Some (j, x)"
    using find_not_None [of "(k, ipam)" m "\<lambda>(j, x). IPAM_eniID x = k"] by auto
  have jx: "(j, x) \<in> set m" "IPAM_eniID x = k" using find_Some_D [OF f] by simp_all
  have x: "map_of m j = Some x" by (rule gm_okD [OF ipams_okD(1) [OF assms(1)] jx(1)])
  have "j = k" using ipams_okD(2) [OF assms(1) x] jx(2) by (simp add: ipam_ok_def)
  then show ?thesis using f x assms(2) by simp
qed

lemma LD_Release_spec:
  assumes bs: "bitset_laws bs" and ok: "ipams_ok bs (LD_eniIPAMs l)"
    and k: "map_of (LD_eniIPAMs l) (ENI_ID (Res_ENI r)) = Some ipam"
  shows "fst (LD_Release bs p (LocalRes r) l)" and "ipams_ok bs (LD_eniIPAMs (snd (LD_Release bs p (LocalRes r) l)))"
    and "held_by IPAM_v4 (LD_eniIPAMs (snd (LD_Release bs p (LocalRes r) l))) j =
      (if j = ENI_ID (Res_ENI r) \<and> Res_IPv4 r \<noteq> NoAddr then {x \<in> held_by IPAM_v4 (LD_eniIPAMs l) j. fst x \<noteq> p}
       else held_by IPAM_v4 (LD_eniIPAMs l) j)"
    and "held_by IPAM_v6 (LD_eniIPAMs (snd (LD_Release bs p (LocalRes r) l))) j =
      (if j = ENI_ID (Res_ENI r) \<and> Res_IPv6 r \<noteq> NoAddr then {x \<in> held_by IPAM_v6 (LD_eniIPAMs l) j. fst x \<noteq> p}
       else held_by IPAM_v6 (LD_eniIPAMs l) j)"
proof -
  let ?k = "ENI_ID (Res_ENI r)"
  define i1 where "i1 = (if Res_IPv4 r \<noteq> NoAddr then ReleaseIPv4 bs p ipam else ipam)"
  define i2 where "i2 = (if Res_IPv6 r \<noteq> NoAddr then ReleaseIPv6 bs p i1 else i1)"
  have rel: "LD_Release bs p (LocalRes r) l = (True, l\<lparr>LD_eniIPAMs := AList.update ?k i2 (LD_eniIPAMs l)\<rparr>)"
    by (simp add: LD_Release_def find_ipam [OF ok k] Let_def i1_def i2_def)
  note io = ipams_okD(2) [OF ok k]
  note okD = ipam_okD [OF io]
  have "ipam_ok bs ?k i2"
    using okD release_fam_held(1) [OF bs okD(2)] release_fam_held(1) [OF bs okD(3)]
    by (simp add: i1_def i2_def ipam_ok_def ReleaseIPv4_def ReleaseIPv6_def)
  then show "ipams_ok bs (LD_eniIPAMs (snd (LD_Release bs p (LocalRes r) l)))"
    unfolding rel by (simp add: ipams_ok_update [OF ok])
  have h: "held_by IPAM_v4 (LD_eniIPAMs l) ?k = fam_held (IPAM_v4 ipam)" "held_by IPAM_v6 (LD_eniIPAMs l) ?k = fam_held (IPAM_v6 ipam)"
    using k by (simp_all add: held_by_def)
  show "fst (LD_Release bs p (LocalRes r) l)" unfolding rel by simp
  show "held_by IPAM_v4 (LD_eniIPAMs (snd (LD_Release bs p (LocalRes r) l))) j =
      (if j = ?k \<and> Res_IPv4 r \<noteq> NoAddr then {x \<in> held_by IPAM_v4 (LD_eniIPAMs l) j. fst x \<noteq> p}
       else held_by IPAM_v4 (LD_eniIPAMs l) j)"
    unfolding rel using h release_fam_held(2) [OF bs okD(2), of p]
    by (simp add: held_by_update i1_def i2_def ReleaseIPv4_def ReleaseIPv6_def)
  show "held_by IPAM_v6 (LD_eniIPAMs (snd (LD_Release bs p (LocalRes r) l))) j =
      (if j = ?k \<and> Res_IPv6 r \<noteq> NoAddr then {x \<in> held_by IPAM_v6 (LD_eniIPAMs l) j. fst x \<noteq> p}
       else held_by IPAM_v6 (LD_eniIPAMs l) j)"
    unfolding rel using h release_fam_held(2) [OF bs okD(3), of p]
    by (simp add: held_by_update i1_def i2_def ReleaseIPv4_def ReleaseIPv6_def)
qed

lemma served_released:
  assumes "served en p ip old new" and "\<forall>a. (p, a) \<notin> old"
  shows "(if ip \<noteq> NoAddr then {x \<in> new. fst x \<noteq> p} else new) = old"
proof (cases en)
  case True
  then obtain a where a: "loc_ip (Some a) = Some ip" "new = insert (p, a) old" using assms(1) by (auto simp: served_def)
  have "ip \<noteq> NoAddr" using a(1) by (rule loc_ip_valid)
  then show ?thesis using a(2) assms(2) by auto
qed (use assms(1) in \<open>simp add: served_def\<close>)

text \<open>
  C15: releasing the resource a new pod was given is accepted and leaves every ENI with exactly
  the holdings it had before the pod came.
\<close>

theorem tryAllocateLocal_Release:
  assumes "bitset_laws bs" and "range_order ord" and "LD_enableIPv4 l \<or> LD_enableIPv6 l"
    and "ipams_ok bs (LD_eniIPAMs l)" and "fresh_in p (LD_eniIPAMs l)" and "tryAllocateLocal bs ord p l = (Some r, l1)"
    and "LD_Release bs p (LocalRes r) l1 = (done, l2)"
  shows "done \<and> ipams_ok bs (LD_eniIPAMs l2) \<and>
    (\<forall>k. held_by IPAM_v4 (LD_eniIPAMs l2) k = held_by IPAM_v4 (LD_eniIPAMs l) k \<and>
         held_by IPAM_v6 (LD_eniIPAMs l2) k = held_by IPAM_v6 (LD_eniIPAMs l) k)"
proof -
  let ?m = "LD_eniIPAMs l" and ?k = "ENI_ID (Res_ENI r)"
  note spec = tryAllocate_spec [OF assms(1-6), unfolded option.case]
  have ok: "ipams_ok bs (LD_eniIPAMs l1)"
    and sb: "somebody (LD_enableIPv4 l) (LD_enableIPv6 l) p (?k, Res_IPv4 r, Res_IPv6 r) ?m (LD_eniIPAMs l1)"
    using spec by simp_all
  obtain ipam where ipam: "map_of (LD_eniIPAMs l1) ?k = Some ipam" using sb by (auto simp: somebody_def)
  have new: "\<forall>a. (p, a) \<notin> held_by IPAM_v4 ?m ?k" "\<forall>a. (p, a) \<notin> held_by IPAM_v6 ?m ?k"
    using assms(5) by (auto simp: fresh_in_def fresh_pod_def held_by_def split: option.splits)
  note rel = LD_Release_spec [OF assms(1) ok ipam, of p, unfolded assms(7) fst_conv snd_conv]
  have sv: "served (LD_enableIPv4 l) p (Res_IPv4 r) (held_by IPAM_v4 ?m ?k) (held_by IPAM_v4 (LD_eniIPAMs l1) ?k)"
    "served (LD_enableIPv6 l) p (Res_IPv6 r) (held_by IPAM_v6 ?m ?k) (held_by IPAM_v6 (LD_eniIPAMs l1) ?k)"
    and rest: "j \<noteq> ?k \<Longrightarrow> held_by IPAM_v4 (LD_eniIPAMs l1) j = held_by IPAM_v4 ?m j \<and>
      held_by IPAM_v6 (LD_eniIPAMs l1) j = held_by IPAM_v6 ?m j" for j
    using sb unfolding somebody_def prod.case by blast+
  have "held_by IPAM_v4 (LD_eniIPAMs l2) k = held_by IPAM_v4 ?m k" for k
    using rel(3) [of k] served_released [OF sv(1) new(1)] rest [of k]
    by (cases "k = ?k"; cases "Res_IPv4 r = NoAddr") simp_all
  moreover have "held_by IPAM_v6 (LD_eniIPAMs l2) k = held_by IPAM_v6 ?m k" for k
    using rel(4) [of k] served_released [OF sv(2) new(2)] rest [of k]
    by (cases "k = ?k"; cases "Res_IPv6 r = NoAddr") simp_all
  ultimately show ?thesis using rel(1,2) by blast
qed

subsection \<open>Following the Node CR\<close>

lemma UpdatePrefixes_eq:
  "IPAM_v4 (UpdatePrefixes bs ps False e) = (updated bs ps (fst (IPAM_v4 e)), snd (IPAM_v4 e))"
  "IPAM_v6 (UpdatePrefixes bs ps False e) = IPAM_v6 e"
  "IPAM_v4 (UpdatePrefixes bs ps True e) = IPAM_v4 e"
  "IPAM_v6 (UpdatePrefixes bs ps True e) = (updated bs ps (fst (IPAM_v6 e)), snd (IPAM_v6 e))"
  "IPAM_eniID (UpdatePrefixes bs ps b e) = IPAM_eniID e"
  by (simp_all add: UpdatePrefixes_def updated_def Let_def)

lemma fam_held_updated: "fam_ok bs f \<Longrightarrow> fam_held (updated bs ps (fst f), snd f) = fam_held f"
  by (simp add: fam_held_def holds_updated [OF fam_gm])

text \<open>Two allocators of one ENI that hold the same addresses.\<close>

definition same_held :: "'b bitset \<Rightarrow> string \<Rightarrow> 'b ENILocalIPAM \<Rightarrow> 'b ENILocalIPAM \<Rightarrow> bool" where
  "same_held bs k e e' \<longleftrightarrow> ipam_ok bs k e' \<and> fam_held (IPAM_v4 e') = fam_held (IPAM_v4 e) \<and> fam_held (IPAM_v6 e') = fam_held (IPAM_v6 e)"

lemma UpdatePrefixes_same:
  assumes "bitset_laws bs" and "ipam_ok bs k e"
  shows "same_held bs k e (UpdatePrefixes bs ps True (UpdatePrefixes bs qs False e))"
  using ipam_okD [OF assms(2)] fam_ok_updated [OF assms(1)]
  by (simp add: same_held_def ipam_ok_def UpdatePrefixes_eq fam_held_updated)

lemma new_ipam_ok:
  assumes "bitset_laws bs"
  shows "ipam_ok bs k (NewENILocalIPAMFromPrefix bs k mac eni erdma)"
    and "fam_held (IPAM_v4 (NewENILocalIPAMFromPrefix bs k mac eni erdma)) = {}"
    and "fam_held (IPAM_v6 (NewENILocalIPAMFromPrefix bs k mac eni erdma)) = {}"
  using new_prefixes_ok [OF assms] by (simp_all add: ipam_ok_def NewENILocalIPAMFromPrefix_def fam_held_def)

text \<open>Two maps of allocators with the same holdings everywhere.\<close>

definition same_ipams :: "'b bitset \<Rightarrow> 'b ipams \<Rightarrow> 'b ipams \<Rightarrow> bool" where
  "same_ipams bs m m' \<longleftrightarrow> ipams_ok bs m' \<and>
     (\<forall>k. held_by IPAM_v4 m' k = held_by IPAM_v4 m k \<and> held_by IPAM_v6 m' k = held_by IPAM_v6 m k)"

lemma sync_eni_same:
  assumes "bitset_laws bs" and "ipams_ok bs m"
  shows "same_ipams bs m (sync_eni bs erdma (k, eni) m)"
proof (cases "Nic_Status eni \<noteq> ''InUse''")
  case True
  then show ?thesis using assms(2) by (simp add: sync_eni_def same_ipams_def)
next
  case False
  show ?thesis
  proof (cases "map_of m k")
    case None
    have ok: "ipams_ok bs (AList.update k (NewENILocalIPAMFromPrefix bs k (Nic_MacAddress eni) eni erdma) m)"
      by (rule ipams_ok_update [OF assms(2) new_ipam_ok(1) [OF assms(1)]])
    have "held_by fam m k = {}" for fam using None by (simp add: held_by_def)
    then show ?thesis
      using False None ok new_ipam_ok(2,3) [OF assms(1)]
      by (simp add: sync_eni_def same_ipams_def held_by_update)
  next
    case (Some ipam)
    let ?u = "UpdatePrefixes bs (Nic_IPv6Prefix eni) True
        (UpdatePrefixes bs (Nic_IPv4Prefix eni) False (IPAM_SetUnschedulable (Nic_Unschedulable eni) ipam))"
    have "ipam_ok bs k (IPAM_SetUnschedulable (Nic_Unschedulable eni) ipam)"
      using ipams_okD(2) [OF assms(2) Some] by (simp add: ipam_ok_def IPAM_SetUnschedulable_def)
    from UpdatePrefixes_same [OF assms(1) this] have u: "same_held bs k ipam ?u"
      by (simp add: same_held_def IPAM_SetUnschedulable_def)
    have "held_by fam m k = fam_held (fam ipam)" for fam using Some by (simp add: held_by_def)
    then show ?thesis
      using False Some u ipams_ok_update [OF assms(2), of k ?u]
      by (simp add: sync_eni_def same_ipams_def held_by_update same_held_def)
  qed
qed

lemma sync_enis_same:
  assumes "bitset_laws bs"
  shows "ipams_ok bs m \<Longrightarrow> same_ipams bs m (fold (sync_eni bs erdma) nics m)"
proof (induction nics arbitrary: m)
  case Nil
  then show ?case by (simp add: same_ipams_def)
next
  case (Cons x nics)
  obtain k eni where x: "x = (k, eni)" by (cases x)
  have s: "same_ipams bs m (sync_eni bs erdma x m)" unfolding x by (rule sync_eni_same [OF assms Cons.prems])
  then have "ipams_ok bs (sync_eni bs erdma x m)" by (simp add: same_ipams_def)
  from Cons.IH [OF this] s show ?case by (simp add: same_ipams_def)
qed

lemma map_of_drain:
  "map_of (map (drain_eni bs nics) m) k = map_option (\<lambda>ipam. snd (drain_eni bs nics (k, ipam))) (map_of m k)"
  by (induction m) (auto simp: drain_eni_def)

lemma map_of_filter_vals:
  "gm_ok m \<Longrightarrow> map_of (filter (\<lambda>(k, v). P v) m) k = (case map_of m k of None \<Rightarrow> None | Some v \<Rightarrow> if P v then Some v else None)"
  by (induction m) (auto simp: gm_ok_def map_of_eq_None_iff image_iff split: option.splits)

lemma drained_same:
  assumes bs: "bitset_laws bs" and ok: "ipams_ok bs m"
  shows "same_ipams bs m (filter (\<lambda>(k, ipam). \<not> IPAM_IsEmpty ipam) (map (drain_eni bs nics) m))"
proof -
  let ?d = "map (drain_eni bs nics) m"
  have kd: "keys ?d = keys m" by (simp add: drain_eni_def case_prod_beta comp_def)
  then have gd: "gm_ok ?d" using ipams_okD(1) [OF ok] unfolding gm_ok_def by metis
  have d: "same_held bs k ipam (snd (drain_eni bs nics (k, ipam)))" if "map_of m k = Some ipam" for k ipam
    using UpdatePrefixes_same [OF bs ipams_okD(2) [OF ok that]] ipams_okD(2) [OF ok that]
    by (simp add: drain_eni_def same_held_def)
  have empty: "fam_held (IPAM_v4 e) = {}" "fam_held (IPAM_v6 e) = {}" if "IPAM_IsEmpty e" for e :: "'a ENILocalIPAM"
    using that by (auto simp: IPAM_IsEmpty_def fam_held_def holds_def)
  note look = map_of_filter_vals [OF gd, where P = "\<lambda>e. \<not> IPAM_IsEmpty e"] map_of_drain
  have "gm_ok (filter (\<lambda>(k, ipam). \<not> IPAM_IsEmpty ipam) ?d)"
    using gd unfolding gm_ok_def by (rule distinct_map_filter)
  moreover have "ipam_ok bs k e" if "map_of (filter (\<lambda>(k, ipam). \<not> IPAM_IsEmpty ipam) ?d) k = Some e" for k e
    using that d [of k] unfolding look by (auto simp: same_held_def split: option.splits if_splits)
  moreover have "held_by IPAM_v4 (filter (\<lambda>(k, ipam). \<not> IPAM_IsEmpty ipam) ?d) k = held_by IPAM_v4 m k \<and>
    held_by IPAM_v6 (filter (\<lambda>(k, ipam). \<not> IPAM_IsEmpty ipam) ?d) k = held_by IPAM_v6 m k" for k
  proof (cases "map_of m k")
    case None
    then show ?thesis unfolding held_by_def look by simp
  next
    case (Some ipam)
    then show ?thesis
      using d [OF Some] empty [of "snd (drain_eni bs nics (k, ipam))"] unfolding held_by_def look by (auto simp: same_held_def)
  qed
  ultimately show ?thesis unfolding same_ipams_def ipams_ok_def by blast
qed

text \<open>
  C14: following the Node CR never takes an address from a pod: whatever the CR says about the
  ENIs (new ones, prefixes gone or marked, ENIs removed), after \<^verbatim>\<open>syncNodeCR\<close> every pod holds exactly
  what it held, and the allocators are in a consistent state.
\<close>

theorem syncNodeCR_keeps:
  assumes "bitset_laws bs" and "ipams_ok bs (LD_eniIPAMs l)"
  shows "ipams_ok bs (LD_eniIPAMs (syncNodeCR bs node l)) \<and>
    (\<forall>k. held_by IPAM_v4 (LD_eniIPAMs (syncNodeCR bs node l)) k = held_by IPAM_v4 (LD_eniIPAMs l) k \<and>
         held_by IPAM_v6 (LD_eniIPAMs (syncNodeCR bs node l)) k = held_by IPAM_v6 (LD_eniIPAMs l) k)"
proof (cases node)
  case None
  then show ?thesis using assms(2) by (simp add: syncNodeCR_def)
next
  case (Some cr)
  let ?nics = "St_NetworkInterfaces (Node_Status cr)"
  let ?m = "fold (sync_eni bs (LD_enableERDMA l)) ?nics (LD_eniIPAMs l)"
  have s: "same_ipams bs (LD_eniIPAMs l) ?m" by (rule sync_enis_same [OF assms])
  then have "ipams_ok bs ?m" by (simp add: same_ipams_def)
  from drained_same [OF assms(1) this, of ?nics] s show ?thesis
    by (simp add: Some syncNodeCR_def Let_def same_ipams_def)
qed

subsection \<open>After a restart\<close>

lemma init_enis_ok:
  assumes "bitset_laws bs"
  shows "ipams_ok bs m \<Longrightarrow> (\<forall>k. held_by IPAM_v4 m k = {} \<and> held_by IPAM_v6 m k = {}) \<Longrightarrow>
    ipams_ok bs (init_enis bs erdma nics m) \<and>
    (\<forall>k. held_by IPAM_v4 (init_enis bs erdma nics m) k = {} \<and> held_by IPAM_v6 (init_enis bs erdma nics m) k = {})"
  unfolding init_enis_def
proof (induction nics arbitrary: m)
  case (Cons x nics)
  obtain k eni where x: "x = (k, eni)" by (cases x)
  let ?n = "NewENILocalIPAMFromPrefix bs k (Nic_MacAddress eni) eni erdma"
  show ?case
  proof (cases "Nic_Status eni \<noteq> ''InUse''")
    case True
    then show ?thesis using Cons by (simp add: x)
  next
    case False
    have "ipams_ok bs (AList.update k ?n m)" by (rule ipams_ok_update [OF Cons.prems(1) new_ipam_ok(1) [OF assms]])
    moreover have "\<forall>j. held_by IPAM_v4 (AList.update k ?n m) j = {} \<and> held_by IPAM_v6 (AList.update k ?n m) j = {}"
      using Cons.prems(2) new_ipam_ok(2,3) [OF assms] by (simp add: held_by_update)
    ultimately show ?thesis using Cons.IH [of "AList.update k ?n m"] False by (simp add: x)
  qed
qed simp

text \<open>A record that can be restored: an IPv4 address of a prefix of an ENI the delegate knows.\<close>

definition record_ok :: "'b ipams \<Rightarrow> string \<times> ResourceItem \<Rightarrow> bool" where
  "record_ok m item = (case item of (podID, res) \<Rightarrow>
     Item_Type res = ResourceTypeENIIP \<and> Item_ENIID res \<noteq> [] \<and> Item_IPv4 res \<noteq> [] \<and> Item_IPv6 res = [] \<and>
     (case (map_of m (Item_ENIID res), ParseAddr (Item_IPv4 res)) of
        (Some ipam, Some (Addr4 w)) \<Rightarrow> covered (fst (IPAM_v4 ipam)) (Addr4 w)
      | _ \<Rightarrow> False))"

text \<open>The records of two pods, and two records of one pod on one ENI, do not clash.\<close>

definition records_ok :: "'b ipams \<Rightarrow> (string \<times> ResourceItem) list \<Rightarrow> bool" where
  "records_ok m items \<longleftrightarrow> list_all (record_ok m) items \<and>
     distinct (map (\<lambda>(podID, res). (podID, Item_ENIID res)) items) \<and>
     distinct (map (\<lambda>(podID, res). (Item_ENIID res, ParseAddr (Item_IPv4 res))) items)"

text \<open>The pods of an ENI with their addresses: as allocated, and as recorded.\<close>

definition pods_on :: "'b ipams \<Rightarrow> string \<Rightarrow> (string \<times> addr) set" where
  "pods_on m k = {(p, ip). \<exists>a. (p, a) \<in> held_by IPAM_v4 m k \<and> loc_ip (Some a) = Some ip}"

definition recorded_on :: "(string \<times> ResourceItem) list \<Rightarrow> string \<Rightarrow> (string \<times> addr) set" where
  "recorded_on items k = {(p, ip). \<exists>res. (p, res) \<in> set items \<and> Item_ENIID res = k \<and> ParseAddr (Item_IPv4 res) = Some ip}"

definition same_prefixes :: "'b ipams \<Rightarrow> 'b ipams \<Rightarrow> bool" where
  "same_prefixes m m' \<longleftrightarrow> (\<forall>k. map_option (\<lambda>e. keys (fst (IPAM_v4 e))) (map_of m' k) = map_option (\<lambda>e. keys (fst (IPAM_v4 e))) (map_of m k))"

lemma record_ok_same:
  assumes "same_prefixes m m'"
  shows "record_ok m' x = record_ok m x"
proof -
  obtain p res where x: "x = (p, res)" by (cases x)
  have "map_option (\<lambda>e. keys (fst (IPAM_v4 e))) (map_of m' (Item_ENIID res)) =
    map_option (\<lambda>e. keys (fst (IPAM_v4 e))) (map_of m (Item_ENIID res))"
    using assms unfolding same_prefixes_def by blast
  then show ?thesis
    unfolding record_ok_def x
    by (cases "map_of m (Item_ENIID res)"; cases "map_of m' (Item_ENIID res)")
       (auto simp: covered_def split: option.splits addr.splits)
qed

lemma held_loc_valid:
  assumes "ipams_ok bs m" and "(p, a) \<in> held_by IPAM_v4 m k"
  shows "\<exists>ip. loc_ip (Some a) = Some ip"
proof -
  obtain ipam where ipam: "map_of m k = Some ipam" "(p, a) \<in> fam_held (IPAM_v4 ipam)"
    using assms(2) by (auto simp: held_by_def split: option.splits)
  have "holds (fst (IPAM_v4 ipam)) p (fst a) (snd a)" using ipam(2) by (auto simp: fam_held_def)
  then have "snd a < prefixSize (fst a)" by (rule holds_less [OF ipam_okD(2) [OF ipams_okD(2) [OF assms(1) ipam(1)]]])
  from prefixSize_parse [OF this] show ?thesis by (auto simp: loc_ip_def case_prod_beta)
qed

lemma restore_item_step:
  assumes bs: "bitset_laws bs" and ord: "range_order ord" and ok: "ipams_ok bs m"
    and rec: "record_ok m (p, res)" and ip: "ParseAddr (Item_IPv4 res) = Some ip"
    and new: "\<forall>x. (p, x) \<notin> pods_on m (Item_ENIID res)" and free: "\<forall>q. (q, ip) \<notin> pods_on m (Item_ENIID res)"
  shows "ipams_ok bs (restore_item bs ord (p, res) m) \<and> same_prefixes m (restore_item bs ord (p, res) m) \<and>
    (\<forall>k. pods_on (restore_item bs ord (p, res) m) k =
         (if k = Item_ENIID res then insert (p, ip) (pods_on m k) else pods_on m k))"
proof -
  let ?k = "Item_ENIID res"
  obtain ipam w where ipam: "map_of m ?k = Some ipam" and w: "ip = Addr4 w" and cov: "covered (fst (IPAM_v4 ipam)) (Addr4 w)"
    and it: "Item_Type res = ResourceTypeENIIP" "?k \<noteq> []" "Item_IPv4 res \<noteq> []" "Item_IPv6 res = []"
    using rec ip by (auto simp: record_ok_def split: option.splits addr.splits)
  note io = ipams_okD(2) [OF ok ipam]
  note okD = ipam_okD [OF io]
  have held: "held_by IPAM_v4 m ?k = fam_held (IPAM_v4 ipam)" using ipam by (simp add: held_by_def)
  have p: "map_of (snd (IPAM_v4 ipam)) p = None"
  proof -
    have "(p, a) \<notin> held_by IPAM_v4 m ?k" for a
      using new held_loc_valid [OF ok, of p a ?k] unfolding pods_on_def by blast
    then show ?thesis using held_pods [OF okD(2)] held by blast
  qed
  have fr: "\<forall>q c off. holds (fst (IPAM_v4 ipam)) q c off \<longrightarrow> calculateIP c off \<noteq> Some (Addr4 w)"
    using free held w by (auto simp: pods_on_def fam_held_def loc_ip_def)
  let ?f = "restore_fam bs ord p (Item_IPv4 res) (IPAM_v4 ipam)"
  obtain c off where st: "calculateIP c off = Some (Addr4 w)" "fam_ok bs ?f" "keys (fst ?f) = keys (fst (IPAM_v4 ipam))"
    "\<forall>q d j. holds (fst ?f) q d j \<longleftrightarrow> (q, d, j) = (p, c, off) \<or> holds (fst (IPAM_v4 ipam)) q d j"
    using restore_fam_step [OF bs ord okD(2) it(3) ip [unfolded w] p cov fr] by blast
  let ?e = "RestorePod bs ord p (Item_IPv4 res) (Item_IPv6 res) ?k ipam"
  have e: "?e = ipam\<lparr>IPAM_v4 := ?f\<rparr>"
    using okD(1) it(4) by (simp add: RestorePod_def restore_fam_def)
  have r: "map_of (restore_item bs ord (p, res) m) k = (if k = ?k then Some ?e else map_of m k)" for k
    using ipam it by (simp add: restore_item_def gm_simps)
  have gm: "gm_ok (restore_item bs ord (p, res) m)"
    using ipams_okD(1) [OF ok] by (simp add: restore_item_def)
  have "ipam_ok bs ?k ?e" using okD st(2) unfolding e by (simp add: ipam_ok_def)
  then have ok': "ipams_ok bs (restore_item bs ord (p, res) m)"
    using gm ipams_okD(2) [OF ok] unfolding ipams_ok_def r by auto
  have "fam_held (IPAM_v4 ?e) = insert (p, c, off) (fam_held (IPAM_v4 ipam))"
    unfolding e fam_held_def using st(4) by auto
  then have "held_by IPAM_v4 (restore_item bs ord (p, res) m) k =
      (if k = ?k then insert (p, c, off) (held_by IPAM_v4 m k) else held_by IPAM_v4 m k)" for k
    using held by (simp add: held_by_def r)
  then have "pods_on (restore_item bs ord (p, res) m) k =
         (if k = ?k then insert (p, ip) (pods_on m k) else pods_on m k)" for k
    using st(1) w by (auto simp: pods_on_def loc_ip_def)
  moreover have "same_prefixes m (restore_item bs ord (p, res) m)"
    unfolding same_prefixes_def r using ipam st(3) e by simp
  ultimately show ?thesis using ok' by blast
qed

lemma restore_items:
  assumes bs: "bitset_laws bs" and ord: "range_order ord"
  shows "ipams_ok bs m \<Longrightarrow> records_ok m items \<Longrightarrow>
    (\<forall>(p, res) \<in> set items. \<forall>q x. (q, x) \<in> pods_on m (Item_ENIID res) \<longrightarrow> q \<noteq> p \<and> ParseAddr (Item_IPv4 res) \<noteq> Some x) \<Longrightarrow>
    ipams_ok bs (fold (restore_item bs ord) items m) \<and>
    (\<forall>k. pods_on (fold (restore_item bs ord) items m) k = pods_on m k \<union> recorded_on items k)"
proof (induction items arbitrary: m)
  case Nil
  then show ?case by (simp add: recorded_on_def)
next
  case (Cons x items)
  obtain p res where x: "x = (p, res)" by (cases x)
  let ?k = "Item_ENIID res" and ?m = "restore_item bs ord (p, res) m"
  have rec: "record_ok m (p, res)" using Cons.prems(2) by (simp add: records_ok_def x)
  then obtain ip where ip: "ParseAddr (Item_IPv4 res) = Some ip"
    by (auto simp: record_ok_def split: option.splits)
  have clash: "(q, y) \<in> pods_on m ?k \<Longrightarrow> q \<noteq> p \<and> y \<noteq> ip" for q y
    using Cons.prems(3) x ip by fastforce
  have st: "ipams_ok bs ?m" "same_prefixes m ?m"
    "\<And>k. pods_on ?m k = (if k = ?k then insert (p, ip) (pods_on m k) else pods_on m k)"
    using restore_item_step [OF bs ord Cons.prems(1) rec ip] clash by blast+
  have recs: "records_ok ?m items"
    using Cons.prems(2) record_ok_same [OF st(2)] by (simp add: records_ok_def list_all_iff)
  have "\<forall>(q, r) \<in> set items. \<forall>u y. (u, y) \<in> pods_on ?m (Item_ENIID r) \<longrightarrow> u \<noteq> q \<and> ParseAddr (Item_IPv4 r) \<noteq> Some y"
  proof (rule ballI, unfold split_paired_all prod.case, intro allI impI)
    fix q r u y assume i: "(q, r) \<in> set items" and u: "(u, y) \<in> pods_on ?m (Item_ENIID r)"
    have d: "Item_ENIID r = ?k \<Longrightarrow> q \<noteq> p \<and> ParseAddr (Item_IPv4 r) \<noteq> Some ip"
      using Cons.prems(2) i ip unfolding records_ok_def x by (auto simp: image_iff)
    show "u \<noteq> q \<and> ParseAddr (Item_IPv4 r) \<noteq> Some y"
    proof (cases "(u, y) \<in> pods_on m (Item_ENIID r)")
      case True
      then show ?thesis using Cons.prems(3) i by fastforce
    next
      case False
      then have "Item_ENIID r = ?k" "u = p" "y = ip" using u st(3) [of "Item_ENIID r"] by (auto split: if_splits)
      then show ?thesis using d by auto
    qed
  qed
  from Cons.IH [OF st(1) recs this] have IH: "ipams_ok bs (fold (restore_item bs ord) items ?m)"
    "\<And>k. pods_on (fold (restore_item bs ord) items ?m) k = pods_on ?m k \<union> recorded_on items k" by blast+
  have "recorded_on (x # items) k = (if k = ?k then insert (p, ip) (recorded_on items k) else recorded_on items k)" for k
    using ip by (auto simp: recorded_on_def x)
  then have "pods_on (fold (restore_item bs ord) items ?m) k = pods_on m k \<union> recorded_on (x # items) k" for k
    unfolding IH(2) st(3) by auto
  then show ?case using IH(1) by (simp add: x)
qed


subsection \<open>A node with two ENIs\<close>

definition wit_nic :: "string \<Rightarrow> string \<Rightarrow> string \<times> Nic" where
  "wit_nic k prefix = (k, zero_Nic\<lparr>Nic_ID := k, Nic_Status := ''InUse'',
     Nic_IPv4Prefix := [\<lparr>PX_Prefix = prefix, PX_Status = IPPrefixStatusValid, PX_FrozenExpireAt = 0\<rparr>]\<rparr>)"

definition wit_node :: Node where
  "wit_node =
     zero_Node\<lparr>Node_Spec := zero_NodeSpec\<lparr>NS_ENISpec := Some zero_ENISpec\<rparr>,
      Node_Status := zero_NodeStatus\<lparr>St_NetworkInterfaces := [wit_nic ''eni-1'' ''10.0.0.0/30'', wit_nic ''eni-2'' ''10.0.1.0/30'']\<rparr>\<rparr>"

definition wit_ld :: "bool list LocalDelegate" where
  "wit_ld = the (doInit list_bitset (\<lambda>ks. ks) (Some wit_node) [] (NewLocalDelegate True False))"

lemma wit_ld_eq: "LD_eniIPAMs wit_ld = init_enis list_bitset False (St_NetworkInterfaces (Node_Status wit_node)) []"
  "LD_enableIPv4 wit_ld" "\<not> LD_enableIPv6 wit_ld"
  by (simp_all add: wit_ld_def doInit_def wit_node_def NewLocalDelegate_def zero_ENISpec_def pod_items_def map_filter_simps)

lemma wit_ld_ok: "ipams_ok list_bitset (LD_eniIPAMs wit_ld)" "fresh_in p (LD_eniIPAMs wit_ld)"
proof -
  have ok: "ipams_ok list_bitset (LD_eniIPAMs wit_ld) \<and>
    (\<forall>k. held_by IPAM_v4 (LD_eniIPAMs wit_ld) k = {} \<and> held_by IPAM_v6 (LD_eniIPAMs wit_ld) k = {})"
    unfolding wit_ld_eq(1) by (rule init_enis_ok [OF list_bitset_laws]) (simp_all add: ipams_ok_def held_by_def)
  then show "ipams_ok list_bitset (LD_eniIPAMs wit_ld)" ..
  have "fam_held (IPAM_v4 e) = {} \<and> fam_held (IPAM_v6 e) = {}" if "map_of (LD_eniIPAMs wit_ld) k = Some e" for k e
    using ok [THEN conjunct2, THEN spec, of k] that by (simp add: held_by_def)
  then show "fresh_in p (LD_eniIPAMs wit_ld)" unfolding fresh_in_def fresh_pod_def by blast
qed

definition wit_res :: "string \<Rightarrow> addr \<Rightarrow> LocalIPResource" where
  "wit_res k ip =
     \<lparr>Res_PodID = ''ns/a'',
      Res_ENI = \<lparr>ENI_ID = k, ENI_MAC = [], ENI_Trunk = False, ENI_ERdma = False, ENI_PrimaryIPv4 = NoAddr,
                 ENI_GatewayIP = no_IPSet, ENI_VSwitchCIDR = no_IPNetSet, ENI_VSwitchID = []\<rparr>,
      Res_IPv4 = ip, Res_IPv6 = NoAddr\<rparr>"

definition wit_l1 :: "bool list LocalDelegate" where
  "wit_l1 = snd (tryAllocateLocal list_bitset (\<lambda>ks. ks) ''ns/a'' wit_ld)"

lemma wit_try: "tryAllocateLocal list_bitset (\<lambda>ks. ks) ''ns/a'' wit_ld = (Some (wit_res ''eni-1'' (Addr4 167772160)), wit_l1)"
proof -
  have "fst (tryAllocateLocal list_bitset (\<lambda>ks. ks) ''ns/a'' wit_ld) = Some (wit_res ''eni-1'' (Addr4 167772160))" by code_simp
  then show ?thesis unfolding wit_l1_def by (rule fst_pair)
qed

theorem tryAllocateLocal_new_pod_witness:
  "somebody True False ''ns/a'' (''eni-1'', Addr4 167772160, NoAddr) (LD_eniIPAMs wit_ld) (LD_eniIPAMs wit_l1)"
  using tryAllocateLocal_new_pod [OF list_bitset_laws range_order_id _ wit_ld_ok wit_try] wit_ld_eq(2,3)
  by (simp add: wit_res_def)

theorem tryAllocateLocal_Release_witness:
  "held_by IPAM_v4 (LD_eniIPAMs (snd (LD_Release list_bitset ''ns/a'' (LocalRes (wit_res ''eni-1'' (Addr4 167772160))) wit_l1))) ''eni-1'' =
   held_by IPAM_v4 (LD_eniIPAMs wit_ld) ''eni-1''"
  using tryAllocateLocal_Release [OF list_bitset_laws range_order_id _ wit_ld_ok wit_try surjective_pairing] wit_ld_eq(2)
  by blast

theorem syncNodeCR_keeps_witness:
  "held_by IPAM_v4 (LD_eniIPAMs (syncNodeCR list_bitset (Some wit_node) wit_ld)) ''eni-1'' = held_by IPAM_v4 (LD_eniIPAMs wit_ld) ''eni-1''"
  using syncNodeCR_keeps [OF list_bitset_laws wit_ld_ok(1)] by blast

definition wit_pods :: "PodResources option list" where
  "wit_pods =
     [None,
      Some \<lparr>PodRes_Resources = [\<lparr>Item_Type = ResourceTypeENIIP, Item_ID = [], Item_ENIID = ''eni-1'', Item_IPv4 = ''10.0.0.2'', Item_IPv6 = []\<rparr>],
            PodRes_Namespace = ''ns'', PodRes_Name = ''a''\<rparr>,
      Some \<lparr>PodRes_Resources = [\<lparr>Item_Type = ResourceTypeENIIP, Item_ID = [], Item_ENIID = ''eni-1'', Item_IPv4 = ''10.0.0.3'', Item_IPv6 = []\<rparr>],
            PodRes_Namespace = ''ns'', PodRes_Name = ''b''\<rparr>]"

definition wit_restored :: "bool list LocalDelegate" where
  "wit_restored = the (doInit list_bitset rev (Some wit_node) wit_pods (NewLocalDelegate True False))"

lemma wit_init: "doInit list_bitset rev (Some wit_node) wit_pods (NewLocalDelegate True False) = Some wit_restored"
  by (simp add: wit_restored_def doInit_def wit_node_def)

lemma wit_restored_erdma: "LD_enableERDMA wit_restored = False"
  by (simp add: wit_restored_def doInit_def wit_node_def zero_ENISpec_def)

lemma wit_records:
  "records_ok (init_enis list_bitset False (St_NetworkInterfaces (Node_Status wit_node)) []) (pod_items (List.map_filter (\<lambda>p. p) wit_pods))"
  by code_simp


subsection \<open>A pod that asks again\<close>

definition wit_l2 :: "bool list LocalDelegate" where
  "wit_l2 = snd (tryAllocateLocal list_bitset rev ''ns/a'' wit_l1)"

definition wit_l3 :: "bool list LocalDelegate" where
  "wit_l3 = snd (LD_Release list_bitset ''ns/a'' (LocalRes (wit_res ''eni-2'' (Addr4 167772416))) wit_l2)"


definition wit_dual :: "bool list LocalDelegate" where
  "wit_dual = wit_restored\<lparr>LD_enableIPv6 := True\<rparr>"


end
