(* ===== verification/NodeEni.thy ===== *)
theory NodeEni
  imports NodeTypes
begin

section \<open>Network interfaces of a node (pkg/controller/multi-ip/node/eni.go and pod.go)\<close>

text \<open>
  The helpers of the node controller on one network interface: what the cloud reports of it
  (\<open>NetworkInterface\<close>), how a report is merged into the Node resource, which addresses are given
  up when the pool is too large, and the requests of the pods. A write through a pointer into a
  map of addresses returns the updated map; loops that range over a map of addresses take the
  order as an argument when their result depends on it.
\<close>

subsection \<open>What the cloud reports (pkg/aliyun/client/types.go, eni_filter.go)\<close>

text \<open>The fields the controller reads; the type and the traffic mode are those of the Node resource.\<close>

abbreviation ENIStatusInUse :: string where "ENIStatusInUse \<equiv> ''InUse''"
abbreviation ENIStatusAvailable :: string where "ENIStatusAvailable \<equiv> ''Available''"
abbreviation ENIStatusAttaching :: string where "ENIStatusAttaching \<equiv> ''Attaching''"
abbreviation ENIStatusDetaching :: string where "ENIStatusDetaching \<equiv> ''Detaching''"
abbreviation ENIStatusDeleting :: string where "ENIStatusDeleting \<equiv> ''Deleting''"
abbreviation LENIStatusExecuting :: string where "LENIStatusExecuting \<equiv> ''Executing''"
abbreviation LENIStatusCreateFailed :: string where "LENIStatusCreateFailed \<equiv> ''Create Failed''"
abbreviation LENIStatusAttachFailed :: string where "LENIStatusAttachFailed \<equiv> ''Attach Failed''"
abbreviation LENIStatusDetachFailed :: string where "LENIStatusDetachFailed \<equiv> ''Detach Failed''"
abbreviation LENIStatusDeleteFailed :: string where "LENIStatusDeleteFailed \<equiv> ''Delete Failed''"
abbreviation LENIIPStatusAvailable :: string where "LENIIPStatusAvailable \<equiv> ''Available''"

record CloudIP =
  CI_Primary :: bool
  CI_IPAddress :: string
  CI_IPName :: string
  CI_IPStatus :: string
  CI_Prefix :: string

record NetworkInterface =
  NI_Status :: string
  NI_MacAddress :: string
  NI_NetworkInterfaceID :: string
  NI_VSwitchID :: string
  NI_PrivateIPAddress :: string
  NI_PrivateIPSets :: "CloudIP list"
  NI_SecurityGroupIDs :: "string list"
  NI_IPv6Set :: "CloudIP list"
  NI_Tags :: "(string \<times> string) list"
  NI_Type :: ENIType
  NI_NetworkInterfaceTrafficMode :: NetworkInterfaceTrafficMode
  NI_IPv4PrefixSets :: "string list"
  NI_IPv6PrefixSets :: "string list"

text \<open>A report with no field set.\<close>

definition zero_NetworkInterface :: NetworkInterface where
  "zero_NetworkInterface =
     \<lparr>NI_Status = [], NI_MacAddress = [], NI_NetworkInterfaceID = [], NI_VSwitchID = [], NI_PrivateIPAddress = [],
      NI_PrivateIPSets = [], NI_SecurityGroupIDs = [], NI_IPv6Set = [], NI_Tags = [], NI_Type = ENITypeSecondary,
      NI_NetworkInterfaceTrafficMode = NetworkInterfaceTrafficModeUnset, NI_IPv4PrefixSets = [], NI_IPv6PrefixSets = []\<rparr>"

definition DefaultENITagBlockList :: "(string \<times> string) list" where
  "DefaultENITagBlockList =
     [(''creator'', ''alibabacloud-erdma-controller''), (''terway.alibabacloud.com/excluded'', ''true'')]"

definition IsENIBlocked :: "(string \<times> string) list \<Rightarrow> (string \<times> string) list \<Rightarrow> bool" where
  "IsENIBlocked tags blockList =
     (if blockList = [] \<or> tags = [] then False
      else list_ex (\<lambda>rule. list_ex (\<lambda>t. fst t = fst rule \<and> snd t = snd rule) tags) blockList)"

definition IsLENIPrimary :: "NetworkInterface \<Rightarrow> bool" where
  "IsLENIPrimary eni =
     (let leniPrimary = list_ex (\<lambda>tag. fst tag = ''leni_primary'' \<and> snd tag = ''true'') (NI_Tags eni);
          supportENI = list_ex (\<lambda>tag. fst tag = ''acs:ecs:support_eni'' \<and> snd tag = ''true'') (NI_Tags eni)
      in leniPrimary \<and> supportENI)"

subsection \<open>Kinds of interfaces and the plan for one of them\<close>

record eniTypeKey =
  TK_ENIType :: ENIType
  TK_TrafficMode :: NetworkInterfaceTrafficMode

definition secondaryKey :: eniTypeKey where
  "secondaryKey = \<lparr>TK_ENIType = ENITypeSecondary, TK_TrafficMode = NetworkInterfaceTrafficModeStandard\<rparr>"

definition trunkKey :: eniTypeKey where
  "trunkKey = \<lparr>TK_ENIType = ENITypeTrunk, TK_TrafficMode = NetworkInterfaceTrafficModeStandard\<rparr>"

definition rdmaKey :: eniTypeKey where
  "rdmaKey = \<lparr>TK_ENIType = ENITypeSecondary, TK_TrafficMode = NetworkInterfaceTrafficModeHighPerformance\<rparr>"

definition nic_key :: "Nic \<Rightarrow> eniTypeKey" where
  "nic_key nic = \<lparr>TK_ENIType = Nic_NetworkInterfaceType nic, TK_TrafficMode = Nic_NetworkInterfaceTrafficMode nic\<rparr>"

text \<open>The options with which an interface of a kind is created: trunk and RDMA, none for an unknown kind.\<close>

definition EniOptions :: "(eniTypeKey, bool \<times> bool) gomap" where
  "EniOptions = [(secondaryKey, (False, False)), (trunkKey, (True, False)), (rdmaKey, (False, True))]"

subsection \<open>Counting addresses\<close>

definition IPUsage :: "IPMap \<Rightarrow> int \<times> int" where
  "IPUsage eniIP = (int (gm_count (\<lambda>v. NIP_PodID v = []) eniIP), int (gm_count (\<lambda>v. NIP_PodID v \<noteq> []) eniIP))"

abbreviation idle_valid :: "NodeIP \<Rightarrow> bool" where
  "idle_valid v \<equiv> NIP_PodID v = [] \<and> NIP_Status v = IPStatusValid"

definition IdlesWithAvailable :: "IPMap \<Rightarrow> int" where
  "IdlesWithAvailable eniIP = int (gm_count idle_valid eniIP)"

definition warmUpIPCount :: "ENISpec \<Rightarrow> int \<Rightarrow> int \<Rightarrow> int" where
  "warmUpIPCount spec ipv4 ipv6 = (if \<not> ES_EnableIPv4 spec \<and> ES_EnableIPv6 spec then ipv6 else max ipv4 ipv6)"

subsection \<open>Giving up addresses\<close>

definition undelete_ip :: "NodeIP \<Rightarrow> NodeIP" where
  "undelete_ip ip = (if NIP_Status ip = IPStatusDeleting then ip\<lparr>NIP_Status := IPStatusValid\<rparr> else ip)"

definition undelete_prefix :: "IPPrefix \<Rightarrow> IPPrefix" where
  "undelete_prefix p = (if PX_Status p = IPPrefixStatusDeleting then p\<lparr>PX_Status := IPPrefixStatusValid\<rparr> else p)"

definition clearPendingDelete :: "string \<Rightarrow> Nic \<Rightarrow> Nic" where
  "clearPendingDelete remoteStatus eni =
     (if remoteStatus \<noteq> ENIStatusInUse then
        (if remoteStatus = ENIStatusDeleting \<or> remoteStatus = ENIStatusDetaching \<or> remoteStatus = ENIStatusAttaching
         then eni\<lparr>Nic_Status := remoteStatus\<rparr> else eni)
      else
        (let eni = (if Nic_Status eni = ENIStatusDeleting then eni\<lparr>Nic_Status := ENIStatusInUse\<rparr> else eni) in
         eni\<lparr>Nic_IPv4 := map_option (gm_map undelete_ip) (Nic_IPv4 eni),
             Nic_IPv6 := map_option (gm_map undelete_ip) (Nic_IPv6 eni),
             Nic_IPv4Prefix := map undelete_prefix (Nic_IPv4Prefix eni),
             Nic_IPv6Prefix := map undelete_prefix (Nic_IPv6Prefix eni)\<rparr>))"

text \<open>
  One of the two loops of \<^verbatim>\<open>releaseUnUsedIP\<close>: idle addresses are marked for deletion until \<open>n\<close> of them
  are; the result also says how many were marked.
\<close>

fun mark_idle :: "string list \<Rightarrow> int \<Rightarrow> IPMap \<Rightarrow> IPMap \<times> int" where
  "mark_idle [] n m = (m, 0)"
| "mark_idle (k # ks) n m =
     (case map_of m k of
        None \<Rightarrow> mark_idle ks n m
      | Some v \<Rightarrow>
          if NIP_PodID v = [] \<and> \<not> NIP_Primary v \<and> n > 0 \<and> NIP_Status v \<noteq> IPStatusDeleting then
            (let (m', released) = mark_idle ks (n - 1) (gm_adjust k (\<lambda>v. v\<lparr>NIP_Status := IPStatusDeleting\<rparr>) m)
             in (m', released + 1))
          else mark_idle ks n m)"

definition releaseUnUsedIP ::
  "(string list \<Rightarrow> string list) \<Rightarrow> (string list \<Rightarrow> string list) \<Rightarrow> Nic \<Rightarrow> int \<Rightarrow> ENISpec \<Rightarrow> Nic \<times> int" where
  "releaseUnUsedIP ord4 ord6 eni toDel spec =
     (if Nic_Unschedulable eni then (eni, 0)
      else
        (let ipv6Only = (\<not> ES_EnableIPv4 spec \<and> ES_EnableIPv6 spec);
             v4 = ips (Nic_IPv4 eni); v6 = ips (Nic_IPv6 eni);
             inUse = snd (IPUsage v4); inUseV6 = snd (IPUsage v6);
             canDeleteENI = (if ipv6Only then int (length v6) \<le> toDel
                             else int (length v4) < toDel \<and> int (length v6) < toDel)
         in
         if inUse = 0 \<and> inUseV6 = 0 \<and> canDeleteENI \<and> Nic_NetworkInterfaceType eni = ENITypeSecondary \<and>
            Nic_NetworkInterfaceTrafficMode eni = NetworkInterfaceTrafficModeStandard
         then (eni\<lparr>Nic_Status := ENIStatusDeleting\<rparr>,
               if ipv6Only then int (length v6) else max (int (length v4)) (int (length v6)))
         else
           (let idleV4 = (if ipv6Only then 0 else IdlesWithAvailable v4);
                idleV6 = IdlesWithAvailable v6;
                leftover = max idleV4 idleV6 - toDel;
                toDelIPv4 = idleV4 - leftover;
                toDelIPv6 = idleV6 - leftover;
                (m4, releasedV4) = mark_idle (ord4 (keys v4)) toDelIPv4 v4;
                (m6, releasedV6) = mark_idle (ord6 (keys v6)) toDelIPv6 v6
            in (eni\<lparr>Nic_IPv4 := map_option (\<lambda>_. m4) (Nic_IPv4 eni), Nic_IPv6 := map_option (\<lambda>_. m6) (Nic_IPv6 eni)\<rparr>,
                max releasedV4 releasedV6))))"

subsection \<open>Reading what the cloud reports\<close>

definition convertIP :: "CloudIP \<Rightarrow> string \<times> NodeIP" where
  "convertIP item =
     (CI_IPAddress item,
      \<lparr>NIP_IP = CI_IPAddress item, NIP_Primary = CI_Primary item,
       NIP_Status = (if CI_IPName item \<noteq> [] \<and> CI_IPStatus item \<noteq> LENIIPStatusAvailable \<and> \<not> CI_Primary item
                     then IPStatusDeleting else IPStatusValid),
       NIP_PodID = [], NIP_PodUID = [], NIP_IPName = CI_IPName item\<rparr>)"

definition convertIPSet :: "CloudIP list \<Rightarrow> IPMap" where
  "convertIPSet inp = foldl (\<lambda>m item. case convertIP item of (k, v) \<Rightarrow> AList.update k v m) [] inp"

definition valid_prefix :: "string \<Rightarrow> IPPrefix" where
  "valid_prefix p = \<lparr>PX_Prefix = p, PX_Status = IPPrefixStatusValid, PX_FrozenExpireAt = 0\<rparr>"

definition newENIFromAPI :: "NetworkInterface \<Rightarrow> Nic" where
  "newENIFromAPI eni =
     zero_Nic\<lparr>Nic_ID := NI_NetworkInterfaceID eni, Nic_Status := NI_Status eni, Nic_MacAddress := NI_MacAddress eni,
       Nic_VSwitchID := NI_VSwitchID eni, Nic_SecurityGroupIDs := NI_SecurityGroupIDs eni,
       Nic_PrimaryIPAddress := NI_PrivateIPAddress eni,
       Nic_NetworkInterfaceTrafficMode := NI_NetworkInterfaceTrafficMode eni, Nic_NetworkInterfaceType := NI_Type eni,
       Nic_IPv4 := Some (convertIPSet (NI_PrivateIPSets eni)), Nic_IPv6 := Some (convertIPSet (NI_IPv6Set eni)),
       Nic_IPv4Prefix := map valid_prefix (NI_IPv4PrefixSets eni),
       Nic_IPv6Prefix := map valid_prefix (NI_IPv6PrefixSets eni)\<rparr>"

definition convertPrefixesToCR :: "string list \<Rightarrow> IPPrefix list" where
  "convertPrefixesToCR prefixes = (if prefixes = [] then [] else map valid_prefix prefixes)"

subsection \<open>Merging a report into the resource\<close>

definition merge_gone :: "IPPrefix \<Rightarrow> IPPrefix list" where
  "merge_gone p =
     (case PX_Status p of
        IPPrefixStatusDeleting \<Rightarrow> []
      | IPPrefixStatusInvalid \<Rightarrow> [p]
      | _ \<Rightarrow> [p\<lparr>PX_Status := IPPrefixStatusInvalid\<rparr>])"

definition mergeIPPrefixes :: "string list \<Rightarrow> IPPrefix list \<Rightarrow> IPPrefix list" where
  "mergeIPPrefixes remote current =
     (let existingByPrefix = foldl (\<lambda>m p. AList.update (PX_Prefix p) p m) [] current;
          pass1 = map (\<lambda>s. case map_of existingByPrefix s of Some existing \<Rightarrow> existing | None \<Rightarrow> valid_prefix s) remote;
          pass2 = concat (map (\<lambda>p. if PX_Prefix p \<in> set remote then [] else merge_gone p) current)
      in pass1 @ pass2)"

text \<open>
  The first loop of \<^verbatim>\<open>mergeIPMap\<close> treats every local address by itself; the second adds what is
  missing. A local map that is nil is replaced by a fresh one that the caller never sees.
\<close>

definition merge_local :: "IPMap \<Rightarrow> string \<times> NodeIP \<Rightarrow> (string \<times> NodeIP) option" where
  "merge_local remote kv =
     (case kv of (k, ip) \<Rightarrow>
        if map_of remote k \<noteq> None then Some (k, ip)
        else if NIP_Primary ip then Some (k, ip)
        else if NIP_PodID ip \<noteq> [] then Some (k, ip\<lparr>NIP_Status := IPStatusInvalid\<rparr>)
        else None)"

definition mergeIPMap :: "IPMap \<Rightarrow> IPMap option \<Rightarrow> IPMap option" where
  "mergeIPMap remote current =
     (case current of
        None \<Rightarrow> None
      | Some cur \<Rightarrow>
          (let cur = List.map_filter (merge_local remote) cur
           in Some (cur @ filter (\<lambda>(k, v). map_of cur k = None) remote)))"

subsection \<open>The order of the interfaces\<close>

definition nic_less :: "ENISpec \<Rightarrow> Nic \<Rightarrow> Nic \<Rightarrow> bool" where
  "nic_less spec a b =
     (if Nic_NetworkInterfaceType a = ENITypeTrunk \<and> Nic_NetworkInterfaceType b \<noteq> ENITypeTrunk then True
      else if Nic_NetworkInterfaceType a \<noteq> ENITypeTrunk \<and> Nic_NetworkInterfaceType b = ENITypeTrunk then False
      else if Nic_NetworkInterfaceTrafficMode a = NetworkInterfaceTrafficModeHighPerformance \<and>
              Nic_NetworkInterfaceTrafficMode b \<noteq> NetworkInterfaceTrafficModeHighPerformance then True
      else if Nic_NetworkInterfaceTrafficMode a \<noteq> NetworkInterfaceTrafficModeHighPerformance \<and>
              Nic_NetworkInterfaceTrafficMode b = NetworkInterfaceTrafficModeHighPerformance then False
      else if ES_EnableIPv4 spec then length (ips (Nic_IPv4 a)) > length (ips (Nic_IPv4 b))
      else length (ips (Nic_IPv6 a)) > length (ips (Nic_IPv6 b)))"

definition sortNetworkInterface ::
  "(string list \<Rightarrow> string list) \<Rightarrow> ENISpec \<Rightarrow> (string, Nic) gomap \<Rightarrow> (string \<times> Nic) list" where
  "sortNetworkInterface ord spec nics = stable_sort (\<lambda>a b. nic_less spec (snd a) (snd b)) (range_list ord nics)"

subsection \<open>The requests of the pods (pod.go)\<close>

text \<open>
  \<open>EniIP\<close>, the pointers to an interface and to one of its addresses: the keys under which the Node
  resource holds them.
\<close>

type_synonym EniIP = "string \<times> string"

record PodRequest =
  PR_PodUID :: string
  PR_RequireIPv4 :: bool
  PR_RequireIPv6 :: bool
  PR_RequireERDMA :: bool
  PR_IPv4 :: string
  PR_IPv6 :: string
  PR_ipv4Ref :: "EniIP option"
  PR_ipv6Ref :: "EniIP option"

fun pod_ips :: "string list \<Rightarrow> string \<times> string \<Rightarrow> (string \<times> string) option" where
  "pod_ips [] acc = Some acc"
| "pod_ips (v # vs) (ipv4, ipv6) =
     (if v = [] then pod_ips vs (ipv4, ipv6)
      else
        (case ParseAddr v of
           None \<Rightarrow> None
         | Some addr \<Rightarrow> if Addr_Is4 addr then pod_ips vs (v, ipv6) else pod_ips vs (ipv4, v)))"

definition podIPs :: "string list \<Rightarrow> (string \<times> string) option" where
  "podIPs addrs = pod_ips addrs ([], [])"

subsection \<open>What the loops keep\<close>

text \<open>An address that is given up: it was idle and not the primary one, and only its status changed.\<close>

definition given_up :: "NodeIP \<Rightarrow> NodeIP \<Rightarrow> bool" where
  "given_up v v' \<longleftrightarrow> v' = v \<or> NIP_PodID v = [] \<and> \<not> NIP_Primary v \<and> v' = v\<lparr>NIP_Status := IPStatusDeleting\<rparr>"

definition all_given_up :: "IPMap \<Rightarrow> IPMap \<Rightarrow> bool" where
  "all_given_up m m' \<longleftrightarrow> keys m' = keys m \<and>
     (\<forall>k v. map_of m k = Some v \<longrightarrow> (\<exists>v'. map_of m' k = Some v' \<and> given_up v v'))"

lemma all_given_up_refl [simp]: "all_given_up m m"
  by (simp add: all_given_up_def given_up_def)

lemma all_given_up_trans:
  assumes "all_given_up a b" and "all_given_up b c"
  shows "all_given_up a c"
proof -
  have step: "given_up u w" if "given_up u v" "given_up v w" for u v w
    using that by (auto simp: given_up_def)
  show ?thesis
    unfolding all_given_up_def
  proof (intro conjI allI impI)
    show "keys c = keys a" using assms by (simp add: all_given_up_def)
  next
    fix k u assume "map_of a k = Some u"
    then obtain v where "map_of b k = Some v" "given_up u v" using assms(1) unfolding all_given_up_def by blast
    moreover from this obtain w where "map_of c k = Some w" "given_up v w" using assms(2) unfolding all_given_up_def by blast
    ultimately show "\<exists>w. map_of c k = Some w \<and> given_up u w" using step by blast
  qed
qed

lemma all_given_up_adjust:
  assumes "map_of m k = Some v" and "NIP_PodID v = []" and "\<not> NIP_Primary v"
  shows "all_given_up m (gm_adjust k (\<lambda>v. v\<lparr>NIP_Status := IPStatusDeleting\<rparr>) m)"
  using assms by (auto simp: all_given_up_def given_up_def gm_simps)

lemma mark_idle_spec:
  "gm_ok m \<Longrightarrow> mark_idle ks n m = (m', r) \<Longrightarrow>
   all_given_up m m' \<and> 0 \<le> r \<and> r \<le> max 0 n \<and> int (gm_count idle_valid m) \<le> int (gm_count idle_valid m') + r"
proof (induction ks arbitrary: n m m' r)
  case (Cons k ks)
  show ?case
  proof (cases "\<exists>v. map_of m k = Some v \<and> NIP_PodID v = [] \<and> \<not> NIP_Primary v \<and> n > 0 \<and> NIP_Status v \<noteq> IPStatusDeleting")
    case True
    then obtain v where v: "map_of m k = Some v" "NIP_PodID v = []" "\<not> NIP_Primary v" "n > 0" "NIP_Status v \<noteq> IPStatusDeleting"
      by blast
    let ?m = "gm_adjust k (\<lambda>v. v\<lparr>NIP_Status := IPStatusDeleting\<rparr>) m"
    obtain m1 r1 where r1: "mark_idle ks (n - 1) ?m = (m1, r1)" by (cases "mark_idle ks (n - 1) ?m")
    have res: "m' = m1" "r = r1 + 1" using Cons.prems(2) v r1 by simp_all
    note ih = Cons.IH [OF _ r1]
    have "all_given_up m m1"
      using ih Cons.prems(1) all_given_up_adjust [OF v(1-3)] all_given_up_trans by simp
    moreover have "int (gm_count idle_valid m) \<le> int (gm_count idle_valid m1) + r"
      using ih gm_count_adjust [OF Cons.prems(1), of idle_valid k "\<lambda>v. v\<lparr>NIP_Status := IPStatusDeleting\<rparr>"] Cons.prems(1)
      by (simp add: res)
    ultimately show ?thesis using ih Cons.prems(1) v(4) by (simp add: res)
  next
    case False
    then have "mark_idle ks n m = (m', r)" using Cons.prems(2) by (auto split: option.splits if_splits)
    then show ?thesis by (rule Cons.IH [OF Cons.prems(1)])
  qed
qed simp

lemma IPUsage_zero: "snd (IPUsage m) = 0 \<Longrightarrow> map_of m k = Some v \<Longrightarrow> NIP_PodID v = []"
  by (auto simp: IPUsage_def gm_count_zero dest: map_of_SomeD)

lemma IdlesWithAvailable_le: "IdlesWithAvailable m \<le> int (length m)"
  by (simp add: IdlesWithAvailable_def gm_count_le)

text \<open>The idle addresses of an interface that new pods may use, of the family the pool counts.\<close>

definition pool_ips :: "ENISpec \<Rightarrow> Nic \<Rightarrow> IPMap" where
  "pool_ips spec nic = (if ES_EnableIPv4 spec then ips (Nic_IPv4 nic) else ips (Nic_IPv6 nic))"

definition pool_idles :: "ENISpec \<Rightarrow> Nic \<Rightarrow> int" where
  "pool_idles spec nic =
     (if Nic_Status nic \<noteq> ENIStatusInUse \<or> Nic_Unschedulable nic then 0 else IdlesWithAvailable (pool_ips spec nic))"

definition nic_ok :: "Nic \<Rightarrow> bool" where
  "nic_ok nic \<longleftrightarrow> gm_ok (ips (Nic_IPv4 nic)) \<and> gm_ok (ips (Nic_IPv6 nic))"

lemma releaseUnUsedIP_cases:
  assumes ok: "nic_ok eni" and call: "releaseUnUsedIP ord4 ord6 eni toDel spec = (eni', c)" and pos: "0 < toDel"
  obtains (unschedulable) "Nic_Unschedulable eni" "eni' = eni" "c = 0"
  | (eni) "\<not> Nic_Unschedulable eni" "eni' = eni\<lparr>Nic_Status := ENIStatusDeleting\<rparr>"
      "nic_key eni = secondaryKey" "snd (IPUsage (ips (Nic_IPv4 eni))) = 0" "snd (IPUsage (ips (Nic_IPv6 eni))) = 0"
      "0 \<le> c" "c \<le> toDel" "pool_idles spec eni \<le> c"
  | (addresses) m4 m6 where "\<not> Nic_Unschedulable eni"
      "eni' = eni\<lparr>Nic_IPv4 := map_option (\<lambda>_. m4) (Nic_IPv4 eni), Nic_IPv6 := map_option (\<lambda>_. m6) (Nic_IPv6 eni)\<rparr>"
      "all_given_up (ips (Nic_IPv4 eni)) m4" "all_given_up (ips (Nic_IPv6 eni)) m6"
      "0 \<le> c" "c \<le> toDel" "pool_idles spec eni \<le> pool_idles spec eni' + c"
proof (cases "Nic_Unschedulable eni")
  case True
  then have "(eni, 0) = (eni', c)" using call unfolding releaseUnUsedIP_def by (simp only: if_P)
  then show ?thesis using True by (intro unschedulable) simp_all
next
  case sched: False
  let ?only = "\<not> ES_EnableIPv4 spec \<and> ES_EnableIPv6 spec"
  let ?v4 = "ips (Nic_IPv4 eni)" and ?v6 = "ips (Nic_IPv6 eni)"
  let ?can = "if ?only then int (length ?v6) \<le> toDel else int (length ?v4) < toDel \<and> int (length ?v6) < toDel"
  let ?del = "snd (IPUsage ?v4) = 0 \<and> snd (IPUsage ?v6) = 0 \<and> ?can \<and> Nic_NetworkInterfaceType eni = ENITypeSecondary \<and>
    Nic_NetworkInterfaceTrafficMode eni = NetworkInterfaceTrafficModeStandard"
  show ?thesis
  proof (cases ?del)
    case True
    have "(eni\<lparr>Nic_Status := ENIStatusDeleting\<rparr>,
      if ?only then int (length ?v6) else max (int (length ?v4)) (int (length ?v6))) = (eni', c)"
      using call unfolding releaseUnUsedIP_def Let_def if_not_P [OF sched] if_P [OF True] .
    then have e: "eni' = eni\<lparr>Nic_Status := ENIStatusDeleting\<rparr>"
      "c = (if ?only then int (length ?v6) else max (int (length ?v4)) (int (length ?v6)))" by simp_all
    have "?can" using True by blast
    then have "0 \<le> c" "c \<le> toDel" by (auto simp: e(2) split: if_splits)
    moreover have "pool_idles spec eni \<le> c"
      using IdlesWithAvailable_le [of ?v4] IdlesWithAvailable_le [of ?v6] by (auto simp: e(2) pool_idles_def pool_ips_def)
    moreover have "nic_key eni = secondaryKey" using True by (simp add: nic_key_def secondaryKey_def)
    ultimately show ?thesis using eni sched e(1) True by blast
  next
    case False
    let ?i4 = "if ?only then 0 else IdlesWithAvailable ?v4" and ?i6 = "IdlesWithAvailable ?v6"
    let ?left = "max ?i4 ?i6 - toDel"
    obtain m4 r4 where r4: "mark_idle (ord4 (keys ?v4)) (?i4 - ?left) ?v4 = (m4, r4)"
      by (cases "mark_idle (ord4 (keys ?v4)) (?i4 - ?left) ?v4")
    obtain m6 r6 where r6: "mark_idle (ord6 (keys ?v6)) (?i6 - ?left) ?v6 = (m6, r6)"
      by (cases "mark_idle (ord6 (keys ?v6)) (?i6 - ?left) ?v6")
    have e: "eni' = eni\<lparr>Nic_IPv4 := map_option (\<lambda>_. m4) (Nic_IPv4 eni), Nic_IPv6 := map_option (\<lambda>_. m6) (Nic_IPv6 eni)\<rparr>"
      "c = max r4 r6"
      using call unfolding releaseUnUsedIP_def Let_def if_not_P [OF sched] if_not_P [OF False] r4 r6 by simp_all
    have ok4: "gm_ok ?v4" and ok6: "gm_ok ?v6" using ok by (simp_all add: nic_ok_def)
    note s4 = mark_idle_spec [OF ok4 r4] and s6 = mark_idle_spec [OF ok6 r6]
    have i: "ips (Nic_IPv4 eni') = m4" "ips (Nic_IPv6 eni') = m6" "Nic_Status eni' = Nic_Status eni"
      "Nic_Unschedulable eni' = Nic_Unschedulable eni"
      using s4 s6 by (auto simp: e all_given_up_def ips_def split: option.splits)
    have c: "0 \<le> c" "r4 \<le> c" "r6 \<le> c" using s4 s6 unfolding e(2) by linarith+
    have "IdlesWithAvailable ?v4 \<le> IdlesWithAvailable m4 + c" "IdlesWithAvailable ?v6 \<le> IdlesWithAvailable m6 + c"
      using s4 s6 c unfolding IdlesWithAvailable_def by linarith+
    then have "pool_idles spec eni \<le> pool_idles spec eni' + c"
      using c(1) unfolding pool_idles_def pool_ips_def i by simp
    moreover have "c \<le> toDel" using s4 s6 pos unfolding e(2) by linarith
    moreover note c(1)
    ultimately show ?thesis using addresses sched e(1) s4 s6 by blast
  qed
qed

subsection \<open>What a merge keeps\<close>

lemma merge_local_key: "key_keeping (merge_local remote)"
  by (auto simp: key_keeping_def merge_local_def split: if_splits)

text \<open>
  After a merge into a map that is not nil, an address is there exactly if the cloud reports it, or it
  is the primary one or in use; nothing but the status of an address changes, and that only to
  invalid, for an address in use that the cloud no longer reports.
\<close>

lemma mergeIPMap_lookup:
  assumes "gm_ok remote" and "gm_ok cur" and "mergeIPMap remote (Some cur) = Some m"
  shows "gm_ok m" and "map_of m k =
    (case map_of cur k of
       None \<Rightarrow> map_of remote k
     | Some ip \<Rightarrow>
         if map_of remote k \<noteq> None \<or> NIP_Primary ip then Some ip
         else if NIP_PodID ip \<noteq> [] then Some (ip\<lparr>NIP_Status := IPStatusInvalid\<rparr>) else None)"
proof -
  let ?c = "List.map_filter (merge_local remote) cur"
  have m: "m = ?c @ filter (\<lambda>(k, v). map_of ?c k = None) remote" using assms(3) by (simp add: mergeIPMap_def Let_def)
  have c: "gm_ok ?c" by (rule gm_ok_map_filter [OF merge_local_key assms(2)])
  have l: "map_of ?c k = (case map_of cur k of None \<Rightarrow> None | Some v \<Rightarrow> map_option snd (merge_local remote (k, v)))"
    by (rule map_of_map_filter [OF merge_local_key assms(2)])
  show "gm_ok m"
    unfolding m gm_ok_append using c gm_ok_filter [OF assms(1)] by (force simp: map_of_eq_None_iff)
  show "map_of m k =
    (case map_of cur k of
       None \<Rightarrow> map_of remote k
     | Some ip \<Rightarrow>
         if map_of remote k \<noteq> None \<or> NIP_Primary ip then Some ip
         else if NIP_PodID ip \<noteq> [] then Some (ip\<lparr>NIP_Status := IPStatusInvalid\<rparr>) else None)"
    unfolding m map_of_append map_add_def map_of_filter_key [OF assms(1)] l
    by (auto simp: merge_local_def split: option.splits if_splits)
qed

lemma mergeIPMap_nil [simp]: "mergeIPMap remote None = None"
  by (simp add: mergeIPMap_def)

lemma mergeIPMap_Some: "\<exists>m. mergeIPMap remote (Some cur) = Some m"
  by (simp add: mergeIPMap_def Let_def)

lemma gm_ok_foldl_update: "gm_ok m \<Longrightarrow> gm_ok (foldl (\<lambda>m x. AList.update (f x) (g x) m) m xs)"
  by (induction xs arbitrary: m) simp_all

lemma gm_ok_convertIPSet [simp]: "gm_ok (convertIPSet inp)"
  unfolding convertIPSet_def convertIP_def by (simp add: gm_ok_foldl_update)

lemma foldl_update_keep:
  "k \<notin> f ` set xs \<Longrightarrow> map_of (foldl (\<lambda>m x. AList.update (f x) (g x) m) m xs) k = map_of m k"
  by (induction xs arbitrary: m) (auto simp: gm_simps)

lemma map_of_foldl_update:
  "map_of (foldl (\<lambda>m x. AList.update (f x) (g x) m) m xs) k =
     (case find (\<lambda>x. f x = k) (rev xs) of None \<Rightarrow> map_of m k | Some x \<Rightarrow> Some (g x))"
proof (induction xs rule: rev_induct)
  case (snoc x xs)
  then show ?case by (simp add: gm_simps)
qed simp

lemma convertIPSet_free:
  assumes "map_of (convertIPSet inp) k = Some v"
  shows "NIP_PodID v = [] \<and> NIP_IP v = k \<and> (\<exists>i \<in> set inp. CI_IPAddress i = k)"
proof -
  obtain i where "i \<in> set inp" "convertIP i = (k, v)"
    using assms unfolding convertIPSet_def convertIP_def
    by (auto simp: map_of_foldl_update split: option.splits dest!: find_Some_D)
  then show ?thesis by (auto simp: convertIP_def)
qed

text \<open>
  A merge of prefixes keeps what is known of a prefix the cloud still reports, adds a new one as
  valid, and a prefix the cloud no longer reports is dropped when its deletion was on the way and
  else invalid.
\<close>

lemma existing_prefix:
  assumes "distinct (map PX_Prefix current)" and "p \<in> set current"
  shows "map_of (foldl (\<lambda>m p. AList.update (PX_Prefix p) p m) [] current) (PX_Prefix p) = Some p"
proof -
  have "find (\<lambda>x. PX_Prefix x = PX_Prefix p) (rev current) \<noteq> None"
    using assms(2) by (intro find_not_None [where x = p]) simp_all
  then obtain q where q: "find (\<lambda>x. PX_Prefix x = PX_Prefix p) (rev current) = Some q" by blast
  then have "q \<in> set current" "PX_Prefix q = PX_Prefix p" by (auto dest: find_Some_D)
  then have "q = p" using assms by (auto simp: distinct_map inj_on_def)
  then show ?thesis using q by (simp add: map_of_foldl_update)
qed

lemma merge_gone_set: "q \<in> set (merge_gone p) \<longleftrightarrow>
    PX_Status p \<noteq> IPPrefixStatusDeleting \<and> q = p\<lparr>PX_Status := IPPrefixStatusInvalid\<rparr>"
  by (cases "PX_Status p") (auto simp: merge_gone_def)

lemma mergeIPPrefixes_set:
  assumes "distinct (map PX_Prefix current)"
  shows "q \<in> set (mergeIPPrefixes remote current) \<longleftrightarrow>
    q \<in> set current \<and> PX_Prefix q \<in> set remote \<or>
    PX_Prefix q \<in> set remote - PX_Prefix ` set current \<and> q = valid_prefix (PX_Prefix q) \<or>
    (\<exists>p \<in> set current. PX_Prefix p \<notin> set remote \<and> PX_Status p \<noteq> IPPrefixStatusDeleting \<and> q = p\<lparr>PX_Status := IPPrefixStatusInvalid\<rparr>)"
  (is "?l \<longleftrightarrow> ?old \<or> ?new \<or> ?gone")
proof -
  let ?ex = "map_of (foldl (\<lambda>m p. AList.update (PX_Prefix p) p m) [] current)"
  have none: "?ex s = None" if "s \<notin> PX_Prefix ` set current" for s
    using foldl_update_keep [of s PX_Prefix current "\<lambda>p. p" "[]"] that by simp
  have "(\<exists>s \<in> set remote. q = (case ?ex s of Some e \<Rightarrow> e | None \<Rightarrow> valid_prefix s)) \<longleftrightarrow> ?old \<or> ?new"
  proof
    assume "\<exists>s \<in> set remote. q = (case ?ex s of Some e \<Rightarrow> e | None \<Rightarrow> valid_prefix s)"
    then obtain s where s: "s \<in> set remote" "q = (case ?ex s of Some e \<Rightarrow> e | None \<Rightarrow> valid_prefix s)" by blast
    show "?old \<or> ?new"
    proof (cases "s \<in> PX_Prefix ` set current")
      case True
      then show ?thesis using s existing_prefix [OF assms] by auto
    next
      case False
      then show ?thesis using s none [of s] by (simp add: valid_prefix_def)
    qed
  next
    assume "?old \<or> ?new"
    then show "\<exists>s \<in> set remote. q = (case ?ex s of Some e \<Rightarrow> e | None \<Rightarrow> valid_prefix s)"
    proof
      assume ?old
      then show ?thesis using existing_prefix [OF assms, of q] by (intro bexI [of _ "PX_Prefix q"]) simp_all
    next
      assume ?new
      then show ?thesis using none [of "PX_Prefix q"] by (intro bexI [of _ "PX_Prefix q"]) simp_all
    qed
  qed
  moreover have "(\<exists>p \<in> set current. q \<in> set (if PX_Prefix p \<in> set remote then [] else merge_gone p)) \<longleftrightarrow> ?gone"
    by (auto simp: merge_gone_set)
  moreover have "?l \<longleftrightarrow> (\<exists>s \<in> set remote. q = (case ?ex s of Some e \<Rightarrow> e | None \<Rightarrow> valid_prefix s)) \<or>
    (\<exists>p \<in> set current. q \<in> set (if PX_Prefix p \<in> set remote then [] else merge_gone p))"
    unfolding mergeIPPrefixes_def Let_def by auto
  ultimately show ?thesis by blast
qed

end
