(* ===== verification/NodeAssign.thy ===== *)
theory NodeAssign
  imports NodeEni
begin

section \<open>Pods and addresses (pkg/controller/multi-ip/node/pool.go)\<close>

text \<open>
  How the node controller binds the addresses of the Node resource to the pods of the node:
  \<^verbatim>\<open>buildIPMap\<close> indexes the addresses and links the pods that own one, \<^verbatim>\<open>releasePodNotFound\<close> takes the
  addresses of pods that are gone, and \<^verbatim>\<open>assignIPFromLocalPool\<close> hands out idle addresses. The code
  works on pointers into the Node resource; here an \<open>EniIP\<close> holds the keys, \<open>ip_of\<close> reads and
  \<open>ip_write\<close> writes through it. The branches for the two families differ in few places only, so the
  operations have the family as an argument.
\<close>

datatype ipfam = V4 | V6

definition nic_ips :: "ipfam \<Rightarrow> Nic \<Rightarrow> IPMap" where
  "nic_ips f nic = (case f of V4 \<Rightarrow> ips (Nic_IPv4 nic) | V6 \<Rightarrow> ips (Nic_IPv6 nic))"

definition nic_write :: "ipfam \<Rightarrow> (IPMap \<Rightarrow> IPMap) \<Rightarrow> Nic \<Rightarrow> Nic" where
  "nic_write f g nic =
     (case f of V4 \<Rightarrow> nic\<lparr>Nic_IPv4 := map_option g (Nic_IPv4 nic)\<rparr> | V6 \<Rightarrow> nic\<lparr>Nic_IPv6 := map_option g (Nic_IPv6 nic)\<rparr>)"

type_synonym Nics = "(string, Nic) gomap"

definition ip_of :: "ipfam \<Rightarrow> Nics \<Rightarrow> EniIP \<Rightarrow> NodeIP option" where
  "ip_of f nics r = (case map_of nics (fst r) of None \<Rightarrow> None | Some nic \<Rightarrow> map_of (nic_ips f nic) (snd r))"

definition ip_write :: "ipfam \<Rightarrow> EniIP \<Rightarrow> (NodeIP \<Rightarrow> NodeIP) \<Rightarrow> Nics \<Rightarrow> Nics" where
  "ip_write f r g nics = gm_adjust (fst r) (nic_write f (gm_adjust (snd r) g)) nics"

definition PR_Require :: "ipfam \<Rightarrow> PodRequest \<Rightarrow> bool" where
  "PR_Require f p = (case f of V4 \<Rightarrow> PR_RequireIPv4 p | V6 \<Rightarrow> PR_RequireIPv6 p)"

definition PR_want :: "ipfam \<Rightarrow> PodRequest \<Rightarrow> string" where
  "PR_want f p = (case f of V4 \<Rightarrow> PR_IPv4 p | V6 \<Rightarrow> PR_IPv6 p)"

definition PR_ref :: "ipfam \<Rightarrow> PodRequest \<Rightarrow> EniIP option" where
  "PR_ref f p = (case f of V4 \<Rightarrow> PR_ipv4Ref p | V6 \<Rightarrow> PR_ipv6Ref p)"

definition PR_set_ref :: "ipfam \<Rightarrow> EniIP option \<Rightarrow> PodRequest \<Rightarrow> PodRequest" where
  "PR_set_ref f r p = (case f of V4 \<Rightarrow> p\<lparr>PR_ipv4Ref := r\<rparr> | V6 \<Rightarrow> p\<lparr>PR_ipv6Ref := r\<rparr>)"

record ipam_st =
  IS_nics :: Nics
  IS_pods :: "(string, PodRequest) gomap"
  IS_LastModifiedTime :: time

subsection \<open>The index of addresses\<close>

definition entries :: "(string list \<Rightarrow> string list) \<Rightarrow> (string list \<Rightarrow> string list) \<Rightarrow> ipfam \<Rightarrow> Nics \<Rightarrow> (EniIP \<times> NodeIP) list" where
  "entries ordE ordI f nics =
     concat (map (\<lambda>(n, nic). map (\<lambda>(k, v). ((n, k), v)) (range_list ordI (nic_ips f nic))) (range_list ordE nics))"

fun index_ips :: "ipfam \<Rightarrow> (EniIP \<times> NodeIP) list \<Rightarrow> (string, EniIP) gomap \<times> (string, PodRequest) gomap \<Rightarrow>
    (string, EniIP) gomap \<times> (string, PodRequest) gomap" where
  "index_ips f [] acc = acc"
| "index_ips f ((r, v) # es) (ipMap, pods) =
     index_ips f es (AList.update (snd r) r ipMap, gm_adjust (NIP_PodID v) (PR_set_ref f (Some r)) pods)"

definition buildIPMap ::
  "(string list \<Rightarrow> string list) \<Rightarrow> (string list \<Rightarrow> string list) \<Rightarrow> ipam_st \<Rightarrow>
   (string, EniIP) gomap \<times> (string, EniIP) gomap \<times> ipam_st" where
  "buildIPMap ordE ordI st =
     (let (ipv4Map, pods) = index_ips V4 (entries ordE ordI V4 (IS_nics st)) ([], IS_pods st);
          (ipv6Map, pods) = index_ips V6 (entries ordE ordI V6 (IS_nics st)) ([], pods)
      in (ipv4Map, ipv6Map, st\<lparr>IS_pods := pods\<rparr>))"

subsection \<open>Addresses of pods that are gone\<close>

text \<open>
  The state of a pod on the node as the daemon records it (node_runtime.go), by the uid of the pod:
  when each status was last updated. The latest one counts (pkg/utils/k8s.go).
\<close>

datatype CNIStatus = CNIStatusInitial | CNIStatusDeleted

type_synonym RuntimePodStatus = "(CNIStatus, time option) gomap"

fun runtime_final :: "(CNIStatus \<times> time option) list \<Rightarrow> (CNIStatus \<times> time) option \<Rightarrow> (CNIStatus \<times> time) option" where
  "runtime_final [] acc = acc"
| "runtime_final ((cni, info) # es) acc =
     (case info of
        None \<Rightarrow> runtime_final es acc
      | Some t \<Rightarrow>
          (case acc of
             None \<Rightarrow> runtime_final es (Some (cni, t))
           | Some (c, u) \<Rightarrow> if u < t then runtime_final es (Some (cni, t)) else runtime_final es acc))"

definition RuntimeFinalStatus :: "(CNIStatus list \<Rightarrow> CNIStatus list) \<Rightarrow> RuntimePodStatus \<Rightarrow> CNIStatus option" where
  "RuntimeFinalStatus ord status = map_option fst (runtime_final (range_list ord status) None)"

definition getTagFromImage :: "string \<Rightarrow> string" where
  "getTagFromImage img =
     (let imageWithoutDigest = hd (split_at CHR ''@'' img);
          parts = split_at CHR '':'' imageWithoutDigest
      in if length parts = 1 then ''latest''
         else let tag = last parts in if CHR ''/'' \<notin> set tag then tag else ''latest'')"

text \<open>
  Whether the daemon of the node reports the state of its pods: decided by the version in the image
  of its first container (\<open>None\<close>: it could not be listed, or there is none). Comparing versions is
  a parameter, as the library that does it is not part of the repository.
\<close>

definition isDaemonSupportNodeRuntime ::
  "(string \<Rightarrow> bool) \<Rightarrow> (string \<Rightarrow> string \<Rightarrow> int) \<Rightarrow> string option \<Rightarrow> bool" where
  "isDaemonSupportNodeRuntime semver_IsValid semver_Compare daemonImage =
     (case daemonImage of
        None \<Rightarrow> True
      | Some img \<Rightarrow>
          (let tag = getTagFromImage img
           in if \<not> semver_IsValid tag then True else \<not> semver_Compare tag ''v1.11.3'' < 0))"

text \<open>What reading the NodeRuntime resource gives.\<close>

datatype runtime_get = RuntimeFound "(string, RuntimePodStatus) gomap" | RuntimeNotFound | RuntimeError

definition gone_on_node :: "(CNIStatus list \<Rightarrow> CNIStatus list) \<Rightarrow> (string, RuntimePodStatus) gomap \<Rightarrow> string \<Rightarrow> bool" where
  "gone_on_node ordS runtime uid =
     (case map_of runtime uid of
        None \<Rightarrow> False
      | Some status \<Rightarrow> RuntimeFinalStatus ordS status = Some CNIStatusDeleted)"

definition release_ip ::
  "(CNIStatus list \<Rightarrow> CNIStatus list) \<Rightarrow> bool \<Rightarrow> (string, RuntimePodStatus) gomap \<Rightarrow> (string, PodRequest) gomap \<Rightarrow> NodeIP \<Rightarrow> NodeIP" where
  "release_ip ordS daemonSupport runtime pods ip =
     (if NIP_PodID ip = [] then ip
      else
        (case map_of pods (NIP_PodID ip) of
           Some info \<Rightarrow> ip\<lparr>NIP_PodUID := PR_PodUID info\<rparr>
         | None \<Rightarrow>
             if NIP_PodUID ip \<noteq> [] \<and> daemonSupport \<and> \<not> gone_on_node ordS runtime (NIP_PodUID ip) then ip
             else ip\<lparr>NIP_PodID := [], NIP_PodUID := [],
                     NIP_Status := (if NIP_Status ip = IPStatusInvalid \<and> \<not> NIP_Primary ip then IPStatusDeleting
                                    else NIP_Status ip)\<rparr>))"

definition releasePodNotFound ::
  "(CNIStatus list \<Rightarrow> CNIStatus list) \<Rightarrow> runtime_get \<Rightarrow> bool \<Rightarrow>
   (string, EniIP) gomap \<Rightarrow> (string, EniIP) gomap \<Rightarrow> ipam_st \<Rightarrow> ipam_st" where
  "releasePodNotFound ordS got daemonSupportsRuntime ipv4Map ipv6Map st =
     (let release = (\<lambda>daemonSupport runtime.
            let free = release_ip ordS daemonSupport runtime (IS_pods st);
                nics = foldl (\<lambda>nics r. ip_write V4 r free nics) (IS_nics st) (vals ipv4Map);
                nics = foldl (\<lambda>nics r. ip_write V6 r free nics) nics (vals ipv6Map)
            in st\<lparr>IS_nics := nics\<rparr>)
      in case got of
           RuntimeError \<Rightarrow> st
         | RuntimeNotFound \<Rightarrow> if daemonSupportsRuntime then st else release False []
         | RuntimeFound runtime \<Rightarrow> release True runtime)"

subsection \<open>Handing out addresses\<close>

definition give :: "ipfam \<Rightarrow> string \<Rightarrow> string \<Rightarrow> EniIP \<Rightarrow> ipam_st \<Rightarrow> ipam_st" where
  "give f podID uid r st =
     st\<lparr>IS_nics := ip_write f r (\<lambda>ip. ip\<lparr>NIP_PodID := podID, NIP_PodUID := uid\<rparr>) (IS_nics st),
        IS_pods := gm_adjust podID (PR_set_ref f (Some r)) (IS_pods st)\<rparr>"

definition pending :: "PodRequest \<Rightarrow> bool" where
  "pending value =
     (if PR_RequireIPv4 value \<and> PR_ipv4Ref value = None then True
      else if PR_RequireIPv6 value \<and> PR_ipv6Ref value = None then True
      else PR_IPv6 value = [] \<and> PR_IPv4 value = [])"

text \<open>A pod that already runs with an address keeps it.\<close>

definition take_over :: "ipfam \<Rightarrow> (string, EniIP) gomap \<Rightarrow> string \<Rightarrow> ipam_st \<Rightarrow> ipam_st" where
  "take_over f ipMap podID st =
     (case map_of (IS_pods st) podID of
        None \<Rightarrow> st
      | Some info \<Rightarrow>
          if PR_Require f info \<and> PR_ref f info = None \<and> PR_want f info \<noteq> [] then
            (case map_of ipMap (PR_want f info) of
               None \<Rightarrow> st
             | Some r \<Rightarrow>
                 (case ip_of f (IS_nics st) r of
                    None \<Rightarrow> st
                  | Some ip \<Rightarrow>
                      if NIP_PodID ip = [] \<or> NIP_PodID ip = podID then give f podID (PR_PodUID info) r st else st))
          else st)"

text \<open>Whether a new pod may be put on an interface, and whether an address is free for it.\<close>

definition nic_suits :: "PodRequest \<Rightarrow> Nic \<Rightarrow> bool" where
  "nic_suits info nic \<longleftrightarrow>
     Nic_Status nic = ENIStatusInUse \<and>
     \<not> (PR_RequireERDMA info \<and> Nic_NetworkInterfaceTrafficMode nic \<noteq> NetworkInterfaceTrafficModeHighPerformance) \<and>
     \<not> (\<not> PR_RequireERDMA info \<and> Nic_NetworkInterfaceTrafficMode nic = NetworkInterfaceTrafficModeHighPerformance) \<and>
     \<not> Nic_Unschedulable nic"

definition same_nic :: "Nics \<Rightarrow> PodRequest \<Rightarrow> Nic \<Rightarrow> bool" where
  "same_nic nics info nic =
     (case PR_ipv4Ref info of
        None \<Rightarrow> True
      | Some r \<Rightarrow> (case map_of nics (fst r) of None \<Rightarrow> False | Some nic4 \<Rightarrow> Nic_ID nic = Nic_ID nic4))"

definition ip_fits :: "ipfam \<Rightarrow> Nics \<Rightarrow> PodRequest \<Rightarrow> EniIP \<Rightarrow> bool" where
  "ip_fits f nics info r =
     (case map_of nics (fst r) of
        None \<Rightarrow> False
      | Some nic \<Rightarrow>
          nic_suits info nic \<and> (f = V6 \<longrightarrow> same_nic nics info nic) \<and>
          (case ip_of f nics r of None \<Rightarrow> False | Some ip \<Rightarrow> NIP_Status ip = IPStatusValid \<and> NIP_PodID ip = []))"

definition pick :: "time \<Rightarrow> ipfam \<Rightarrow> (string list \<Rightarrow> string list) \<Rightarrow> (string, EniIP) gomap \<Rightarrow> string \<Rightarrow> PodRequest \<Rightarrow> ipam_st \<Rightarrow> ipam_st" where
  "pick now f ord ipMap podID info st =
     (case range_find ord (ip_fits f (IS_nics st) info) ipMap of
        None \<Rightarrow> st
      | Some k \<Rightarrow>
          (case map_of ipMap k of
             None \<Rightarrow> st
           | Some r \<Rightarrow> (give f podID (PR_PodUID info) r st)\<lparr>IS_LastModifiedTime := now\<rparr>))"

text \<open>
  One round of the second loop for one family: the pod gets an address unless it has one or asks for
  a given one; whether it has one afterwards.
\<close>

definition serve :: "time \<Rightarrow> ipfam \<Rightarrow> (string list \<Rightarrow> string list) \<Rightarrow> (string, EniIP) gomap \<Rightarrow> string \<Rightarrow> ipam_st \<Rightarrow> ipam_st \<times> bool" where
  "serve now f ord ipMap podID st =
     (case map_of (IS_pods st) podID of
        None \<Rightarrow> (st, True)
      | Some info \<Rightarrow>
          if PR_Require f info \<and> PR_ref f info = None then
            (let st = (if PR_want f info = [] then pick now f ord ipMap podID info st else st)
             in (st, case map_of (IS_pods st) podID of None \<Rightarrow> True | Some info \<Rightarrow> PR_ref f info \<noteq> None))
          else (st, True))"

definition roll_back :: "string \<Rightarrow> ipam_st \<Rightarrow> ipam_st" where
  "roll_back podID st =
     (case map_of (IS_pods st) podID of
        None \<Rightarrow> st
      | Some info \<Rightarrow>
          (case PR_ipv4Ref info of
             None \<Rightarrow> st
           | Some r \<Rightarrow>
               if PR_IPv4 info = [] then
                 st\<lparr>IS_nics := ip_write V4 r (\<lambda>ip. ip\<lparr>NIP_PodID := [], NIP_PodUID := []\<rparr>) (IS_nics st),
                    IS_pods := gm_adjust podID (PR_set_ref V4 None) (IS_pods st)\<rparr>
               else st))"

definition serve_pod ::
  "time \<Rightarrow> (string \<Rightarrow> string list \<Rightarrow> string list) \<Rightarrow> (string \<Rightarrow> string list \<Rightarrow> string list) \<Rightarrow>
   (string, EniIP) gomap \<Rightarrow> (string, EniIP) gomap \<Rightarrow> string \<Rightarrow> ipam_st \<times> string list \<Rightarrow> ipam_st \<times> string list" where
  "serve_pod now ord4 ord6 ipv4Map ipv6Map podID acc =
     (case acc of (st, unSucceedPods) \<Rightarrow>
        (case serve now V4 (ord4 podID) ipv4Map podID st of
           (st, False) \<Rightarrow> (st, unSucceedPods @ [podID])
         | (st, True) \<Rightarrow>
             (case serve now V6 (ord6 podID) ipv6Map podID st of
                (st, False) \<Rightarrow> (roll_back podID st, unSucceedPods @ [podID])
              | (st, True) \<Rightarrow> (st, unSucceedPods))))"

definition pending_ids :: "(string, PodRequest) gomap \<Rightarrow> string list" where
  "pending_ids pods = sort (map fst (filter (\<lambda>(podID, info). pending info) pods))"

definition assignIPFromLocalPool ::
  "time \<Rightarrow> (string \<Rightarrow> string list \<Rightarrow> string list) \<Rightarrow> (string \<Rightarrow> string list \<Rightarrow> string list) \<Rightarrow>
   (string, EniIP) gomap \<Rightarrow> (string, EniIP) gomap \<Rightarrow> ipam_st \<Rightarrow> ipam_st \<times> string list" where
  "assignIPFromLocalPool now ord4 ord6 ipv4Map ipv6Map st =
     (let podIDs = pending_ids (IS_pods st);
          st = foldl (\<lambda>st podID. take_over V6 ipv6Map podID (take_over V4 ipv4Map podID st)) st podIDs
      in foldl (\<lambda>acc podID. serve_pod now ord4 ord6 ipv4Map ipv6Map podID acc) (st, []) podIDs)"

subsection \<open>Reading and writing through the pointers\<close>

lemma gm_adjust_Nil [simp]: "gm_adjust k g [] = []"
  by (simp add: gm_adjust_def)

lemma nic_ips_adjust [simp]:
  "nic_ips f' (nic_write f (gm_adjust k g) nic) = (if f' = f then gm_adjust k g (nic_ips f nic) else nic_ips f' nic)"
  by (cases f; cases f'; cases "Nic_IPv4 nic"; cases "Nic_IPv6 nic") (simp_all add: nic_ips_def nic_write_def)

lemma ip_of_write [gm_simps]:
  "ip_of f' (ip_write f r g nics) r' = (if f' = f \<and> r' = r then map_option g (ip_of f nics r) else ip_of f' nics r')"
  by (cases r; cases r') (auto simp: ip_of_def ip_write_def gm_simps split: option.splits)

text \<open>The pod an address belongs to.\<close>

definition owner :: "ipfam \<Rightarrow> Nics \<Rightarrow> EniIP \<Rightarrow> string option" where
  "owner f nics r = (case ip_of f nics r of None \<Rightarrow> None | Some ip \<Rightarrow> if NIP_PodID ip = [] then None else Some (NIP_PodID ip))"

lemma owner_Some: "owner f nics r = Some p \<longleftrightarrow> (\<exists>ip. ip_of f nics r = Some ip \<and> NIP_PodID ip = p \<and> p \<noteq> [])"
  by (auto simp: owner_def split: option.splits)

text \<open>The interfaces without their owners; the pods without their links.\<close>

definition bare_ip :: "NodeIP \<Rightarrow> NodeIP" where
  "bare_ip ip = ip\<lparr>NIP_PodID := [], NIP_PodUID := []\<rparr>"

definition bare_nic :: "Nic \<Rightarrow> Nic" where
  "bare_nic nic = nic\<lparr>Nic_IPv4 := map_option (gm_map bare_ip) (Nic_IPv4 nic), Nic_IPv6 := map_option (gm_map bare_ip) (Nic_IPv6 nic)\<rparr>"

abbreviation bare_nics :: "Nics \<Rightarrow> Nics" where
  "bare_nics nics \<equiv> gm_map bare_nic nics"

definition bare_pod :: "PodRequest \<Rightarrow> PodRequest" where
  "bare_pod p = p\<lparr>PR_ipv4Ref := None, PR_ipv6Ref := None\<rparr>"

lemma gm_map_adjust_same: "(\<And>v. h (g v) = h v) \<Longrightarrow> gm_map h (gm_adjust k g m) = gm_map h m"
  by (simp add: gm_map_def gm_adjust_def case_prod_beta)

lemma bare_nics_write:
  assumes "\<And>ip. bare_ip (g ip) = bare_ip ip"
  shows "bare_nics (ip_write f r g nics) = bare_nics nics"
  unfolding ip_write_def
proof (rule gm_map_adjust_same)
  fix nic
  have "gm_map bare_ip \<circ> gm_adjust (snd r) g = gm_map bare_ip"
    using gm_map_adjust_same [of bare_ip g, OF assms] by (intro ext) simp
  then show "bare_nic (nic_write f (gm_adjust (snd r) g) nic) = bare_nic nic"
    by (cases f) (simp_all add: bare_nic_def nic_write_def option.map_comp)
qed

lemma bare_ip_owner [simp]: "bare_ip (ip\<lparr>NIP_PodID := p, NIP_PodUID := u\<rparr>) = bare_ip ip"
  by (simp add: bare_ip_def)

lemma nic_ips_bare [simp]: "nic_ips f (bare_nic nic) = gm_map bare_ip (nic_ips f nic)"
  by (cases f; cases "Nic_IPv4 nic"; cases "Nic_IPv6 nic") (simp_all add: nic_ips_def bare_nic_def gm_map_def)

lemma ip_of_bare: "ip_of f (bare_nics nics) r = map_option bare_ip (ip_of f nics r)"
  by (auto simp: ip_of_def gm_simps split: option.splits)

lemma nic_suits_bare [simp]: "nic_suits info (bare_nic nic) = nic_suits info nic"
  by (simp add: nic_suits_def bare_nic_def)

lemma nic_suits_pod [simp]: "nic_suits (bare_pod info) nic = nic_suits info nic"
  by (simp add: nic_suits_def bare_pod_def)

text \<open>An address that a pod without one may be given, whoever owns it now.\<close>

definition usable :: "ipfam \<Rightarrow> Nics \<Rightarrow> PodRequest \<Rightarrow> EniIP \<Rightarrow> bool" where
  "usable f nics info r \<longleftrightarrow> (\<exists>nic ip. map_of nics (fst r) = Some nic \<and> nic_suits info nic \<and>
     ip_of f nics r = Some ip \<and> NIP_Status ip = IPStatusValid)"

lemma usable_bare: "usable f (bare_nics nics) (bare_pod info) r \<longleftrightarrow> usable f nics info r"
  by (auto simp: usable_def gm_simps ip_of_bare bare_ip_def)

lemma usable_cong:
  assumes "bare_nics nics = bare_nics nics0" and "bare_pod info = bare_pod info0"
  shows "usable f nics info r \<longleftrightarrow> usable f nics0 info0 r"
  using usable_bare [of f nics info r] usable_bare [of f nics0 info0 r] assms by simp

lemma PR_bare [simp]: "PR_Require f (bare_pod p) = PR_Require f p" "PR_want f (bare_pod p) = PR_want f p"
    "PR_IPv4 (bare_pod p) = PR_IPv4 p" "PR_RequireIPv6 (bare_pod p) = PR_RequireIPv6 p"
  by (cases f; simp add: PR_Require_def PR_want_def bare_pod_def)+

lemma PR_bare_eq:
  assumes "bare_pod a = bare_pod b"
  shows "PR_Require f a = PR_Require f b" "PR_want f a = PR_want f b" "PR_IPv4 a = PR_IPv4 b" "PR_RequireIPv6 a = PR_RequireIPv6 b"
  using assms by (metis PR_bare)+

lemma PR_set_ref [simp]:
  "bare_pod (PR_set_ref f r p) = bare_pod p"
  "PR_ref f' (PR_set_ref f r p) = (if f' = f then r else PR_ref f' p)"
  "PR_Require f' (PR_set_ref f r p) = PR_Require f' p"
  "PR_want f' (PR_set_ref f r p) = PR_want f' p"
  by (cases f; cases f'; simp add: PR_set_ref_def PR_ref_def PR_Require_def PR_want_def bare_pod_def)+

subsection \<open>Links and owners agree\<close>

text \<open>A pod that is linked to an address owns it.\<close>

definition refs_ok :: "ipam_st \<Rightarrow> bool" where
  "refs_ok st \<longleftrightarrow> (\<forall>p info f r. map_of (IS_pods st) p = Some info \<longrightarrow> PR_ref f info = Some r \<longrightarrow> owner f (IS_nics st) r = Some p)"

lemma refs_okD: "refs_ok st \<Longrightarrow> map_of (IS_pods st) p = Some info \<Longrightarrow> PR_ref f info = Some r \<Longrightarrow> owner f (IS_nics st) r = Some p"
  unfolding refs_ok_def by blast

lemma refs_okI:
  "(\<And>p info f r. map_of (IS_pods st) p = Some info \<Longrightarrow> PR_ref f info = Some r \<Longrightarrow> owner f (IS_nics st) r = Some p) \<Longrightarrow> refs_ok st"
  unfolding refs_ok_def by blast

lemma owner_give:
  assumes "ip_of f (IS_nics st) r = Some ip" and "podID \<noteq> []"
  shows "owner f' (IS_nics (give f podID uid r st)) r' = (if f' = f \<and> r' = r then Some podID else owner f' (IS_nics st) r')"
  using assms by (auto simp: give_def owner_def gm_simps)

lemma pods_give:
  "map_of (IS_pods (give f podID uid r st)) q =
     (if q = podID then map_option (PR_set_ref f (Some r)) (map_of (IS_pods st) podID) else map_of (IS_pods st) q)"
  by (simp add: give_def gm_simps)

lemma bare_give [simp]:
  "bare_nics (IS_nics (give f podID uid r st)) = bare_nics (IS_nics st)"
  "gm_map bare_pod (IS_pods (give f podID uid r st)) = gm_map bare_pod (IS_pods st)"
  by (simp_all add: give_def bare_nics_write gm_map_adjust_same)

lemma refs_ok_give:
  assumes ok: "refs_ok st" and ip: "ip_of f (IS_nics st) r = Some ip" and free: "NIP_PodID ip = [] \<or> NIP_PodID ip = podID"
    and pod: "podID \<noteq> []"
  shows "refs_ok (give f podID uid r st)"
proof (rule refs_okI)
  fix q info f' r'
  assume q: "map_of (IS_pods (give f podID uid r st)) q = Some info" and ref: "PR_ref f' info = Some r'"
  show "owner f' (IS_nics (give f podID uid r st)) r' = Some q"
  proof (cases "q = podID \<and> f' = f")
    case True
    then have "r' = r" using q ref by (auto simp: pods_give)
    then show ?thesis using True by (simp add: owner_give [OF ip pod])
  next
    case False
    then obtain info0 where "map_of (IS_pods st) q = Some info0" "PR_ref f' info0 = Some r'"
      using q ref by (auto simp: pods_give split: if_splits)
    then have o: "owner f' (IS_nics st) r' = Some q" by (rule refs_okD [OF ok])
    then have "\<not> (f' = f \<and> r' = r)" using False ip free by (auto simp: owner_Some)
    then show ?thesis using o by (auto simp: owner_give [OF ip pod])
  qed
qed

subsection \<open>What the loops keep\<close>

text \<open>
  Between the state \<open>st0\<close> before the loops and a later one: owners are only lost by a roll-back of a
  pod that is then reported as not served, and only gained by a pod that asks for such an address.
\<close>

definition kept :: "ipam_st \<Rightarrow> ipam_st \<Rightarrow> string list \<Rightarrow> bool" where
  "kept st0 st uns \<longleftrightarrow> (\<forall>f r p. owner f (IS_nics st0) r = Some p \<longrightarrow> owner f (IS_nics st) r = Some p \<or>
     f = V4 \<and> p \<in> set uns \<and> (\<exists>info. map_of (IS_pods st0) p = Some info \<and> PR_IPv4 info = [] \<and> PR_RequireIPv6 info))"

definition entitled :: "ipam_st \<Rightarrow> ipfam \<Rightarrow> EniIP \<Rightarrow> string \<Rightarrow> bool" where
  "entitled st0 f r p \<longleftrightarrow> (\<exists>info. map_of (IS_pods st0) p = Some info \<and> PR_Require f info \<and> PR_ref f info = None \<and>
     (if PR_want f info = [] then usable f (IS_nics st0) info r else snd r = PR_want f info))"

definition gained :: "ipam_st \<Rightarrow> ipam_st \<Rightarrow> bool" where
  "gained st0 st \<longleftrightarrow> (\<forall>f r p. owner f (IS_nics st) r = Some p \<longrightarrow> owner f (IS_nics st0) r = Some p \<or> entitled st0 f r p)"

definition links_kept :: "ipam_st \<Rightarrow> ipam_st \<Rightarrow> string list \<Rightarrow> bool" where
  "links_kept st0 st uns \<longleftrightarrow> (\<forall>p info0 info f. p \<notin> set uns \<longrightarrow> map_of (IS_pods st0) p = Some info0 \<longrightarrow>
     map_of (IS_pods st) p = Some info \<longrightarrow> PR_ref f info = None \<longrightarrow> PR_ref f info0 = None)"

definition alloc_inv :: "ipam_st \<Rightarrow> ipam_st \<Rightarrow> string list \<Rightarrow> bool" where
  "alloc_inv st0 st uns \<longleftrightarrow> bare_nics (IS_nics st) = bare_nics (IS_nics st0) \<and>
     gm_map bare_pod (IS_pods st) = gm_map bare_pod (IS_pods st0) \<and> refs_ok st \<and> kept st0 st uns \<and> gained st0 st \<and>
     links_kept st0 st uns"

lemma kept_mono: "kept st0 st uns \<Longrightarrow> kept st0 st (uns @ more_uns)"
  unfolding kept_def set_append by blast

lemma alloc_inv_start: "refs_ok st \<Longrightarrow> alloc_inv st st []"
  by (simp add: alloc_inv_def kept_def gained_def links_kept_def)

lemma links_kept_mono: "links_kept st0 st uns \<Longrightarrow> links_kept st0 st (uns @ more_uns)"
  unfolding links_kept_def set_append by blast

lemma alloc_inv_mono: "alloc_inv st0 st uns \<Longrightarrow> alloc_inv st0 st (uns @ more_uns)"
  by (simp add: alloc_inv_def kept_mono links_kept_mono)

lemma alloc_inv_pod:
  assumes "alloc_inv st0 st uns" and "map_of (IS_pods st) p = Some info"
  shows "\<exists>info0. map_of (IS_pods st0) p = Some info0 \<and> bare_pod info0 = bare_pod info \<and>
    (p \<notin> set uns \<longrightarrow> (\<forall>f. PR_ref f info = None \<longrightarrow> PR_ref f info0 = None))"
proof -
  have "links_kept st0 st uns" using assms(1) by (simp add: alloc_inv_def)
  then have links: "p \<notin> set uns \<Longrightarrow> map_of (IS_pods st0) p = Some info0 \<Longrightarrow> PR_ref f info = None \<Longrightarrow> PR_ref f info0 = None" for info0 f
    using assms(2) unfolding links_kept_def by blast
  have "map_option bare_pod (map_of (IS_pods st) p) = map_option bare_pod (map_of (IS_pods st0) p)"
    using assms(1) map_of_gm_map [of bare_pod "IS_pods st" p] map_of_gm_map [of bare_pod "IS_pods st0" p] by (simp add: alloc_inv_def)
  then obtain info0 where i0: "map_of (IS_pods st0) p = Some info0" "bare_pod info0 = bare_pod info"
    using assms(2) by (cases "map_of (IS_pods st0) p") auto
  then show ?thesis using links [OF _ i0(1)] by blast
qed

lemma alloc_inv_give:
  assumes inv: "alloc_inv st0 st uns" and ip: "ip_of f (IS_nics st) r = Some ip"
    and free: "NIP_PodID ip = [] \<or> NIP_PodID ip = podID" and pod: "podID \<noteq> []" and ent: "entitled st0 f r podID"
  shows "alloc_inv st0 (give f podID uid r st) uns"
proof -
  note o = owner_give [OF ip pod]
  have k: "kept st0 st uns" and g: "gained st0 st" using inv by (simp_all add: alloc_inv_def)
  have free': "owner f (IS_nics st) r = Some q \<Longrightarrow> q = podID" for q
    using ip free by (auto simp: owner_Some)
  have "kept st0 (give f podID uid r st) uns"
    unfolding kept_def
  proof (intro allI impI)
    fix f' r' p assume p: "owner f' (IS_nics st0) r' = Some p"
    then have "owner f' (IS_nics st) r' = Some p \<or>
      f' = V4 \<and> p \<in> set uns \<and> (\<exists>info. map_of (IS_pods st0) p = Some info \<and> PR_IPv4 info = [] \<and> PR_RequireIPv6 info)"
      using k unfolding kept_def by blast
    then show "owner f' (IS_nics (give f podID uid r st)) r' = Some p \<or>
      f' = V4 \<and> p \<in> set uns \<and> (\<exists>info. map_of (IS_pods st0) p = Some info \<and> PR_IPv4 info = [] \<and> PR_RequireIPv6 info)"
      unfolding o using free' by auto
  qed
  moreover have "gained st0 (give f podID uid r st)"
    unfolding gained_def
  proof (intro allI impI)
    fix f' r' p assume p: "owner f' (IS_nics (give f podID uid r st)) r' = Some p"
    show "owner f' (IS_nics st0) r' = Some p \<or> entitled st0 f' r' p"
    proof (cases "f' = f \<and> r' = r")
      case True
      then show ?thesis using p ent by (simp add: o)
    next
      case False
      then have "owner f' (IS_nics st) r' = Some p" using p unfolding o by (simp split: if_splits)
      then show ?thesis using g unfolding gained_def by blast
    qed
  qed
  moreover have "links_kept st0 (give f podID uid r st) uns"
    unfolding links_kept_def
  proof (intro allI impI)
    fix p info0 info f'
    assume p: "p \<notin> set uns" "map_of (IS_pods st0) p = Some info0" "map_of (IS_pods (give f podID uid r st)) p = Some info" "PR_ref f' info = None"
    then obtain info1 where "map_of (IS_pods st) p = Some info1" "PR_ref f' info1 = None"
      by (auto simp: pods_give split: if_splits)
    then show "PR_ref f' info0 = None" using inv p(1,2) unfolding alloc_inv_def links_kept_def by blast
  qed
  ultimately show ?thesis
    using inv refs_ok_give [OF _ ip free pod] by (simp add: alloc_inv_def)
qed

lemma take_over_inv:
  assumes inv: "alloc_inv st0 st uns" and new: "podID \<notin> set uns" and "podID \<noteq> []" and idx: "\<And>k r. map_of ipMap k = Some r \<Longrightarrow> snd r = k"
  shows "alloc_inv st0 (take_over f ipMap podID st) uns"
proof (cases "\<exists>info r ip. map_of (IS_pods st) podID = Some info \<and> PR_Require f info \<and> PR_ref f info = None \<and> PR_want f info \<noteq> [] \<and>
    map_of ipMap (PR_want f info) = Some r \<and> ip_of f (IS_nics st) r = Some ip \<and> (NIP_PodID ip = [] \<or> NIP_PodID ip = podID)")
  case True
  then obtain info r ip where i: "map_of (IS_pods st) podID = Some info" "PR_Require f info" "PR_ref f info = None" "PR_want f info \<noteq> []"
    "map_of ipMap (PR_want f info) = Some r" "ip_of f (IS_nics st) r = Some ip" "NIP_PodID ip = [] \<or> NIP_PodID ip = podID" by blast
  obtain info0 where i0: "map_of (IS_pods st0) podID = Some info0" "bare_pod info0 = bare_pod info" "PR_ref f info0 = None"
    using alloc_inv_pod [OF inv i(1)] new i(3) by blast
  have "PR_Require f info0" "PR_want f info0 = PR_want f info" using i(2) PR_bare_eq [OF i0(2)] by simp_all
  then have "entitled st0 f r podID" using i(4) idx [OF i(5)] i0(1,3) by (simp add: entitled_def)
  then have "alloc_inv st0 (give f podID (PR_PodUID info) r st) uns" by (rule alloc_inv_give [OF inv i(6,7) assms(3)])
  moreover have "take_over f ipMap podID st = give f podID (PR_PodUID info) r st" using i by (simp add: take_over_def)
  ultimately show ?thesis by simp
next
  case False
  then have "take_over f ipMap podID st = st" by (auto simp: take_over_def split: option.splits if_splits)
  then show ?thesis using inv by simp
qed

lemma alloc_inv_time [simp]: "alloc_inv st0 (st\<lparr>IS_LastModifiedTime := now\<rparr>) uns = alloc_inv st0 st uns"
  by (simp add: alloc_inv_def kept_def gained_def refs_ok_def links_kept_def)

lemma ip_fits_usable: "ip_fits f nics info r \<Longrightarrow> usable f nics info r \<and> (\<exists>ip. ip_of f nics r = Some ip \<and> NIP_PodID ip = [])"
  by (auto simp: ip_fits_def usable_def split: option.splits)

text \<open>What picking an address does: nothing, or the pod is given one that fits.\<close>

lemma pick_cases:
  obtains (none) "pick now f ord ipMap podID info st = st"
  | (given) r where "pick now f ord ipMap podID info st = (give f podID (PR_PodUID info) r st)\<lparr>IS_LastModifiedTime := now\<rparr>"
      "ip_fits f (IS_nics st) info r"
proof (cases "range_find ord (ip_fits f (IS_nics st) info) ipMap")
  case None
  then have "pick now f ord ipMap podID info st = st" by (simp add: pick_def)
  then show ?thesis by (rule none)
next
  case (Some k)
  obtain r where r: "map_of ipMap k = Some r" "ip_fits f (IS_nics st) info r" using range_find_Some [OF Some] by blast
  have "pick now f ord ipMap podID info st = (give f podID (PR_PodUID info) r st)\<lparr>IS_LastModifiedTime := now\<rparr>"
    using Some r(1) by (simp add: pick_def)
  then show ?thesis using r(2) by (rule given)
qed

lemma pick_inv:
  assumes inv: "alloc_inv st0 st uns" and new: "podID \<notin> set uns" and pod: "podID \<noteq> []" "map_of (IS_pods st) podID = Some info"
    and req: "PR_Require f info" "PR_ref f info = None" "PR_want f info = []"
  shows "alloc_inv st0 (pick now f ord ipMap podID info st) uns"
proof (cases rule: pick_cases [of now f ord ipMap podID info st])
  case none
  then show ?thesis using inv by simp
next
  case (given r)
  obtain ip where ip: "usable f (IS_nics st) info r" "ip_of f (IS_nics st) r = Some ip" "NIP_PodID ip = []"
    using ip_fits_usable [OF given(2)] by blast
  obtain info0 where i0: "map_of (IS_pods st0) podID = Some info0" "bare_pod info0 = bare_pod info" "PR_ref f info0 = None"
    using alloc_inv_pod [OF inv pod(2)] new req(2) by blast
  have "usable f (IS_nics st0) info0 r"
    using ip(1) usable_cong [of "IS_nics st" "IS_nics st0" info info0 f r] inv i0(2) by (simp add: alloc_inv_def)
  moreover have "PR_Require f info0" "PR_want f info0 = []" using req PR_bare_eq [OF i0(2)] by simp_all
  ultimately have "entitled st0 f r podID" using i0(1,3) by (simp add: entitled_def)
  then have "alloc_inv st0 (give f podID (PR_PodUID info) r st) uns"
    using ip(3) by (intro alloc_inv_give [OF inv ip(2) _ pod(1)]) simp_all
  then show ?thesis using given(1) by simp
qed

lemma serve_inv:
  assumes "alloc_inv st0 st uns" and "podID \<notin> set uns" and "podID \<noteq> []"
  shows "alloc_inv st0 (fst (serve now f ord ipMap podID st)) uns"
  using assms pick_inv [OF assms] by (auto simp: serve_def Let_def split: option.splits)

lemma roll_back_inv:
  assumes inv: "alloc_inv st0 st uns" and pod: "map_of (IS_pods st) podID = Some info" and req: "PR_RequireIPv6 info"
  shows "alloc_inv st0 (roll_back podID st) (uns @ [podID])"
proof (cases "\<exists>r. PR_ipv4Ref info = Some r \<and> PR_IPv4 info = []")
  case True
  then obtain r where r: "PR_ipv4Ref info = Some r" "PR_IPv4 info = []" by blast
  let ?st = "st\<lparr>IS_nics := ip_write V4 r (\<lambda>ip. ip\<lparr>NIP_PodID := [], NIP_PodUID := []\<rparr>) (IS_nics st),
    IS_pods := gm_adjust podID (PR_set_ref V4 None) (IS_pods st)\<rparr>"
  have e: "roll_back podID st = ?st" using pod r by (simp add: roll_back_def)
  have ok: "refs_ok st" and k: "kept st0 st uns" and g: "gained st0 st" using inv by (simp_all add: alloc_inv_def)
  have mine: "owner V4 (IS_nics st) r = Some podID" using refs_okD [OF ok pod, of V4 r] r(1) by (simp add: PR_ref_def)
  have o: "owner f (IS_nics ?st) r' = (if f = V4 \<and> r' = r then None else owner f (IS_nics st) r')" for f r'
    by (auto simp: owner_def gm_simps split: option.splits)
  have pods: "map_of (IS_pods ?st) q = (if q = podID then Some (PR_set_ref V4 None info) else map_of (IS_pods st) q)" for q
    using pod by (simp add: gm_simps)
  obtain info0 where i0: "map_of (IS_pods st0) podID = Some info0" "bare_pod info0 = bare_pod info"
    using alloc_inv_pod [OF inv pod] by blast
  have i0': "PR_IPv4 info0 = []" "PR_RequireIPv6 info0" using PR_bare_eq(3,4) [OF i0(2)] r(2) req by simp_all
  have "refs_ok ?st"
  proof (rule refs_okI)
    fix q i f r' assume q: "map_of (IS_pods ?st) q = Some i" and ref: "PR_ref f i = Some r'"
    have "\<exists>i'. map_of (IS_pods st) q = Some i' \<and> PR_ref f i' = Some r' \<and> \<not> (q = podID \<and> f = V4)"
      using q ref pod unfolding pods by (auto split: if_splits)
    then obtain i' where i': "map_of (IS_pods st) q = Some i'" "PR_ref f i' = Some r'" "\<not> (q = podID \<and> f = V4)" by blast
    have "owner f (IS_nics st) r' = Some q" by (rule refs_okD [OF ok i'(1,2)])
    then show "owner f (IS_nics ?st) r' = Some q" unfolding o using mine i'(3) by auto
  qed
  moreover have "kept st0 ?st (uns @ [podID])"
    unfolding kept_def
  proof (intro allI impI)
    fix f r' p assume p: "owner f (IS_nics st0) r' = Some p"
    have "owner f (IS_nics st) r' = Some p \<or>
      f = V4 \<and> p \<in> set uns \<and> (\<exists>info. map_of (IS_pods st0) p = Some info \<and> PR_IPv4 info = [] \<and> PR_RequireIPv6 info)"
      using k p unfolding kept_def by blast
    then show "owner f (IS_nics ?st) r' = Some p \<or> f = V4 \<and> p \<in> set (uns @ [podID]) \<and>
      (\<exists>info. map_of (IS_pods st0) p = Some info \<and> PR_IPv4 info = [] \<and> PR_RequireIPv6 info)"
    proof
      assume a: "owner f (IS_nics st) r' = Some p"
      show ?thesis
      proof (cases "f = V4 \<and> r' = r")
        case True
        then have "p = podID" using a mine by simp
        then show ?thesis using True i0(1) i0' by auto
      next
        case False
        then show ?thesis using a unfolding o by auto
      qed
    qed auto
  qed
  moreover have "gained st0 ?st" using g unfolding gained_def o by (simp split: if_splits)
  moreover have "links_kept st0 ?st (uns @ [podID])"
    unfolding links_kept_def
  proof (intro allI impI)
    fix p i0 i f
    assume p: "p \<notin> set (uns @ [podID])" "map_of (IS_pods st0) p = Some i0" "map_of (IS_pods ?st) p = Some i" "PR_ref f i = None"
    have "map_of (IS_pods st) p = Some i" using p(1,3) unfolding pods by simp
    moreover have "links_kept st0 st uns" using inv by (simp add: alloc_inv_def)
    ultimately show "PR_ref f i0 = None" using p unfolding links_kept_def by auto
  qed
  ultimately show ?thesis
    unfolding e alloc_inv_def using inv by (simp add: alloc_inv_def bare_nics_write gm_map_adjust_same)
next
  case False
  then have "roll_back podID st = st" using pod by (auto simp: roll_back_def split: option.splits)
  then show ?thesis using alloc_inv_mono [OF inv] by simp
qed

text \<open>A pod has what it asks for.\<close>

definition served :: "ipam_st \<Rightarrow> string \<Rightarrow> bool" where
  "served st p \<longleftrightarrow> (\<forall>info f. map_of (IS_pods st) p = Some info \<longrightarrow> PR_Require f info \<longrightarrow> PR_ref f info \<noteq> None)"

lemma pick_pods:
  "q \<noteq> podID \<Longrightarrow> map_of (IS_pods (pick now f ord ipMap podID info st)) q = map_of (IS_pods st) q"
  by (cases rule: pick_cases [of now f ord ipMap podID info st]) (simp_all add: pods_give)

lemma pick_own:
  assumes "map_of (IS_pods st) podID = Some i"
  shows "\<exists>r. map_of (IS_pods (pick now f ord ipMap podID info st)) podID = Some (PR_set_ref f r i)"
proof (cases rule: pick_cases [of now f ord ipMap podID info st])
  case none
  have "PR_set_ref f (PR_ref f i) i = i" by (cases f) (simp_all add: PR_set_ref_def PR_ref_def)
  then show ?thesis using none assms by metis
next
  case (given r)
  then show ?thesis using assms by (auto simp: pods_give)
qed

lemma serve_other: "q \<noteq> podID \<Longrightarrow> map_of (IS_pods (fst (serve now f ord ipMap podID st))) q = map_of (IS_pods st) q"
  by (simp add: serve_def Let_def pick_pods split: option.splits)

lemma serve_own:
  assumes "map_of (IS_pods st) podID = Some i" and "serve now f ord ipMap podID st = (st', ok)"
  shows "\<exists>i'. map_of (IS_pods st') podID = Some i' \<and> bare_pod i' = bare_pod i \<and> (\<forall>g. g \<noteq> f \<longrightarrow> PR_ref g i' = PR_ref g i) \<and>
    (ok \<longleftrightarrow> (PR_Require f i \<longrightarrow> PR_ref f i' \<noteq> None)) \<and> (\<not> ok \<longrightarrow> PR_Require f i)"
proof -
  obtain r where r: "map_of (IS_pods (pick now f ord ipMap podID i st)) podID = Some (PR_set_ref f r i)"
    using pick_own [OF assms(1)] by blast
  show ?thesis
  proof (cases "PR_Require f i \<and> PR_ref f i = None")
    case True
    then show ?thesis using assms r by (cases "PR_want f i = []") (auto simp: serve_def Let_def)
  next
    case False
    then show ?thesis using assms by (auto simp: serve_def)
  qed
qed

lemma roll_back_other: "q \<noteq> podID \<Longrightarrow> map_of (IS_pods (roll_back podID st)) q = map_of (IS_pods st) q"
  by (auto simp: roll_back_def gm_simps split: option.splits)

lemma serve_pod_step:
  assumes inv: "alloc_inv st0 st uns" and new: "podID \<notin> set uns" and pod: "podID \<noteq> []" "map_of (IS_pods st) podID = Some i"
    and call: "serve_pod now ord4 ord6 m4 m6 podID (st, uns) = (st', uns')"
  shows "alloc_inv st0 st' uns' \<and> (uns' = uns \<and> served st' podID \<or> uns' = uns @ [podID]) \<and>
    (\<forall>q. q \<noteq> podID \<longrightarrow> map_of (IS_pods st') q = map_of (IS_pods st) q)"
proof -
  obtain st1 ok1 where s1: "serve now V4 (ord4 podID) m4 podID st = (st1, ok1)" by (cases "serve now V4 (ord4 podID) m4 podID st")
  have inv1: "alloc_inv st0 st1 uns" using serve_inv [OF inv new pod(1), of now V4 "ord4 podID" m4] s1 by simp
  have o1: "q \<noteq> podID \<Longrightarrow> map_of (IS_pods st1) q = map_of (IS_pods st) q" for q
    using serve_other [of q podID now V4 "ord4 podID" m4 st] s1 by simp
  obtain i1 where i1: "map_of (IS_pods st1) podID = Some i1" "bare_pod i1 = bare_pod i"
    "ok1 \<longleftrightarrow> (PR_Require V4 i \<longrightarrow> PR_ref V4 i1 \<noteq> None)" using serve_own [OF pod(2) s1] by blast
  show ?thesis
  proof (cases ok1)
    case False
    then have "st' = st1" "uns' = uns @ [podID]" using call s1 by (simp_all add: serve_pod_def)
    then show ?thesis using alloc_inv_mono [OF inv1] o1 by simp
  next
    case True
    obtain st2 ok2 where s2: "serve now V6 (ord6 podID) m6 podID st1 = (st2, ok2)" by (cases "serve now V6 (ord6 podID) m6 podID st1")
    have inv2: "alloc_inv st0 st2 uns" using serve_inv [OF inv1 new pod(1), of now V6 "ord6 podID" m6] s2 by simp
    have o2: "q \<noteq> podID \<Longrightarrow> map_of (IS_pods st2) q = map_of (IS_pods st) q" for q
      using serve_other [of q podID now V6 "ord6 podID" m6 st1] s2 o1 by simp
    obtain i2 where i2: "map_of (IS_pods st2) podID = Some i2" "bare_pod i2 = bare_pod i1" "PR_ref V4 i2 = PR_ref V4 i1"
      "ok2 \<longleftrightarrow> (PR_Require V6 i1 \<longrightarrow> PR_ref V6 i2 \<noteq> None)" "\<not> ok2 \<longrightarrow> PR_Require V6 i1" using serve_own [OF i1(1) s2] by blast
    show ?thesis
    proof (cases ok2)
      case ok: True
      then have e: "st' = st2" "uns' = uns" using call s1 s2 True by (simp_all add: serve_pod_def)
      have "PR_Require f i2 \<Longrightarrow> PR_ref f i2 \<noteq> None" for f
        using i1(3) i2(3,4) True ok PR_bare_eq(1) [OF i1(2), of V4] PR_bare_eq(1) [OF i2(2), of V4] PR_bare_eq(1) [OF i2(2), of V6]
        by (cases f) simp_all
      then have "served st2 podID" using i2(1) by (simp add: served_def)
      then show ?thesis using e inv2 o2 by simp
    next
      case ko: False
      then have e: "st' = roll_back podID st2" "uns' = uns @ [podID]" using call s1 s2 True by (simp_all add: serve_pod_def)
      have "PR_RequireIPv6 i2" using i2(5) ko PR_bare_eq(1) [OF i2(2), of V6] by (simp add: PR_Require_def)
      then have "alloc_inv st0 st' uns'" unfolding e by (rule roll_back_inv [OF inv2 i2(1)])
      then show ?thesis using e o2 roll_back_other [of _ podID st2] by simp
    qed
  qed
qed

lemma served_same: "map_of (IS_pods st') q = map_of (IS_pods st) q \<Longrightarrow> served st' q = served st q"
  by (simp add: served_def)

lemma serve_pods_fold:
  assumes "alloc_inv st0 st uns" and "distinct ids" and "\<forall>p \<in> set ids. p \<noteq> [] \<and> p \<notin> set uns \<and> (\<exists>i. map_of (IS_pods st) p = Some i)"
    and "foldl (\<lambda>acc podID. serve_pod now ord4 ord6 m4 m6 podID acc) (st, uns) ids = (st', uns')"
  shows "alloc_inv st0 st' uns' \<and> set uns' \<subseteq> set uns \<union> set ids \<and> set uns \<subseteq> set uns' \<and>
    (\<forall>p \<in> set ids. p \<in> set uns' \<or> served st' p) \<and> (\<forall>q. q \<notin> set ids \<longrightarrow> map_of (IS_pods st') q = map_of (IS_pods st) q)"
  using assms
proof (induction ids arbitrary: st uns)
  case (Cons p ids)
  obtain st1 uns1 where s1: "serve_pod now ord4 ord6 m4 m6 p (st, uns) = (st1, uns1)" by (cases "serve_pod now ord4 ord6 m4 m6 p (st, uns)")
  obtain i where i: "p \<notin> set uns" "p \<noteq> []" "map_of (IS_pods st) p = Some i" using Cons.prems(3) by auto
  note st1 = serve_pod_step [OF Cons.prems(1) i s1]
  have ids: "distinct ids" "p \<notin> set ids" using Cons.prems(2) by simp_all
  have pods: "\<forall>q \<in> set ids. q \<noteq> [] \<and> q \<notin> set uns1 \<and> (\<exists>i. map_of (IS_pods st1) q = Some i)"
  proof
    fix q assume q: "q \<in> set ids"
    then have "q \<noteq> p" using ids(2) by blast
    then show "q \<noteq> [] \<and> q \<notin> set uns1 \<and> (\<exists>i. map_of (IS_pods st1) q = Some i)" using st1 Cons.prems(3) q by auto
  qed
  have rest: "foldl (\<lambda>acc podID. serve_pod now ord4 ord6 m4 m6 podID acc) (st1, uns1) ids = (st', uns')"
    using Cons.prems(4) s1 by simp
  note ih = Cons.IH [OF conjunct1 [OF st1] ids(1) pods rest]
  have "p \<in> set uns' \<or> served st' p"
    using st1 ih ids(2) served_same [of st' p st1] by auto
  then show ?case using st1 ih by auto
qed simp

lemma take_over_other: "q \<noteq> podID \<Longrightarrow> map_of (IS_pods (take_over f ipMap podID st)) q = map_of (IS_pods st) q"
  by (auto simp: take_over_def pods_give split: option.splits)

lemma take_over_dom: "map_of (IS_pods (take_over f ipMap podID st)) q = None \<longleftrightarrow> map_of (IS_pods st) q = None"
  by (auto simp: take_over_def pods_give split: option.splits)

definition index_ok :: "(string, EniIP) gomap \<Rightarrow> bool" where
  "index_ok ipMap \<longleftrightarrow> (\<forall>k r. map_of ipMap k = Some r \<longrightarrow> snd r = k)"

lemma take_overs_fold:
  assumes "alloc_inv st0 st []" and "\<forall>p \<in> set ids. p \<noteq> []" and "index_ok m4" and "index_ok m6"
  shows "alloc_inv st0 (foldl (\<lambda>st p. take_over V6 m6 p (take_over V4 m4 p st)) st ids) [] \<and>
    (\<forall>q. map_of (IS_pods (foldl (\<lambda>st p. take_over V6 m6 p (take_over V4 m4 p st)) st ids)) q = None \<longleftrightarrow> map_of (IS_pods st) q = None)"
  using assms(1,2)
proof (induction ids arbitrary: st)
  case (Cons p ids)
  have "alloc_inv st0 (take_over V6 m6 p (take_over V4 m4 p st)) []"
    using Cons.prems assms(3,4) by (intro take_over_inv) (auto simp: index_ok_def)
  then show ?case using Cons.IH [of "take_over V6 m6 p (take_over V4 m4 p st)"] Cons.prems(2) by (simp add: take_over_dom)
qed simp

lemma pending_ids_set: "gm_ok pods \<Longrightarrow> p \<in> set (pending_ids pods) \<longleftrightarrow> (\<exists>i. map_of pods p = Some i \<and> pending i)"
  by (force simp: pending_ids_def gm_okD dest: map_of_SomeD)

lemma pending_ids_distinct: "gm_ok pods \<Longrightarrow> distinct (pending_ids pods)"
  using gm_ok_filter [of pods] by (simp add: pending_ids_def gm_ok_def)

lemma assign_inv:
  assumes "refs_ok st" and "gm_ok (IS_pods st)" and "[] \<notin> set (keys (IS_pods st))" and "index_ok m4" and "index_ok m6"
    and "assignIPFromLocalPool now ord4 ord6 m4 m6 st = (st', uns)"
  shows "alloc_inv st st' uns \<and> set uns \<subseteq> set (pending_ids (IS_pods st)) \<and>
    (\<forall>p \<in> set (pending_ids (IS_pods st)). p \<in> set uns \<or> served st' p)"
proof -
  let ?ids = "pending_ids (IS_pods st)"
  let ?st1 = "foldl (\<lambda>st p. take_over V6 m6 p (take_over V4 m4 p st)) st ?ids"
  have ne: "\<forall>p \<in> set ?ids. p \<noteq> [] \<and> (\<exists>i. map_of (IS_pods st) p = Some i)"
  proof
    fix p assume "p \<in> set ?ids"
    then obtain i where i: "map_of (IS_pods st) p = Some i" using pending_ids_set [OF assms(2)] by blast
    then have "p \<in> set (keys (IS_pods st))" by (force dest: map_of_SomeD)
    then show "p \<noteq> [] \<and> (\<exists>i. map_of (IS_pods st) p = Some i)" using i assms(3) by blast
  qed
  have t: "alloc_inv st ?st1 []" "\<And>q. map_of (IS_pods ?st1) q = None \<longleftrightarrow> map_of (IS_pods st) q = None"
    using take_overs_fold [OF alloc_inv_start [OF assms(1)] _ assms(4,5), of ?ids] ne by blast+
  have ne1: "\<forall>p \<in> set ?ids. p \<noteq> [] \<and> p \<notin> set [] \<and> (\<exists>i. map_of (IS_pods ?st1) p = Some i)"
  proof
    fix p assume "p \<in> set ?ids"
    then show "p \<noteq> [] \<and> p \<notin> set [] \<and> (\<exists>i. map_of (IS_pods ?st1) p = Some i)"
      using ne t(2) [of p] by (cases "map_of (IS_pods ?st1) p") auto
  qed
  have "foldl (\<lambda>acc podID. serve_pod now ord4 ord6 m4 m6 podID acc) (?st1, []) ?ids = (st', uns)"
    using assms(6) by (simp add: assignIPFromLocalPool_def Let_def)
  from serve_pods_fold [OF t(1) pending_ids_distinct [OF assms(2)] ne1 this] show ?thesis by auto
qed

subsection \<open>The index links every pod that owns an address\<close>

lemma entries_set:
  assumes "range_order ordE" and "range_order ordI"
  shows "(r, v) \<in> set (entries ordE ordI f nics) \<longleftrightarrow> ip_of f nics r = Some v"
proof -
  obtain n k where r: "r = (n, k)" by (cases r)
  have "(r, v) \<in> set (entries ordE ordI f nics) \<longleftrightarrow>
    (\<exists>nic. (n, nic) \<in> set (range_list ordE nics) \<and> (k, v) \<in> set (range_list ordI (nic_ips f nic)))"
    (is "?l \<longleftrightarrow> ?r")
  proof
    assume ?l
    then obtain e where e: "e \<in> set (range_list ordE nics)"
      "(r, v) \<in> set (case e of (n, nic) \<Rightarrow> map (\<lambda>(k, v). ((n, k), v)) (range_list ordI (nic_ips f nic)))"
      unfolding entries_def set_concat set_map by blast
    then show ?r by (cases e) (auto simp: r)
  next
    assume ?r
    then obtain nic where nic: "(n, nic) \<in> set (range_list ordE nics)" "(k, v) \<in> set (range_list ordI (nic_ips f nic))" by blast
    then have "(r, v) \<in> set (map (\<lambda>(k, v). ((n, k), v)) (range_list ordI (nic_ips f nic)))" unfolding r by force
    then show ?l using nic(1) unfolding entries_def set_concat set_map by (auto intro!: bexI [of _ "(n, nic)"])
  qed
  also have "\<dots> \<longleftrightarrow> ip_of f nics r = Some v"
    by (auto simp: range_list_mem [OF assms(1)] range_list_mem [OF assms(2)] ip_of_def r split: option.splits)
  finally show ?thesis .
qed

lemma PR_set_ref_twice [simp]: "PR_set_ref f a (PR_set_ref f b i) = PR_set_ref f a i"
  by (cases f) (simp_all add: PR_set_ref_def)

lemma index_ok_update: "index_ok m \<Longrightarrow> index_ok (AList.update (snd r) r m)"
  by (auto simp: index_ok_def gm_simps)

lemma index_ips_ok: "index_ok m \<Longrightarrow> index_ok (fst (index_ips f es (m, pods)))"
proof (induction es arbitrary: m pods)
  case (Cons e es)
  then show ?case by (cases e) (simp add: index_ok_update)
qed simp

lemma index_ips_bare: "gm_map bare_pod (snd (index_ips f es (m, pods))) = gm_map bare_pod pods"
proof (induction es arbitrary: m pods)
  case (Cons e es)
  then show ?case by (cases e) (simp add: gm_map_adjust_same)
qed simp

lemma index_ips_link:
  assumes "map_of pods q = Some i"
  shows "\<exists>i'. map_of (snd (index_ips f es (m, pods))) q = Some i' \<and>
    (i' = i \<and> (\<forall>(r, v) \<in> set es. NIP_PodID v \<noteq> q) \<or> (\<exists>(r, v) \<in> set es. NIP_PodID v = q \<and> i' = PR_set_ref f (Some r) i))"
  using assms
proof (induction es arbitrary: m pods i)
  case (Cons e es)
  obtain r v where e: "e = (r, v)" by (cases e)
  let ?pods = "gm_adjust (NIP_PodID v) (PR_set_ref f (Some r)) pods"
  let ?j = "if q = NIP_PodID v then PR_set_ref f (Some r) i else i"
  have "map_of ?pods q = Some ?j" using Cons.prems by (auto simp: gm_simps)
  from Cons.IH [OF this, of "AList.update (snd r) r m"] show ?case
    by (auto simp: e split: if_splits)
qed simp

lemma index_ips_dom: "map_of (snd (index_ips f es (m, pods))) q = None \<longleftrightarrow> map_of pods q = None"
  using map_of_gm_map [of bare_pod "snd (index_ips f es (m, pods))" q] map_of_gm_map [of bare_pod pods q] index_ips_bare [of f es m pods]
  by (metis option.map_disc_iff)

text \<open>Pods whose links do not disagree with the owners stay so; afterwards every owner is linked.\<close>

lemma index_refs_ok:
  assumes ord: "range_order ordE" "range_order ordI" and ok: "refs_ok st" and ne: "[] \<notin> set (keys (IS_pods st))"
    and st'_def: "st' = st\<lparr>IS_pods := snd (index_ips f (entries ordE ordI f (IS_nics st)) (m, IS_pods st))\<rparr>"
  shows "refs_ok st'" and "owner f (IS_nics st) r = Some p \<Longrightarrow> map_of (IS_pods st') p = Some i' \<Longrightarrow> PR_ref f i' \<noteq> None"
    and "map_of (IS_pods st') p = Some i' \<Longrightarrow> \<exists>i. map_of (IS_pods st) p = Some i \<and> (\<forall>g. g \<noteq> f \<longrightarrow> PR_ref g i' = PR_ref g i)"
proof -
  let ?es = "entries ordE ordI f (IS_nics st)"
  have orig: "\<exists>i. map_of (IS_pods st) q = Some i \<and>
    (i'' = i \<and> (\<forall>(r, v) \<in> set ?es. NIP_PodID v \<noteq> q) \<or> (\<exists>(r, v) \<in> set ?es. NIP_PodID v = q \<and> i'' = PR_set_ref f (Some r) i))"
    if "map_of (IS_pods st') q = Some i''" for q i''
  proof -
    have q: "map_of (snd (index_ips f ?es (m, IS_pods st))) q = Some i''" using that by (simp add: st'_def)
    then obtain i where "map_of (IS_pods st) q = Some i" using index_ips_dom [of f ?es m "IS_pods st" q] by (cases "map_of (IS_pods st) q") auto
    then show ?thesis using index_ips_link [of "IS_pods st" q i f ?es m] q by auto
  qed
  show "refs_ok st'"
  proof (rule refs_okI)
    fix q i'' g r'
    assume q: "map_of (IS_pods st') q = Some i''" and ref: "PR_ref g i'' = Some r'"
    obtain i where i: "map_of (IS_pods st) q = Some i"
      and cs: "i'' = i \<or> (\<exists>(r, v) \<in> set ?es. NIP_PodID v = q \<and> i'' = PR_set_ref f (Some r) i)"
      using orig [OF q] by blast
    have "q \<in> set (keys (IS_pods st))" using i by (force dest: map_of_SomeD)
    then have "q \<noteq> []" using ne by blast
    from cs have "owner g (IS_nics st) r' = Some q"
    proof
      assume "i'' = i"
      then show ?thesis using refs_okD [OF ok i] ref by simp
    next
      assume "\<exists>(r, v) \<in> set ?es. NIP_PodID v = q \<and> i'' = PR_set_ref f (Some r) i"
      then obtain r v where rv: "(r, v) \<in> set ?es" "NIP_PodID v = q" "i'' = PR_set_ref f (Some r) i" by blast
      then have v: "ip_of f (IS_nics st) r = Some v" using entries_set [OF ord] by blast
      show ?thesis
      proof (cases "g = f")
        case True
        then show ?thesis using ref rv(2,3) v \<open>q \<noteq> []\<close> by (simp add: owner_Some)
      next
        case False
        then show ?thesis using refs_okD [OF ok i, of g r'] ref rv(3) by simp
      qed
    qed
    then show "owner g (IS_nics st') r' = Some q" by (simp add: st'_def)
  qed
  show "PR_ref f i' \<noteq> None" if o: "owner f (IS_nics st) r = Some p" and p: "map_of (IS_pods st') p = Some i'"
  proof -
    obtain v where v: "ip_of f (IS_nics st) r = Some v" "NIP_PodID v = p" using o by (auto simp: owner_Some)
    then have "(r, v) \<in> set ?es" using entries_set [OF ord] by blast
    then show ?thesis using orig [OF p] v(2) by fastforce
  qed
  show "\<exists>i. map_of (IS_pods st) p = Some i \<and> (\<forall>g. g \<noteq> f \<longrightarrow> PR_ref g i' = PR_ref g i)" if "map_of (IS_pods st') p = Some i'"
    using orig [OF that] by fastforce
qed

lemma buildIPMap_ok:
  assumes ord: "range_order ordE" "range_order ordI" and ok: "refs_ok st" and ne: "[] \<notin> set (keys (IS_pods st))"
    and call: "buildIPMap ordE ordI st = (m4, m6, st')"
  shows "index_ok m4" and "index_ok m6" and "refs_ok st'" and "IS_nics st' = IS_nics st"
    and "gm_map bare_pod (IS_pods st') = gm_map bare_pod (IS_pods st)"
    and "owner f (IS_nics st) r = Some p \<Longrightarrow> map_of (IS_pods st') p = Some info \<Longrightarrow> PR_ref f info \<noteq> None"
proof -
  let ?e4 = "entries ordE ordI V4 (IS_nics st)" and ?e6 = "entries ordE ordI V6 (IS_nics st)"
  let ?p4 = "snd (index_ips V4 ?e4 ([], IS_pods st))"
  let ?st4 = "st\<lparr>IS_pods := ?p4\<rparr>"
  have e: "m4 = fst (index_ips V4 ?e4 ([], IS_pods st))" "m6 = fst (index_ips V6 ?e6 ([], ?p4))"
    "st' = ?st4\<lparr>IS_pods := snd (index_ips V6 (entries ordE ordI V6 (IS_nics ?st4)) ([], IS_pods ?st4))\<rparr>"
    using call by (auto simp: buildIPMap_def case_prod_beta Let_def)
  show "index_ok m4" "index_ok m6" unfolding e by (rule index_ips_ok; simp add: index_ok_def)+
  show "IS_nics st' = IS_nics st" by (simp add: e)
  show bare: "gm_map bare_pod (IS_pods st') = gm_map bare_pod (IS_pods st)" by (simp add: e index_ips_bare)
  note r4 = index_refs_ok [OF ord ok ne refl, where f = V4 and m = "[]"]
  have ne4: "[] \<notin> set (keys (IS_pods ?st4))"
    using ne keys_gm_map [of bare_pod ?p4] keys_gm_map [of bare_pod "IS_pods st"] index_ips_bare [of V4 ?e4 "[]" "IS_pods st"]
    by (metis ipam_st.select_convs(2) ipam_st.surjective ipam_st.update_convs(2))
  note r6 = index_refs_ok [OF ord r4(1) ne4 refl, where f = V6 and m = "[]"]
  show "refs_ok st'" unfolding e(3) by (rule r6(1))
  show "PR_ref f info \<noteq> None" if o: "owner f (IS_nics st) r = Some p" and p: "map_of (IS_pods st') p = Some info"
  proof (cases f)
    case V4
    obtain i where i: "map_of (IS_pods ?st4) p = Some i" "PR_ref V4 info = PR_ref V4 i"
      using r6(3) [of p info] p unfolding e(3) by auto
    have "PR_ref V4 i \<noteq> None" using r4(2) [of r p i] o i(1) V4 by simp
    then show ?thesis using i(2) V4 by simp
  next
    case V6
    then show ?thesis using r6(2) [of r p info] o p unfolding e(3) by simp
  qed
qed

subsection \<open>Both addresses on one interface\<close>

definition paired :: "Nics \<Rightarrow> PodRequest \<Rightarrow> bool" where
  "paired nics info \<longleftrightarrow> (\<forall>r4 r6. PR_ipv4Ref info = Some r4 \<longrightarrow> PR_ipv6Ref info = Some r6 \<longrightarrow>
     map_option Nic_ID (map_of nics (fst r4)) = map_option Nic_ID (map_of nics (fst r6)))"

lemma nic_id_bare:
  assumes "bare_nics nics = bare_nics nics0"
  shows "map_option Nic_ID (map_of nics n) = map_option Nic_ID (map_of nics0 n)"
proof -
  have id: "Nic_ID (bare_nic x) = Nic_ID x" for x by (simp add: bare_nic_def)
  have "map_option bare_nic (map_of nics n) = map_option bare_nic (map_of nics0 n)"
    using assms map_of_gm_map [of bare_nic nics n] map_of_gm_map [of bare_nic nics0 n] by simp
  moreover have "map_option Nic_ID y = map_option Nic_ID (map_option bare_nic y)" for y by (cases y) (simp_all add: id)
  ultimately show ?thesis by metis
qed

lemma paired_cong: "bare_nics nics = bare_nics nics0 \<Longrightarrow> paired nics info = paired nics0 info"
  unfolding paired_def by (simp only: nic_id_bare [of nics nics0])

lemma pick_paired:
  assumes "map_of (IS_pods st) podID = Some i" and "PR_ipv6Ref i = None"
    and "map_of (IS_pods (pick now V6 ord ipMap podID i st)) podID = Some i'"
  shows "paired (IS_nics (pick now V6 ord ipMap podID i st)) i'"
proof (cases rule: pick_cases [of now V6 ord ipMap podID i st])
  case none
  then show ?thesis using assms by (simp add: paired_def)
next
  case (given r)
  have i': "i' = PR_set_ref V6 (Some r) i" using assms(1,3) given(1) by (simp add: pods_give)
  have "bare_nics (IS_nics (pick now V6 ord ipMap podID i st)) = bare_nics (IS_nics st)" using given(1) by simp
  then have "paired (IS_nics (pick now V6 ord ipMap podID i st)) i' = paired (IS_nics st) i'" by (rule paired_cong)
  moreover have "paired (IS_nics st) i'"
    using given(2) unfolding paired_def i'
    by (auto simp: PR_set_ref_def ip_fits_def same_nic_def split: option.splits)
  ultimately show ?thesis by simp
qed

lemma serve_paired:
  assumes "map_of (IS_pods st) podID = Some i" and "PR_ipv6Ref i = None" and "PR_IPv6 i = []"
    and "serve now V6 ord ipMap podID st = (st', ok)" and "map_of (IS_pods st') podID = Some i'"
  shows "paired (IS_nics st') i'"
proof (cases "PR_Require V6 i")
  case True
  then have "st' = pick now V6 ord ipMap podID i st"
    using assms by (simp add: serve_def Let_def PR_ref_def PR_want_def)
  then show ?thesis using pick_paired [OF assms(1,2)] assms(5) by blast
next
  case False
  then show ?thesis using assms by (simp add: serve_def paired_def)
qed

lemma roll_back_own:
  assumes "map_of (IS_pods st) podID = Some i"
  shows "\<exists>i'. map_of (IS_pods (roll_back podID st)) podID = Some i' \<and> (i' = i \<or> PR_ipv4Ref i' = None)"
  using assms by (cases "PR_ipv4Ref i") (auto simp: roll_back_def gm_simps PR_set_ref_def)

lemma bare_roll_back [simp]: "bare_nics (IS_nics (roll_back podID st)) = bare_nics (IS_nics st)"
  by (auto simp: roll_back_def bare_nics_write split: option.splits)

lemma serve_pod_paired:
  assumes pod: "map_of (IS_pods st) p = Some i" and none: "PR_ipv6Ref i = None" "PR_IPv6 i = []"
    and call: "serve_pod now ord4 ord6 m4 m6 p (st, uns) = (st', uns')"
  shows "\<exists>i'. map_of (IS_pods st') p = Some i' \<and> paired (IS_nics st') i'"
proof -
  obtain st1 ok1 where s1: "serve now V4 (ord4 p) m4 p st = (st1, ok1)" by (cases "serve now V4 (ord4 p) m4 p st")
  obtain i1 where i1: "map_of (IS_pods st1) p = Some i1" "bare_pod i1 = bare_pod i" "PR_ref V6 i1 = PR_ref V6 i"
    using serve_own [OF pod s1] by blast
  have i1': "PR_ipv6Ref i1 = None" "PR_IPv6 i1 = []"
    using i1(3) none PR_bare_eq(2) [OF i1(2), of V6] by (simp_all add: PR_ref_def PR_want_def)
  show ?thesis
  proof (cases ok1)
    case False
    then have "st' = st1" using call s1 by (simp add: serve_pod_def)
    then show ?thesis using i1(1) i1' by (simp add: paired_def)
  next
    case True
    obtain st2 ok2 where s2: "serve now V6 (ord6 p) m6 p st1 = (st2, ok2)" by (cases "serve now V6 (ord6 p) m6 p st1")
    obtain i2 where i2: "map_of (IS_pods st2) p = Some i2" using serve_own [OF i1(1) s2] by blast
    have p2: "paired (IS_nics st2) i2" by (rule serve_paired [OF i1(1) i1' s2 i2])
    show ?thesis
    proof (cases ok2)
      case ok: True
      then have "st' = st2" using call s1 s2 True by (simp add: serve_pod_def)
      then show ?thesis using i2 p2 by blast
    next
      case ko: False
      then have e: "st' = roll_back p st2" using call s1 s2 True by (simp add: serve_pod_def)
      obtain i' where i': "map_of (IS_pods st') p = Some i'" "i' = i2 \<or> PR_ipv4Ref i' = None" using roll_back_own [OF i2] e by blast
      have "paired (IS_nics st2) i'" using i'(2) p2 by (auto simp: paired_def)
      moreover have "paired (IS_nics st') i' = paired (IS_nics st2) i'" unfolding e by (rule paired_cong) simp
      ultimately show ?thesis using i'(1) by blast
    qed
  qed
qed

lemma serve_pods_paired:
  assumes "alloc_inv st0 st uns" and "distinct ids" and "\<forall>p \<in> set ids. p \<noteq> [] \<and> p \<notin> set uns \<and> (\<exists>i. map_of (IS_pods st) p = Some i)"
    and "foldl (\<lambda>acc podID. serve_pod now ord4 ord6 m4 m6 podID acc) (st, uns) ids = (st', uns')"
    and "p \<in> set ids" and "map_of (IS_pods st) p = Some i" and "PR_ipv6Ref i = None" and "PR_IPv6 i = []"
  shows "\<exists>i'. map_of (IS_pods st') p = Some i' \<and> paired (IS_nics st') i'"
proof -
  obtain as bs where ids: "ids = as @ p # bs" using assms(5) by (meson split_list)
  let ?f = "\<lambda>acc podID. serve_pod now ord4 ord6 m4 m6 podID acc"
  obtain st1 uns1 where r1: "foldl ?f (st, uns) as = (st1, uns1)" by (cases "foldl ?f (st, uns) as")
  obtain st2 uns2 where r2: "serve_pod now ord4 ord6 m4 m6 p (st1, uns1) = (st2, uns2)" by (cases "serve_pod now ord4 ord6 m4 m6 p (st1, uns1)")
  have r3: "foldl ?f (st2, uns2) bs = (st', uns')" using assms(4) ids r1 r2 by simp
  have d: "distinct as" "distinct bs" "p \<notin> set as" "p \<notin> set bs" "set as \<inter> set bs = {}" using assms(2) ids by auto
  have fa: "alloc_inv st0 st1 uns1 \<and> set uns1 \<subseteq> set uns \<union> set as \<and> set uns \<subseteq> set uns1 \<and>
    (\<forall>p \<in> set as. p \<in> set uns1 \<or> served st1 p) \<and> (\<forall>q. q \<notin> set as \<longrightarrow> map_of (IS_pods st1) q = map_of (IS_pods st) q)"
    by (rule serve_pods_fold [OF assms(1) d(1) _ r1]) (use assms(3) ids in auto)
  have p1: "map_of (IS_pods st1) p = Some i" using fa d(3) assms(6) by simp
  have p: "p \<noteq> []" "p \<notin> set uns1" using assms(3,5) fa d(3) by auto
  obtain i2 where i2: "map_of (IS_pods st2) p = Some i2" "paired (IS_nics st2) i2"
    using serve_pod_paired [OF p1 assms(7,8) r2] by blast
  have s2: "alloc_inv st0 st2 uns2 \<and> (uns2 = uns1 \<and> served st2 p \<or> uns2 = uns1 @ [p]) \<and>
    (\<forall>q. q \<noteq> p \<longrightarrow> map_of (IS_pods st2) q = map_of (IS_pods st1) q)"
    using serve_pod_step [OF _ p(2,1) p1 r2] fa by blast
  have bs: "\<forall>q \<in> set bs. q \<noteq> [] \<and> q \<notin> set uns2 \<and> (\<exists>i. map_of (IS_pods st2) q = Some i)"
  proof
    fix q assume q: "q \<in> set bs"
    then have "q \<noteq> p" "q \<notin> set as" "q \<in> set ids" using d ids by auto
    then show "q \<noteq> [] \<and> q \<notin> set uns2 \<and> (\<exists>i. map_of (IS_pods st2) q = Some i)" using s2 fa assms(3) by auto
  qed
  have fb: "alloc_inv st2 st' uns' \<and> (\<forall>q. q \<notin> set bs \<longrightarrow> map_of (IS_pods st') q = map_of (IS_pods st2) q)"
  proof -
    have "refs_ok st2" using s2 by (simp add: alloc_inv_def)
    then have "alloc_inv st2 st2 ([] @ uns2)" by (rule alloc_inv_mono [OF alloc_inv_start])
    from serve_pods_fold [OF _ d(2) bs r3] this show ?thesis by simp
  qed
  then have "map_of (IS_pods st') p = Some i2" using d(4) i2(1) by simp
  moreover have "paired (IS_nics st') i2 = paired (IS_nics st2) i2" using fb by (intro paired_cong) (simp add: alloc_inv_def)
  ultimately show ?thesis using i2(2) by blast
qed

end
