(* ===== verification/NodeBinding.thy ===== *)
theory NodeBinding
  imports NodeAssign
begin

section \<open>What binding pods to addresses guarantees\<close>

text \<open>
  The properties of \<^verbatim>\<open>buildIPMap\<close>, \<^verbatim>\<open>releasePodNotFound\<close> and \<^verbatim>\<open>assignIPFromLocalPool\<close> (pool.go) over the
  requests that \<^verbatim>\<open>getPods\<close> creates, which are not linked to any address yet.
\<close>

definition fresh_pods :: "(string, PodRequest) gomap \<Rightarrow> bool" where
  "fresh_pods pods \<longleftrightarrow> gm_ok pods \<and> [] \<notin> set (keys pods) \<and> list_all (\<lambda>(p, i). PR_ipv4Ref i = None \<and> PR_ipv6Ref i = None) pods"

lemma fresh_refs_ok: "fresh_pods (IS_pods st) \<Longrightarrow> refs_ok st"
proof (rule refs_okI)
  fix p info f r assume fresh: "fresh_pods (IS_pods st)" and p: "map_of (IS_pods st) p = Some info" and ref: "PR_ref f info = Some r"
  have "PR_ipv4Ref info = None \<and> PR_ipv6Ref info = None"
    using fresh map_of_SomeD [OF p] by (auto simp: fresh_pods_def list_all_iff)
  then show "owner f (IS_nics st) r = Some p" using ref by (cases f) (simp_all add: PR_ref_def)
qed

text \<open>The state in which the addresses are handed out.\<close>

lemma linked:
  assumes "range_order ordE" "range_order ordI" "fresh_pods (IS_pods st)" "buildIPMap ordE ordI st = (m4, m6, st1)"
  shows "refs_ok st1" "gm_ok (IS_pods st1)" "[] \<notin> set (keys (IS_pods st1))" "index_ok m4" "index_ok m6" "IS_nics st1 = IS_nics st"
    "gm_map bare_pod (IS_pods st1) = gm_map bare_pod (IS_pods st)"
    "owner f (IS_nics st) r = Some p \<Longrightarrow> map_of (IS_pods st1) p = Some info \<Longrightarrow> PR_ref f info \<noteq> None"
proof -
  have ne: "[] \<notin> set (keys (IS_pods st))" using assms(3) by (simp add: fresh_pods_def)
  note b = buildIPMap_ok [OF assms(1,2) fresh_refs_ok [OF assms(3)] ne assms(4)]
  show "refs_ok st1" "index_ok m4" "index_ok m6" "IS_nics st1 = IS_nics st" "gm_map bare_pod (IS_pods st1) = gm_map bare_pod (IS_pods st)"
    using b by simp_all
  have k: "keys (IS_pods st1) = keys (IS_pods st)" using b(5) by (metis keys_gm_map)
  show "gm_ok (IS_pods st1)" "[] \<notin> set (keys (IS_pods st1))" using assms(3) k by (simp_all add: gm_ok_def fresh_pods_def)
  show "owner f (IS_nics st) r = Some p \<Longrightarrow> map_of (IS_pods st1) p = Some info \<Longrightarrow> PR_ref f info \<noteq> None"
    by (rule b(6))
qed

lemma bare_pods_lookup:
  assumes "gm_map bare_pod pods1 = gm_map bare_pod pods" and "map_of pods1 p = Some i1"
  shows "\<exists>i. map_of pods p = Some i \<and> bare_pod i = bare_pod i1"
proof -
  have "map_option bare_pod (map_of pods1 p) = map_option bare_pod (map_of pods p)"
    using assms(1) map_of_gm_map [of bare_pod pods1 p] map_of_gm_map [of bare_pod pods p] by simp
  then show ?thesis using assms(2) by (cases "map_of pods p") auto
qed

text \<open>
  C28: an address of a pod is never given to another one. An address keeps its owner, unless the owner
  asks for both families, has reported no IPv4 address, and is left unserved; and who becomes the
  owner of an address is a pod of this node that needs this family, had no address of it, and either
  reported this very address or is given a valid one of a schedulable interface in use whose traffic
  mode suits it.
\<close>

theorem assign_safe:
  assumes "range_order ordE" and "range_order ordI" and "fresh_pods (IS_pods st)"
    and "buildIPMap ordE ordI st = (m4, m6, st1)" and "assignIPFromLocalPool now ord4 ord6 m4 m6 st1 = (st', uns)"
  shows "(owner f (IS_nics st) r = Some p \<longrightarrow> owner f (IS_nics st') r = Some p \<or>
      f = V4 \<and> p \<in> set uns \<and> (\<exists>i. map_of (IS_pods st) p = Some i \<and> PR_IPv4 i = [] \<and> PR_RequireIPv6 i)) \<and>
    (owner f (IS_nics st') r = Some p \<longrightarrow> owner f (IS_nics st) r \<noteq> Some p \<longrightarrow>
      (\<forall>r'. owner f (IS_nics st) r' \<noteq> Some p) \<and>
      (\<exists>i. map_of (IS_pods st) p = Some i \<and> PR_Require f i \<and>
        (if PR_want f i = [] then usable f (IS_nics st) i r else snd r = PR_want f i)))"
proof -
  note l = linked [OF assms(1-4)]
  have inv: "alloc_inv st1 st' uns" using assign_inv [OF l(1-5) assms(5)] by blast
  have kept: "kept st1 st' uns" and gained: "gained st1 st'" using inv by (simp_all add: alloc_inv_def)
  show ?thesis
  proof (intro conjI impI)
    assume "owner f (IS_nics st) r = Some p"
    then have "owner f (IS_nics st1) r = Some p" using l(6) by simp
    then have "owner f (IS_nics st') r = Some p \<or>
      f = V4 \<and> p \<in> set uns \<and> (\<exists>i. map_of (IS_pods st1) p = Some i \<and> PR_IPv4 i = [] \<and> PR_RequireIPv6 i)"
      using kept unfolding kept_def by blast
    then show "owner f (IS_nics st') r = Some p \<or>
      f = V4 \<and> p \<in> set uns \<and> (\<exists>i. map_of (IS_pods st) p = Some i \<and> PR_IPv4 i = [] \<and> PR_RequireIPv6 i)"
    proof (elim disjE conjE exE)
      fix i1 assume a: "f = V4" "p \<in> set uns" "map_of (IS_pods st1) p = Some i1" "PR_IPv4 i1 = []" "PR_RequireIPv6 i1"
      obtain i where i: "map_of (IS_pods st) p = Some i" "bare_pod i = bare_pod i1" using bare_pods_lookup [OF l(7) a(3)] by blast
      then show ?thesis using a PR_bare_eq(3,4) [OF i(2)] by simp
    qed simp
  next
    assume o: "owner f (IS_nics st') r = Some p" and new: "owner f (IS_nics st) r \<noteq> Some p"
    then have "entitled st1 f r p" using gained l(6) unfolding gained_def by metis
    then obtain i1 where i1: "map_of (IS_pods st1) p = Some i1" "PR_Require f i1" "PR_ref f i1 = None"
      "if PR_want f i1 = [] then usable f (IS_nics st1) i1 r else snd r = PR_want f i1" unfolding entitled_def by blast
    show "\<forall>r'. owner f (IS_nics st) r' \<noteq> Some p" using l(8) [of f _ p i1] i1(1,3) by blast
    obtain i where i: "map_of (IS_pods st) p = Some i" "bare_pod i = bare_pod i1" using bare_pods_lookup [OF l(7) i1(1)] by blast
    have "usable f (IS_nics st1) i1 r = usable f (IS_nics st) i r"
      using usable_cong [of "IS_nics st1" "IS_nics st" i1 i f r] i(2) l(6) by simp
    then show "\<exists>i. map_of (IS_pods st) p = Some i \<and> PR_Require f i \<and>
        (if PR_want f i = [] then usable f (IS_nics st) i r else snd r = PR_want f i)"
      using i i1 PR_bare_eq(1,2) [OF i(2)] by (intro exI [of _ i]) (simp split: if_splits)
  qed
qed

subsection \<open>No pod waits beside a free address\<close>

lemma serve_no_v6:
  assumes "map_of (IS_pods st) p = Some i" and "\<not> PR_RequireIPv6 i"
  shows "serve now V6 ord m p st = (st, True)"
  using assms by (simp add: serve_def PR_Require_def)

lemma serve_fails:
  assumes ord: "range_order ord" and pod: "map_of (IS_pods st) p = Some i" and none: "PR_IPv4 i = []"
    and call: "serve now V4 ord m p st = (st', False)" and k: "map_of m k = Some r"
  shows "st' = st \<and> \<not> ip_fits V4 (IS_nics st) i r"
proof -
  have req: "PR_Require V4 i" "PR_ref V4 i = None" using call pod by (auto simp: serve_def split: if_splits)
  obtain i' where i': "map_of (IS_pods st') p = Some i'" "PR_ref V4 i' = None" using serve_own [OF pod call] by blast
  have e: "st' = pick now V4 ord m p i st" using call pod req none by (simp add: serve_def PR_want_def Let_def)
  show ?thesis
  proof (cases "range_find ord (ip_fits V4 (IS_nics st) i) m")
    case None
    then have "st' = st" using e by (simp add: pick_def)
    moreover have "\<not> ip_fits V4 (IS_nics st) i r" by (rule range_find_None [OF ord None k])
    ultimately show ?thesis by simp
  next
    case (Some j)
    obtain q where q: "map_of m j = Some q" using range_find_Some [OF Some] by blast
    then have "st' = (give V4 p (PR_PodUID i) q st)\<lparr>IS_LastModifiedTime := now\<rparr>" using Some e by (simp add: pick_def)
    then show ?thesis using i' pod by (auto simp: pods_give)
  qed
qed

lemma ip_fits_before:
  assumes bare: "bare_nics (IS_nics st') = bare_nics (IS_nics st)" and bi: "bare_pod i' = bare_pod i"
    and grow: "owner V4 (IS_nics st) r \<noteq> None \<Longrightarrow> owner V4 (IS_nics st') r \<noteq> None"
    and fits: "ip_fits V4 (IS_nics st') i' r"
  shows "ip_fits V4 (IS_nics st) i r"
proof -
  have "usable V4 (IS_nics st') i' r" using ip_fits_usable [OF fits] by blast
  then have u: "usable V4 (IS_nics st) i r" using usable_cong [OF bare bi] by blast
  obtain ip' where ip': "ip_of V4 (IS_nics st') r = Some ip'" "NIP_PodID ip' = []" using ip_fits_usable [OF fits] by blast
  then have "owner V4 (IS_nics st') r = None" by (simp add: owner_def)
  then have "owner V4 (IS_nics st) r = None" using grow by blast
  then show ?thesis using u by (auto simp: usable_def ip_fits_def owner_def split: if_splits)
qed

lemma serve_pods_exhausted:
  assumes inv: "alloc_inv st0 st uns" and d: "distinct ids"
    and pods: "\<forall>p \<in> set ids. p \<noteq> [] \<and> p \<notin> set uns \<and> (\<exists>i. map_of (IS_pods st) p = Some i)"
    and fold: "foldl (\<lambda>acc podID. serve_pod now ord4 ord6 m4 m6 podID acc) (st, uns) ids = (st', uns')"
    and ord: "\<And>p. range_order (ord4 p)" and v4only: "\<forall>p i. map_of (IS_pods st) p = Some i \<longrightarrow> \<not> PR_RequireIPv6 i"
    and p: "p \<in> set uns'" "p \<notin> set uns" "map_of (IS_pods st) p = Some i" "PR_IPv4 i = []" and k: "map_of m4 k = Some r"
  shows "\<not> ip_fits V4 (IS_nics st') i r"
  using inv d pods fold v4only p(1-3)
proof (induction ids arbitrary: st uns)
  case (Cons q ids)
  obtain st1 uns1 where s1: "serve_pod now ord4 ord6 m4 m6 q (st, uns) = (st1, uns1)" by (cases "serve_pod now ord4 ord6 m4 m6 q (st, uns)")
  obtain j where j: "q \<notin> set uns" "q \<noteq> []" "map_of (IS_pods st) q = Some j" using Cons.prems(3) by auto
  note st1 = serve_pod_step [OF Cons.prems(1) j s1]
  have ids: "distinct ids" "q \<notin> set ids" using Cons.prems(2) by simp_all
  have pods1: "\<forall>x \<in> set ids. x \<noteq> [] \<and> x \<notin> set uns1 \<and> (\<exists>i. map_of (IS_pods st1) x = Some i)"
  proof
    fix x assume x: "x \<in> set ids"
    then have "x \<noteq> q" using ids(2) by blast
    then show "x \<noteq> [] \<and> x \<notin> set uns1 \<and> (\<exists>i. map_of (IS_pods st1) x = Some i)" using st1 Cons.prems(3) x by auto
  qed
  have rest: "foldl (\<lambda>acc podID. serve_pod now ord4 ord6 m4 m6 podID acc) (st1, uns1) ids = (st', uns')" using Cons.prems(4) s1 by simp
  have "refs_ok st" "refs_ok st1" using Cons.prems(1) st1 by (simp_all add: alloc_inv_def)
  note start1 = alloc_inv_mono [OF alloc_inv_start [OF \<open>refs_ok st1\<close>], of uns1, simplified]
  have inv01: "alloc_inv st st1 uns1"
    using serve_pod_step [OF alloc_inv_mono [OF alloc_inv_start [OF \<open>refs_ok st\<close>], of uns, simplified] j s1] by blast
  have v4only1: "\<forall>x i1. map_of (IS_pods st1) x = Some i1 \<longrightarrow> \<not> PR_RequireIPv6 i1"
  proof (intro allI impI)
    fix x i1 assume "map_of (IS_pods st1) x = Some i1"
    then obtain i0 where "map_of (IS_pods st) x = Some i0" "bare_pod i0 = bare_pod i1" using alloc_inv_pod [OF inv01] by blast
    then show "\<not> PR_RequireIPv6 i1" using PR_bare_eq(4) [of i0 i1] Cons.prems(5) by auto
  qed
  show ?case
  proof (cases "p = q")
    case False
    have "map_of (IS_pods st1) p = Some i" using False st1 Cons.prems(8) by simp
    moreover have "p \<notin> set uns1" using st1 False Cons.prems(7) by auto
    ultimately show ?thesis using Cons.IH [OF conjunct1 [OF st1] ids(1) pods1 rest v4only1 Cons.prems(6)] by blast
  next
    case True
    have fb: "alloc_inv st1 st' uns' \<and> set uns' \<subseteq> set uns1 \<union> set ids"
      using serve_pods_fold [OF start1 ids(1) pods1 rest] by blast
    then have "p \<in> set uns1" using Cons.prems(6) ids(2) True by auto
    then have uns1: "uns1 = uns @ [q]" using st1 Cons.prems(7) by auto
    obtain st2 ok where s2: "serve now V4 (ord4 q) m4 q st = (st2, ok)" by (cases "serve now V4 (ord4 q) m4 q st")
    obtain j2 where j2: "map_of (IS_pods st2) q = Some j2" "bare_pod j2 = bare_pod j" using serve_own [OF j(3) s2] by blast
    have nv6: "\<not> PR_RequireIPv6 j2" using PR_bare_eq(4) [OF j2(2)] Cons.prems(5) j(3) by auto
    have "ok \<Longrightarrow> False" using s1 s2 serve_no_v6 [OF j2(1) nv6, of now "ord6 q" m6] uns1 by (auto simp: serve_pod_def)
    then have ok: "ok = False" by blast
    then have "st1 = st2" using s1 s2 by (simp add: serve_pod_def)
    have ij: "i = j" using Cons.prems(8) j(3) True by simp
    note f = serve_fails [OF ord j(3) _ s2 [unfolded ok] k]
    have eq: "st1 = st" "\<not> ip_fits V4 (IS_nics st) i r" using f \<open>PR_IPv4 i = []\<close> ij \<open>st1 = st2\<close> by simp_all
    have kept: "kept st1 st' uns'" "bare_nics (IS_nics st') = bare_nics (IS_nics st1)" using fb by (simp_all add: alloc_inv_def)
    have "owner V4 (IS_nics st) r \<noteq> None \<Longrightarrow> owner V4 (IS_nics st') r \<noteq> None"
      using kept(1) v4only1 eq(1) unfolding kept_def by blast
    then show ?thesis using ip_fits_before [OF _ refl, of st' st r i] kept(2) eq by blast
  qed
qed simp

lemma take_over_v6:
  assumes "map_of (IS_pods st) p = Some i" and "PR_IPv6 i = []"
  shows "\<exists>i'. map_of (IS_pods (take_over f m q st)) p = Some i' \<and> bare_pod i' = bare_pod i \<and> PR_ipv6Ref i' = PR_ipv6Ref i"
proof (cases "q = p \<and> f = V4")
  case True
  have "PR_ipv6Ref (PR_set_ref V4 r i) = PR_ipv6Ref i" for r by (simp add: PR_set_ref_def)
  then show ?thesis using assms True by (auto simp: take_over_def pods_give split: option.splits)
next
  case False
  then show ?thesis
    using assms by (cases f) (auto simp: take_over_def pods_give PR_want_def split: option.splits)
qed

lemma PR_IPv6_bare: "bare_pod a = bare_pod b \<Longrightarrow> PR_IPv6 a = PR_IPv6 b"
  using PR_bare_eq(2) [of a b V6] by (simp add: PR_want_def)

lemma take_overs_v6:
  assumes "map_of (IS_pods st) p = Some i" and "PR_IPv6 i = []"
  shows "\<exists>i'. map_of (IS_pods (foldl (\<lambda>st q. take_over V6 m6 q (take_over V4 m4 q st)) st ids)) p = Some i' \<and>
    bare_pod i' = bare_pod i \<and> PR_ipv6Ref i' = PR_ipv6Ref i"
  using assms
proof (induction ids arbitrary: st i)
  case (Cons q ids)
  obtain i1 where i1: "map_of (IS_pods (take_over V4 m4 q st)) p = Some i1" "bare_pod i1 = bare_pod i" "PR_ipv6Ref i1 = PR_ipv6Ref i"
    using take_over_v6 [OF Cons.prems] by blast
  have "PR_IPv6 i1 = []" using PR_IPv6_bare [OF i1(2)] Cons.prems(2) by simp
  then obtain i2 where i2: "map_of (IS_pods (take_over V6 m6 q (take_over V4 m4 q st))) p = Some i2" "bare_pod i2 = bare_pod i1" "PR_ipv6Ref i2 = PR_ipv6Ref i1"
    using take_over_v6 [OF i1(1)] by blast
  have "PR_IPv6 i2 = []" using PR_IPv6_bare [OF i2(2)] \<open>PR_IPv6 i1 = []\<close> by simp
  from Cons.IH [OF i2(1) this] show ?case using i1 i2 by simp
qed simp

text \<open>The second loop starts in a state reached by the first one.\<close>

lemma second_loop:
  assumes "refs_ok st1" and "gm_ok (IS_pods st1)" and "[] \<notin> set (keys (IS_pods st1))" and "index_ok m4" and "index_ok m6"
    and "assignIPFromLocalPool now ord4 ord6 m4 m6 st1 = (st', uns)"
  obtains st2 where
    "alloc_inv st1 st2 []" "distinct (pending_ids (IS_pods st1))"
    "\<forall>p \<in> set (pending_ids (IS_pods st1)). p \<noteq> [] \<and> p \<notin> set [] \<and> (\<exists>i. map_of (IS_pods st2) p = Some i)"
    "foldl (\<lambda>acc podID. serve_pod now ord4 ord6 m4 m6 podID acc) (st2, []) (pending_ids (IS_pods st1)) = (st', uns)"
    "\<And>p i. map_of (IS_pods st1) p = Some i \<Longrightarrow> PR_IPv6 i = [] \<Longrightarrow>
      \<exists>i'. map_of (IS_pods st2) p = Some i' \<and> bare_pod i' = bare_pod i \<and> PR_ipv6Ref i' = PR_ipv6Ref i"
proof -
  let ?ids = "pending_ids (IS_pods st1)"
  let ?st2 = "foldl (\<lambda>st p. take_over V6 m6 p (take_over V4 m4 p st)) st1 ?ids"
  have ne: "\<forall>p \<in> set ?ids. p \<noteq> [] \<and> (\<exists>i. map_of (IS_pods st1) p = Some i)"
  proof
    fix p assume "p \<in> set ?ids"
    then obtain i where i: "map_of (IS_pods st1) p = Some i" using pending_ids_set [OF assms(2)] by blast
    then have "p \<in> set (keys (IS_pods st1))" by (force dest: map_of_SomeD)
    then show "p \<noteq> [] \<and> (\<exists>i. map_of (IS_pods st1) p = Some i)" using i assms(3) by blast
  qed
  have t: "alloc_inv st1 ?st2 []" "\<And>q. map_of (IS_pods ?st2) q = None \<longleftrightarrow> map_of (IS_pods st1) q = None"
    using take_overs_fold [OF alloc_inv_start [OF assms(1)] _ assms(4,5), of ?ids] ne by blast+
  have ne2: "\<forall>p \<in> set ?ids. p \<noteq> [] \<and> p \<notin> set [] \<and> (\<exists>i. map_of (IS_pods ?st2) p = Some i)"
  proof
    fix p assume "p \<in> set ?ids"
    then show "p \<noteq> [] \<and> p \<notin> set [] \<and> (\<exists>i. map_of (IS_pods ?st2) p = Some i)"
      using ne t(2) [of p] by (cases "map_of (IS_pods ?st2) p") auto
  qed
  have fold: "foldl (\<lambda>acc podID. serve_pod now ord4 ord6 m4 m6 podID acc) (?st2, []) ?ids = (st', uns)"
    using assms(6) by (simp add: assignIPFromLocalPool_def Let_def)
  show ?thesis
    by (rule that [OF t(1) pending_ids_distinct [OF assms(2)] ne2 fold]) (rule take_overs_v6)
qed

lemma pods_lookup_bare:
  assumes "gm_map bare_pod pods1 = gm_map bare_pod pods" and "map_of pods p = Some i"
  obtains i1 where "map_of pods1 p = Some i1" "bare_pod i1 = bare_pod i"
  using bare_pods_lookup [OF assms(1) [symmetric] assms(2)] by blast

text \<open>A pod that is not reported as unserved owns an address of every family it needs.\<close>

lemma assign_owns:
  assumes "range_order ordE" and "range_order ordI" and "fresh_pods (IS_pods st)"
    and "buildIPMap ordE ordI st = (m4, m6, st1)" and "assignIPFromLocalPool now ord4 ord6 m4 m6 st1 = (st', uns)"
    and "map_of (IS_pods st) p = Some i" and "p \<notin> set uns"
  shows "\<exists>i'. map_of (IS_pods st') p = Some i' \<and> (\<forall>f. PR_Require f i \<longrightarrow> (\<exists>r. PR_ref f i' = Some r \<and> owner f (IS_nics st') r = Some p))"
proof -
  note l = linked [OF assms(1-4)]
  have a: "alloc_inv st1 st' uns" "\<forall>p \<in> set (pending_ids (IS_pods st1)). p \<in> set uns \<or> served st' p"
    using assign_inv [OF l(1-5) assms(5)] by blast+
  obtain i1 where i1: "map_of (IS_pods st1) p = Some i1" "bare_pod i1 = bare_pod i" using pods_lookup_bare [OF l(7) assms(6)] by blast
  have "gm_map bare_pod (IS_pods st') = gm_map bare_pod (IS_pods st1)" using a(1) by (simp add: alloc_inv_def)
  from pods_lookup_bare [OF this i1(1)] obtain i' where i': "map_of (IS_pods st') p = Some i'" "bare_pod i' = bare_pod i1" by blast
  have req: "PR_Require f i' = PR_Require f i" for f using PR_bare_eq(1) [OF i'(2)] PR_bare_eq(1) [OF i1(2)] by simp
  have "PR_ref f i' \<noteq> None" if f: "PR_Require f i" for f
  proof (cases "p \<in> set (pending_ids (IS_pods st1))")
    case True
    then have "served st' p" using a(2) assms(7) by blast
    then show ?thesis using i'(1) req f unfolding served_def by blast
  next
    case False
    then have "\<not> pending i1" using pending_ids_set [OF l(2), of p] i1(1) by blast
    then have "PR_ref f i1 \<noteq> None"
      using f PR_bare_eq(1) [OF i1(2), of f] by (cases f) (auto simp: pending_def PR_Require_def PR_ref_def split: if_splits)
    moreover have "links_kept st1 st' uns" using a(1) by (simp add: alloc_inv_def)
    ultimately show ?thesis using assms(7) i1(1) i'(1) unfolding links_kept_def by metis
  qed
  moreover have "refs_ok st'" using a(1) by (simp add: alloc_inv_def)
  ultimately show ?thesis using i'(1) unfolding refs_ok_def by blast
qed

text \<open>
  C29: every pod that is not reported as unserved owns an address of each family it needs; one that
  starts without any and reports none has both on the same interface; and where only IPv4 is used,
  a pod is left unserved only if no address that fits it is free.
\<close>

theorem assign_serves:
  assumes "range_order ordE" and "range_order ordI" and "\<And>q. range_order (ord4 q)" and "fresh_pods (IS_pods st)"
    and "buildIPMap ordE ordI st = (m4, m6, st1)" and "assignIPFromLocalPool now ord4 ord6 m4 m6 st1 = (st', uns)"
    and "map_of (IS_pods st) p = Some i"
  shows "(p \<notin> set uns \<longrightarrow> (\<forall>f. PR_Require f i \<longrightarrow> (\<exists>r. owner f (IS_nics st') r = Some p))) \<and>
    (p \<notin> set uns \<longrightarrow> PR_RequireIPv4 i \<longrightarrow> PR_RequireIPv6 i \<longrightarrow> PR_IPv6 i = [] \<longrightarrow> (\<forall>r. owner V6 (IS_nics st) r \<noteq> Some p) \<longrightarrow>
       (\<exists>r4 r6. owner V4 (IS_nics st') r4 = Some p \<and> owner V6 (IS_nics st') r6 = Some p \<and>
          map_option Nic_ID (map_of (IS_nics st) (fst r4)) = map_option Nic_ID (map_of (IS_nics st) (fst r6)))) \<and>
    (p \<in> set uns \<longrightarrow> PR_IPv4 i = [] \<longrightarrow> (\<forall>q j. map_of (IS_pods st) q = Some j \<longrightarrow> \<not> PR_RequireIPv6 j) \<longrightarrow>
       (\<forall>k r. map_of m4 k = Some r \<longrightarrow> \<not> ip_fits V4 (IS_nics st') i r))"
proof (intro conjI impI)
  assume "p \<notin> set uns"
  then show "\<forall>f. PR_Require f i \<longrightarrow> (\<exists>r. owner f (IS_nics st') r = Some p)"
    using assign_owns [OF assms(1,2,4-7)] by blast
next
  assume u: "p \<notin> set uns" and r4: "PR_RequireIPv4 i" and r6: "PR_RequireIPv6 i" and w6: "PR_IPv6 i = []"
    and none: "\<forall>r. owner V6 (IS_nics st) r \<noteq> Some p"
  note l = linked [OF assms(1,2,4,5)]
  obtain i' where p': "map_of (IS_pods st') p = Some i'"
    and own: "\<forall>f. PR_Require f i \<longrightarrow> (\<exists>r. PR_ref f i' = Some r \<and> owner f (IS_nics st') r = Some p)"
    using assign_owns [OF assms(1,2,4-7) u] by blast
  obtain ra where ra: "PR_ref V4 i' = Some ra" "owner V4 (IS_nics st') ra = Some p" using own [rule_format, of V4] r4 by (auto simp: PR_Require_def)
  obtain rb where rb: "PR_ref V6 i' = Some rb" "owner V6 (IS_nics st') rb = Some p" using own [rule_format, of V6] r6 by (auto simp: PR_Require_def)
  note i' = p' ra(1) [unfolded PR_ref_def ipfam.case] ra(2) rb(1) [unfolded PR_ref_def ipfam.case] rb(2)
  obtain i1 where i1: "map_of (IS_pods st1) p = Some i1" "bare_pod i1 = bare_pod i" using pods_lookup_bare [OF l(7) assms(7)] by blast
  have w: "PR_IPv6 i1 = []" using PR_IPv6_bare [OF i1(2)] w6 by simp
  have no6: "PR_ipv6Ref i1 = None"
    using refs_okD [OF l(1) i1(1), of V6] l(6) none by (cases "PR_ipv6Ref i1") (auto simp: PR_ref_def)
  have "pending i1" using r6 no6 PR_bare_eq(4) [OF i1(2)] by (simp add: pending_def)
  then have mem: "p \<in> set (pending_ids (IS_pods st1))" using pending_ids_set [OF l(2)] i1(1) by blast
  obtain st2 where s2: "alloc_inv st1 st2 []" "distinct (pending_ids (IS_pods st1))"
    "\<forall>p \<in> set (pending_ids (IS_pods st1)). p \<noteq> [] \<and> p \<notin> set [] \<and> (\<exists>i. map_of (IS_pods st2) p = Some i)"
    "foldl (\<lambda>acc podID. serve_pod now ord4 ord6 m4 m6 podID acc) (st2, []) (pending_ids (IS_pods st1)) = (st', uns)"
    "\<And>p i. map_of (IS_pods st1) p = Some i \<Longrightarrow> PR_IPv6 i = [] \<Longrightarrow>
      \<exists>i'. map_of (IS_pods st2) p = Some i' \<and> bare_pod i' = bare_pod i \<and> PR_ipv6Ref i' = PR_ipv6Ref i"
    using second_loop [OF l(1-5) assms(6)] by blast
  obtain i2 where i2: "map_of (IS_pods st2) p = Some i2" "bare_pod i2 = bare_pod i1" "PR_ipv6Ref i2 = None"
    using s2(5) [OF i1(1) w] no6 by auto
  have "PR_IPv6 i2 = []" using PR_IPv6_bare [OF i2(2)] w by simp
  then have pr: "paired (IS_nics st') i'"
    using serve_pods_paired [OF s2(1-4) mem i2(1,3)] i'(1) by auto
  have bare: "bare_nics (IS_nics st') = bare_nics (IS_nics st)"
    using assign_inv [OF l(1-5) assms(6)] l(6) by (simp add: alloc_inv_def)
  have "map_option Nic_ID (map_of (IS_nics st') (fst ra)) = map_option Nic_ID (map_of (IS_nics st') (fst rb))"
    using pr i'(2,4) unfolding paired_def by blast
  then have "map_option Nic_ID (map_of (IS_nics st) (fst ra)) = map_option Nic_ID (map_of (IS_nics st) (fst rb))"
    unfolding nic_id_bare [OF bare] .
  then show "\<exists>r4 r6. owner V4 (IS_nics st') r4 = Some p \<and> owner V6 (IS_nics st') r6 = Some p \<and>
      map_option Nic_ID (map_of (IS_nics st) (fst r4)) = map_option Nic_ID (map_of (IS_nics st) (fst r6))"
    using i' by blast
next
  assume u: "p \<in> set uns" and w4: "PR_IPv4 i = []" and only: "\<forall>q j. map_of (IS_pods st) q = Some j \<longrightarrow> \<not> PR_RequireIPv6 j"
  note l = linked [OF assms(1,2,4,5)]
  obtain st2 where s2: "alloc_inv st1 st2 []" "distinct (pending_ids (IS_pods st1))"
    "\<forall>p \<in> set (pending_ids (IS_pods st1)). p \<noteq> [] \<and> p \<notin> set [] \<and> (\<exists>i. map_of (IS_pods st2) p = Some i)"
    "foldl (\<lambda>acc podID. serve_pod now ord4 ord6 m4 m6 podID acc) (st2, []) (pending_ids (IS_pods st1)) = (st', uns)"
    "\<And>p i. map_of (IS_pods st1) p = Some i \<Longrightarrow> PR_IPv6 i = [] \<Longrightarrow>
      \<exists>i'. map_of (IS_pods st2) p = Some i' \<and> bare_pod i' = bare_pod i \<and> PR_ipv6Ref i' = PR_ipv6Ref i"
    using second_loop [OF l(1-5) assms(6)] by blast
  have b: "gm_map bare_pod (IS_pods st2) = gm_map bare_pod (IS_pods st)" using s2(1) l(7) by (simp add: alloc_inv_def)
  obtain i2 where i2: "map_of (IS_pods st2) p = Some i2" "bare_pod i2 = bare_pod i" using pods_lookup_bare [OF b assms(7)] by blast
  have only2: "\<forall>q j. map_of (IS_pods st2) q = Some j \<longrightarrow> \<not> PR_RequireIPv6 j"
  proof (intro allI impI)
    fix q j assume "map_of (IS_pods st2) q = Some j"
    then obtain j0 where "map_of (IS_pods st) q = Some j0" "bare_pod j0 = bare_pod j" using bare_pods_lookup [OF b] by blast
    then show "\<not> PR_RequireIPv6 j" using only PR_bare_eq(4) [of j0 j] by auto
  qed
  have w2: "PR_IPv4 i2 = []" using PR_bare_eq(3) [OF i2(2)] w4 by simp
  show "\<forall>k r. map_of m4 k = Some r \<longrightarrow> \<not> ip_fits V4 (IS_nics st') i r"
  proof (intro allI impI)
    fix k r assume k: "map_of m4 k = Some r"
    have "\<not> ip_fits V4 (IS_nics st') i2 r"
      by (rule serve_pods_exhausted [OF s2(1-4) assms(3) only2 u _ i2(1) w2 k]) simp
    then show "\<not> ip_fits V4 (IS_nics st') i r" using ip_fits_before [of st' st' i i2 r] i2(2) by fastforce
  qed
qed

subsection \<open>Pods that are gone\<close>

lemma ip_of_writes:
  assumes "distinct rs"
  shows "ip_of f' (foldl (\<lambda>nics r. ip_write f r g nics) nics rs) r' =
    (if f' = f \<and> r' \<in> set rs then map_option g (ip_of f nics r') else ip_of f' nics r')"
  using assms by (induction rs arbitrary: nics) (auto simp: gm_simps)

lemma index_ips_gm_ok: "gm_ok m \<Longrightarrow> gm_ok (fst (index_ips f es (m, pods)))"
proof (induction es arbitrary: m pods)
  case (Cons e es)
  then show ?case by (cases e) simp
qed simp

lemma index_vals:
  assumes "index_ok m" and "gm_ok m"
  shows "distinct (vals m)" and "r \<in> set (vals m) \<longleftrightarrow> map_of m (snd r) = Some r"
proof -
  have snds: "map snd (vals m) = keys m"
    using assms by (auto simp: index_ok_def intro: map_cong dest!: gm_okD)
  then have "distinct (map snd (vals m))" using assms(2) unfolding gm_ok_def by metis
  then show "distinct (vals m)" unfolding distinct_map by blast
  show "r \<in> set (vals m) \<longleftrightarrow> map_of m (snd r) = Some r"
  proof
    assume "r \<in> set (vals m)"
    then obtain k where k: "(k, r) \<in> set m" by auto
    then have "map_of m k = Some r" by (rule gm_okD [OF assms(2)])
    moreover from this have "snd r = k" using assms(1) unfolding index_ok_def by blast
    ultimately show "map_of m (snd r) = Some r" by simp
  next
    assume "map_of m (snd r) = Some r"
    then show "r \<in> set (vals m)" by (force dest: map_of_SomeD)
  qed
qed

lemma buildIPMap_gm_ok: "buildIPMap ordE ordI st = (m4, m6, st') \<Longrightarrow> gm_ok m4 \<and> gm_ok m6"
  using index_ips_gm_ok [of "[]"] by (auto simp: buildIPMap_def case_prod_beta Let_def)

text \<open>The pod of an address is gone: it is not among the pods of the node, and its sandbox is known to be removed.\<close>

definition pod_gone ::
  "(CNIStatus list \<Rightarrow> CNIStatus list) \<Rightarrow> runtime_get \<Rightarrow> bool \<Rightarrow> (string, PodRequest) gomap \<Rightarrow> NodeIP \<Rightarrow> bool" where
  "pod_gone ordS got daemonSupport pods ip \<longleftrightarrow> map_of pods (NIP_PodID ip) = None \<and>
     (case got of
        RuntimeFound runtime \<Rightarrow> NIP_PodUID ip = [] \<or> gone_on_node ordS runtime (NIP_PodUID ip)
      | RuntimeNotFound \<Rightarrow> \<not> daemonSupport
      | RuntimeError \<Rightarrow> False)"

lemma release_ip_owner:
  assumes "NIP_PodID ip = p" and "p \<noteq> []"
  shows "NIP_PodID (release_ip ordS dsup runtime pods ip) =
    (if map_of pods p = None \<and> (NIP_PodUID ip = [] \<or> \<not> dsup \<or> gone_on_node ordS runtime (NIP_PodUID ip)) then [] else p)"
  using assms by (auto simp: release_ip_def split: option.splits)

lemma releasePodNotFound_ips:
  assumes "distinct (vals m4)" and "distinct (vals m6)"
  shows "ip_of f (IS_nics (releasePodNotFound ordS got dsup m4 m6 st)) r =
    (case got of
       RuntimeError \<Rightarrow> ip_of f (IS_nics st) r
     | RuntimeNotFound \<Rightarrow>
         if dsup then ip_of f (IS_nics st) r
         else map_option (if r \<in> set (vals (case f of V4 \<Rightarrow> m4 | V6 \<Rightarrow> m6)) then release_ip ordS False [] (IS_pods st) else (\<lambda>ip. ip)) (ip_of f (IS_nics st) r)
     | RuntimeFound runtime \<Rightarrow>
         map_option (if r \<in> set (vals (case f of V4 \<Rightarrow> m4 | V6 \<Rightarrow> m6)) then release_ip ordS True runtime (IS_pods st) else (\<lambda>ip. ip)) (ip_of f (IS_nics st) r))"
  by (cases f; cases got)
    (simp_all add: releasePodNotFound_def Let_def ip_of_writes [OF assms(1)] ip_of_writes [OF assms(2)] option.map_ident)


subsection \<open>An example\<close>

definition ex_ip :: "string \<Rightarrow> string \<Rightarrow> string \<times> NodeIP" where
  "ex_ip a pod = (a, \<lparr>NIP_IP = a, NIP_Primary = False, NIP_Status = IPStatusValid, NIP_PodID = pod,
     NIP_PodUID = (if pod = [] then [] else ''u1''), NIP_IPName = []\<rparr>)"

definition ex_nics :: Nics where
  "ex_nics = [(''eni-1'', zero_Nic\<lparr>Nic_ID := ''eni-1'', Nic_Status := ENIStatusInUse,
     Nic_IPv4 := Some [ex_ip ''10.0.0.5'' ''n/a'', ex_ip ''10.0.0.6'' []], Nic_IPv6 := Some [ex_ip ''fd00::6'' []]\<rparr>)]"

definition ex_pods :: "(string, PodRequest) gomap" where
  "ex_pods = [(''n/b'', \<lparr>PR_PodUID = ''u2'', PR_RequireIPv4 = True, PR_RequireIPv6 = True, PR_RequireERDMA = False,
     PR_IPv4 = [], PR_IPv6 = [], PR_ipv4Ref = None, PR_ipv6Ref = None\<rparr>)]"

definition ex_st :: ipam_st where
  "ex_st = \<lparr>IS_nics = ex_nics, IS_pods = ex_pods, IS_LastModifiedTime = 0\<rparr>"

definition ex_idx :: "(string, EniIP) gomap \<times> (string, EniIP) gomap \<times> ipam_st" where
  "ex_idx = buildIPMap (\<lambda>ks. ks) (\<lambda>ks. ks) ex_st"

definition ex_assign :: "ipam_st \<times> string list" where
  "ex_assign = assignIPFromLocalPool 9 (\<lambda>_ ks. ks) (\<lambda>_ ks. ks) (fst ex_idx) (fst (snd ex_idx)) (snd (snd ex_idx))"

lemma ex_fresh: "fresh_pods (IS_pods ex_st)"
  by code_simp

lemma ex_idx_eq: "buildIPMap (\<lambda>ks. ks) (\<lambda>ks. ks) ex_st = (fst ex_idx, fst (snd ex_idx), snd (snd ex_idx))"
  by (simp add: ex_idx_def)

lemma ex_assign_eq:
  "assignIPFromLocalPool 9 (\<lambda>_ ks. ks) (\<lambda>_ ks. ks) (fst ex_idx) (fst (snd ex_idx)) (snd (snd ex_idx)) = (fst ex_assign, snd ex_assign)"
  by (simp add: ex_assign_def)

lemma ex_unserved: "snd ex_assign = []"
  by code_simp

theorem assign_safe_witness: "owner V4 (IS_nics (fst ex_assign)) (''eni-1'', ''10.0.0.5'') = Some ''n/a''"
proof -
  have "owner V4 (IS_nics ex_st) (''eni-1'', ''10.0.0.5'') = Some ''n/a''" by code_simp
  with assign_safe [OF range_order_id range_order_id ex_fresh ex_idx_eq ex_assign_eq, of V4 "(''eni-1'', ''10.0.0.5'')" "''n/a''"] ex_unserved
  show ?thesis by simp
qed

theorem assign_serves_witness:
  "\<exists>r4 r6. owner V4 (IS_nics (fst ex_assign)) r4 = Some ''n/b'' \<and> owner V6 (IS_nics (fst ex_assign)) r6 = Some ''n/b'' \<and>
     map_option Nic_ID (map_of ex_nics (fst r4)) = map_option Nic_ID (map_of ex_nics (fst r6))"
proof -
  have p: "map_of (IS_pods ex_st) ''n/b'' = Some (snd (hd ex_pods))" by code_simp
  have i: "PR_RequireIPv4 (snd (hd ex_pods))" "PR_RequireIPv6 (snd (hd ex_pods))" "PR_IPv6 (snd (hd ex_pods)) = []" by code_simp+
  have none: "\<forall>r. owner V6 (IS_nics ex_st) r \<noteq> Some ''n/b''"
    by (simp add: owner_def ip_of_def ex_st_def ex_nics_def ex_ip_def nic_ips_def)
  note s = assign_serves [OF range_order_id range_order_id range_order_id ex_fresh ex_idx_eq ex_assign_eq p]
  have "IS_nics ex_st = ex_nics" by (simp add: ex_st_def)
  moreover have "''n/b'' \<notin> set (snd ex_assign)" using ex_unserved by simp
  ultimately show ?thesis using s i none by metis
qed


end
