(* ===== verification/VSwitchPool.thy ===== *)
theory VSwitchPool
  imports NodeTypes
begin

section \<open>Choosing a vSwitch (pkg/vswitch/vswitch.go)\<close>

text \<open>
  The pool answers from an expiring LRU cache and asks the cloud for what is not cached. The cache is
  the package \<^verbatim>\<open>k8s.io/apimachinery/pkg/util/cache\<close>, which is not part of this code: its operations
  are a parameter \<open>lru\<close>, and \<open>lru_laws\<close> states what they promise at one moment (a value just
  added is found, and adding or reading one key never makes another key answer something new; it may
  make it disappear). \<^verbatim>\<open>DescribeVSwitchByID\<close> is a parameter as well, and so are the random
  permutation and the unstable sort of the two policies that use them.
\<close>

subsection \<open>The cache package\<close>

record Switch =
  Sw_ID :: string
  Sw_Zone :: string
  Sw_AvailableIPCount :: int
  Sw_IPv4CIDR :: string
  Sw_IPv6CIDR :: string

record 'c lru =
  lru_Get :: "string \<Rightarrow> 'c \<Rightarrow> Switch option \<times> 'c"
  lru_Add :: "string \<Rightarrow> Switch \<Rightarrow> 'c \<Rightarrow> 'c"
  lru_Remove :: "string \<Rightarrow> 'c \<Rightarrow> 'c"

text \<open>What a read of a key would return.\<close>

abbreviation peek :: "'c lru \<Rightarrow> 'c \<Rightarrow> string \<Rightarrow> Switch option" where
  "peek lru c k \<equiv> fst (lru_Get lru k c)"

definition lru_laws :: "'c lru \<Rightarrow> bool" where
  "lru_laws lru \<longleftrightarrow>
     (\<forall>c k j. peek lru (snd (lru_Get lru k c)) j = peek lru c j) \<and>
     (\<forall>c k v. peek lru (lru_Add lru k v c) k = Some v) \<and>
     (\<forall>c k v j. j \<noteq> k \<longrightarrow> peek lru (lru_Add lru k v c) j = peek lru c j \<or> peek lru (lru_Add lru k v c) j = None)"

subsection \<open>Definitions\<close>

datatype vsw_error = ErrDescribe string | ErrIPNotEnough string | ErrNoAvailableVSwitch string "string list"

type_synonym vpc = "string \<Rightarrow> Switch option"

definition GetByID :: "'c lru \<Rightarrow> vpc \<Rightarrow> string \<Rightarrow> 'c \<Rightarrow> Switch option \<times> 'c" where
  "GetByID lru client i c =
     (case lru_Get lru i c of
        (Some sw, c) \<Rightarrow> (Some sw, c)
      | (None, c) \<Rightarrow>
          (case client i of
             None \<Rightarrow> (None, c)
           | Some sw \<Rightarrow> (Some sw, lru_Add lru (Sw_ID sw) sw c)))"

definition Block :: "'c lru \<Rightarrow> string \<Rightarrow> 'c \<Rightarrow> 'c" where
  "Block lru i c =
     (case lru_Get lru i c of
        (None, c) \<Rightarrow> c
      | (Some v, c) \<Rightarrow> lru_Add lru i (v\<lparr>Sw_AvailableIPCount := 0\<rparr>) c)"

definition Add_Switch :: "'c lru \<Rightarrow> Switch \<Rightarrow> 'c \<Rightarrow> 'c" where
  "Add_Switch lru sw c = lru_Add lru (Sw_ID sw) sw c"

definition Del_Switch :: "'c lru \<Rightarrow> string \<Rightarrow> 'c \<Rightarrow> 'c" where
  "Del_Switch lru k c = lru_Remove lru k c"

record SelectOptions =
  SO_IgnoreZone :: bool
  SO_VSwitchSelectPolicy :: "SelectionPolicy option"

text \<open>\<^verbatim>\<open>Apply\<close>: the options of a caller over those collected so far; an empty policy is \<open>None\<close>.\<close>

definition SelectOptions_Apply :: "SelectOptions \<Rightarrow> SelectOptions \<Rightarrow> SelectOptions" where
  "SelectOptions_Apply o1 so =
     (let so = so\<lparr>SO_IgnoreZone := SO_IgnoreZone o1\<rparr>
      in if SO_VSwitchSelectPolicy o1 \<noteq> None then so\<lparr>SO_VSwitchSelectPolicy := SO_VSwitchSelectPolicy o1\<rparr> else so)"

definition ApplyOptions :: "SelectOptions list \<Rightarrow> SelectOptions" where
  "ApplyOptions opts =
     fold SelectOptions_Apply opts \<lparr>SO_IgnoreZone = False, SO_VSwitchSelectPolicy = None\<rparr>"

definition ByAvailableIP :: "Switch \<Rightarrow> Switch \<Rightarrow> bool" where
  "ByAvailableIP a b \<longleftrightarrow> Sw_AvailableIPCount a > Sw_AvailableIPCount b"

text \<open>The first loop of the policy ``most'': the vSwitches that could be read.\<close>

fun get_all :: "'c lru \<Rightarrow> vpc \<Rightarrow> string list \<Rightarrow> 'c \<Rightarrow> Switch list \<times> 'c" where
  "get_all lru client [] c = ([], c)"
| "get_all lru client (i # is) c =
     (case GetByID lru client i c of
        (None, c) \<Rightarrow> get_all lru client is c
      | (Some vsw, c) \<Rightarrow> (case get_all lru client is c of (vs, c) \<Rightarrow> (vsw # vs, c)))"

text \<open>The order in which the vSwitches are tried.\<close>

definition try_order ::
  "'c lru \<Rightarrow> vpc \<Rightarrow> (string list \<Rightarrow> string list) \<Rightarrow> (Switch list \<Rightarrow> Switch list) \<Rightarrow> SelectionPolicy option \<Rightarrow>
   string list \<Rightarrow> 'c \<Rightarrow> string list \<times> 'c" where
  "try_order lru client shuffle srt policy ids c =
     (case policy of
        Some VSwitchSelectionPolicyRandom \<Rightarrow> (shuffle ids, c)
      | Some VSwitchSelectionPolicyMost \<Rightarrow>
          (case get_all lru client ids c of (vs, c) \<Rightarrow> (map Sw_ID (srt vs), c))
      | _ \<Rightarrow> (ids, c))"

text \<open>The second loop: the vSwitch it returns, or the fall-back list and the errors.\<close>

fun first_in_zone ::
  "'c lru \<Rightarrow> vpc \<Rightarrow> string \<Rightarrow> bool \<Rightarrow> string list \<Rightarrow> 'c \<Rightarrow> (Switch + Switch list \<times> vsw_error list) \<times> 'c" where
  "first_in_zone lru client zone ignoreZone [] c = (Inr ([], []), c)"
| "first_in_zone lru client zone ignoreZone (i # is) c =
     (case GetByID lru client i c of
        (None, c) \<Rightarrow>
          (case first_in_zone lru client zone ignoreZone is c of
             (Inl vsw, c) \<Rightarrow> (Inl vsw, c)
           | (Inr (fb, errs), c) \<Rightarrow> (Inr (fb, ErrDescribe i # errs), c))
      | (Some vsw, c) \<Rightarrow>
          if Sw_Zone vsw \<noteq> zone then
            (case first_in_zone lru client zone ignoreZone is c of
               (Inl v, c) \<Rightarrow> (Inl v, c)
             | (Inr (fb, errs), c) \<Rightarrow> (Inr (if ignoreZone then vsw # fb else fb, errs), c))
          else if Sw_AvailableIPCount vsw = 0 then
            (case first_in_zone lru client zone ignoreZone is c of
               (Inl v, c) \<Rightarrow> (Inl v, c)
             | (Inr (fb, errs), c) \<Rightarrow> (Inr (fb, ErrIPNotEnough (Sw_ID vsw) # errs), c))
          else (Inl vsw, c))"

fun first_fallback :: "Switch list \<Rightarrow> Switch + vsw_error list" where
  "first_fallback [] = Inr []"
| "first_fallback (vsw # vs) =
     (if Sw_AvailableIPCount vsw = 0 then
        (case first_fallback vs of Inl v \<Rightarrow> Inl v | Inr errs \<Rightarrow> Inr (ErrIPNotEnough (Sw_ID vsw) # errs))
      else Inl vsw)"

definition GetOne ::
  "'c lru \<Rightarrow> vpc \<Rightarrow> (string list \<Rightarrow> string list) \<Rightarrow> (Switch list \<Rightarrow> Switch list) \<Rightarrow> string \<Rightarrow> string list \<Rightarrow>
   SelectOptions list \<Rightarrow> 'c \<Rightarrow> (Switch + vsw_error list) \<times> 'c" where
  "GetOne lru client shuffle srt zone ids opts c =
     (let o1 = ApplyOptions opts; (ids, c) = try_order lru client shuffle srt (SO_VSwitchSelectPolicy o1) ids c in
      case first_in_zone lru client zone (SO_IgnoreZone o1) ids c of
        (Inl vsw, c) \<Rightarrow> (Inl vsw, c)
      | (Inr (fb, errs), c) \<Rightarrow>
          (case first_fallback fb of
             Inl vsw \<Rightarrow> (Inl vsw, c)
           | Inr errs' \<Rightarrow> (Inr (errs @ errs' @ [ErrNoAvailableVSwitch zone ids]), c)))"

subsection \<open>What the pool sees\<close>

text \<open>Adding one key keeps the others: the cache is large enough for the vSwitches in use.\<close>

definition lru_room :: "'c lru \<Rightarrow> bool" where
  "lru_room lru \<longleftrightarrow> (\<forall>c k v j. j \<noteq> k \<longrightarrow> peek lru (lru_Add lru k v c) j = peek lru c j)"

definition view :: "'c lru \<Rightarrow> vpc \<Rightarrow> 'c \<Rightarrow> vpc" where
  "view lru client c i = (case peek lru c i of Some v \<Rightarrow> Some v | None \<Rightarrow> client i)"

text \<open>Every vSwitch that can be read carries the name it is asked for.\<close>

definition named :: "'c lru \<Rightarrow> vpc \<Rightarrow> 'c \<Rightarrow> bool" where
  "named lru client c \<longleftrightarrow> (\<forall>i v. view lru client c i = Some v \<longrightarrow> Sw_ID v = i)"

lemma lru_lawsD:
  assumes "lru_laws lru"
  shows "peek lru (snd (lru_Get lru k c)) j = peek lru c j" and "peek lru (lru_Add lru k v c) k = Some v"
  using assms unfolding lru_laws_def by blast+

lemma lru_Add_peek:
  assumes "lru_laws lru" and "lru_room lru"
  shows "peek lru (lru_Add lru k v c) j = (if j = k then Some v else peek lru c j)"
  using lru_lawsD(2) [OF assms(1)] assms(2) by (auto simp: lru_room_def)

lemma GetByID_view:
  assumes "lru_laws lru" and "lru_room lru" and "named lru client c"
  shows "fst (GetByID lru client i c) = view lru client c i"
    and "view lru client (snd (GetByID lru client i c)) = view lru client c"
proof -
  obtain r c1 where g: "lru_Get lru i c = (r, c1)" by (cases "lru_Get lru i c")
  have c1: "view lru client c1 = view lru client c"
    using lru_lawsD(1) [OF assms(1), where k = i and c = c] g by (auto simp: view_def fun_eq_iff)
  show "fst (GetByID lru client i c) = view lru client c i"
    using g by (auto simp: GetByID_def view_def split: option.splits)
  show "view lru client (snd (GetByID lru client i c)) = view lru client c"
  proof (cases r)
    case (Some sw)
    then show ?thesis using g c1 by (simp add: GetByID_def)
  next
    case None
    have vi: "view lru client c i = client i" using g None by (simp add: view_def)
    show ?thesis
    proof (cases "client i")
      case C: (Some sw)
      have "Sw_ID sw = i" using assms(3) vi C by (simp add: named_def)
      moreover have "view lru client (lru_Add lru i sw c1) j = (if j = i then Some sw else view lru client c1 j)" for j
        by (simp add: view_def lru_Add_peek [OF assms(1,2)])
      then have "view lru client (lru_Add lru i sw c1) j = view lru client c1 j" for j
        using C vi c1 by (cases "j = i") simp_all
      ultimately show ?thesis using g None C c1 by (simp add: GetByID_def fun_eq_iff)
    qed (use g None c1 in \<open>simp add: GetByID_def\<close>)
  qed
qed

lemma named_view: "view lru client c' = view lru client c \<Longrightarrow> named lru client c' = named lru client c"
  by (simp add: named_def)

text \<open>The vSwitches that can be read, in the order of their names.\<close>

definition readable :: "vpc \<Rightarrow> string list \<Rightarrow> Switch list" where
  "readable v ids = List.map_filter v ids"

lemma readable_simps [simp]:
  "readable v [] = []"
  "readable v (i # is) = (case v i of None \<Rightarrow> readable v is | Some x \<Rightarrow> x # readable v is)"
  by (simp_all add: readable_def map_filter_simps split: option.splits)

lemma readable_set: "x \<in> set (readable v ids) \<longleftrightarrow> (\<exists>i \<in> set ids. v i = Some x)"
  by (induction ids) (auto split: option.splits)

text \<open>The choice, over a list of vSwitches.\<close>

definition chosen :: "string \<Rightarrow> bool \<Rightarrow> Switch list \<Rightarrow> Switch option" where
  "chosen zone ignoreZone vs =
     (case filter (\<lambda>v. Sw_Zone v = zone \<and> Sw_AvailableIPCount v \<noteq> 0) vs of
        v # _ \<Rightarrow> Some v
      | [] \<Rightarrow>
          if ignoreZone then
            (case filter (\<lambda>v. Sw_Zone v \<noteq> zone \<and> Sw_AvailableIPCount v \<noteq> 0) vs of v # _ \<Rightarrow> Some v | [] \<Rightarrow> None)
          else None)"

lemma get_all_view:
  assumes "lru_laws lru" and "lru_room lru"
  shows "named lru client c \<Longrightarrow> fst (get_all lru client ids c) = readable (view lru client c) ids \<and>
    view lru client (snd (get_all lru client ids c)) = view lru client c"
proof (induction ids arbitrary: c)
  case (Cons i "is")
  obtain r c1 where g: "GetByID lru client i c = (r, c1)" by (cases "GetByID lru client i c")
  note v = GetByID_view [OF assms Cons.prems, of i, unfolded g fst_conv snd_conv]
  have "named lru client c1" using Cons.prems named_view [OF v(2)] by simp
  from Cons.IH [OF this] show ?case
    using g v by (cases "get_all lru client is c1") (simp split: option.splits)
qed simp

lemma first_in_zone_view:
  assumes "lru_laws lru" and "lru_room lru"
  shows "named lru client c \<Longrightarrow>
    (case fst (first_in_zone lru client zone ign ids c) of
       Inl v \<Rightarrow> \<exists>vs. filter (\<lambda>v. Sw_Zone v = zone \<and> Sw_AvailableIPCount v \<noteq> 0) (readable (view lru client c) ids) = v # vs
     | Inr (fb, errs) \<Rightarrow>
         filter (\<lambda>v. Sw_Zone v = zone \<and> Sw_AvailableIPCount v \<noteq> 0) (readable (view lru client c) ids) = [] \<and>
         fb = (if ign then filter (\<lambda>v. Sw_Zone v \<noteq> zone) (readable (view lru client c) ids) else [])) \<and>
    view lru client (snd (first_in_zone lru client zone ign ids c)) = view lru client c"
proof (induction ids arbitrary: c)
  case (Cons i "is")
  obtain r c1 where g: "GetByID lru client i c = (r, c1)" by (cases "GetByID lru client i c")
  note v = GetByID_view [OF assms Cons.prems, of i, unfolded g fst_conv snd_conv]
  have "named lru client c1" using Cons.prems named_view [OF v(2)] by simp
  note IH = Cons.IH [OF this, unfolded v(2)]
  obtain s c2 where f: "first_in_zone lru client zone ign is c1 = (s, c2)" by (cases "first_in_zone lru client zone ign is c1")
  have vi: "view lru client c i = r" and v2: "view lru client c2 = view lru client c" using v IH f by simp_all
  note IH1 = IH [unfolded f fst_conv, THEN conjunct1]
  show ?case
  proof (cases r)
    case None
    show ?thesis
    proof (cases s)
      case (Inr fe)
      then show ?thesis using IH1 vi v2 g f None by (cases fe) simp
    qed (use IH1 vi v2 g f None in simp)
  next
    case (Some vsw)
    show ?thesis
    proof (cases "Sw_Zone vsw = zone \<and> Sw_AvailableIPCount vsw \<noteq> 0")
      case True
      then show ?thesis using vi v(2) g Some by simp
    next
      case False
      show ?thesis
      proof (cases s)
        case (Inl v)
        then show ?thesis using IH1 vi v2 g f Some False by simp
      next
        case (Inr fe)
        then show ?thesis using IH1 vi v2 g f Some False by (cases fe) auto
      qed
    qed
  qed
qed simp

lemma first_fallback_eq:
  "(case first_fallback vs of Inl v \<Rightarrow> \<exists>ws. filter (\<lambda>v. Sw_AvailableIPCount v \<noteq> 0) vs = v # ws
    | Inr errs \<Rightarrow> filter (\<lambda>v. Sw_AvailableIPCount v \<noteq> 0) vs = [])"
  by (induction vs) (auto split: sum.splits)

text \<open>The vSwitches in the order the policy tries them.\<close>

definition policy_order ::
  "(string list \<Rightarrow> string list) \<Rightarrow> (Switch list \<Rightarrow> Switch list) \<Rightarrow> SelectionPolicy option \<Rightarrow> vpc \<Rightarrow> string list \<Rightarrow> Switch list" where
  "policy_order shuffle srt policy v ids =
     (case policy of
        Some VSwitchSelectionPolicyRandom \<Rightarrow> readable v (shuffle ids)
      | Some VSwitchSelectionPolicyMost \<Rightarrow> srt (readable v ids)
      | _ \<Rightarrow> readable v ids)"

lemma readable_names:
  assumes "\<forall>x \<in> set vs. v (Sw_ID x) = Some x"
  shows "readable v (map Sw_ID vs) = vs"
  using assms by (induction vs) auto

lemma GetOne_chosen:
  assumes laws: "lru_laws lru" "lru_room lru" and nm: "named lru client c" and srt: "sort_spec ByAvailableIP srt"
  shows "(case fst (GetOne lru client shuffle srt zone ids opts c) of Inl v \<Rightarrow> Some v | Inr errs \<Rightarrow> None) =
    chosen zone (SO_IgnoreZone (ApplyOptions opts))
      (policy_order shuffle srt (SO_VSwitchSelectPolicy (ApplyOptions opts)) (view lru client c) ids)"
proof -
  let ?p = "SO_VSwitchSelectPolicy (ApplyOptions opts)" and ?ign = "SO_IgnoreZone (ApplyOptions opts)" and ?v = "view lru client c"
  obtain ids1 c1 where t: "try_order lru client shuffle srt ?p ids c = (ids1, c1)"
    by (cases "try_order lru client shuffle srt ?p ids c")
  have o1: "readable ?v ids1 = policy_order shuffle srt ?p ?v ids" and v1: "view lru client c1 = ?v"
  proof -
    obtain vs c2 where g: "get_all lru client ids c = (vs, c2)" by (cases "get_all lru client ids c")
    have vs: "vs = readable ?v ids" "view lru client c2 = ?v" using get_all_view [OF laws nm, of ids] g by auto
    have "x \<in> set (srt vs) \<Longrightarrow> ?v (Sw_ID x) = Some x" for x
      using nm vs(1) by (auto simp: sort_spec_set [OF srt] readable_set named_def)
    then have names: "readable ?v (map Sw_ID (srt vs)) = srt vs" by (intro readable_names) blast
    show "readable ?v ids1 = policy_order shuffle srt ?p ?v ids"
      using t g vs names by (auto simp: try_order_def policy_order_def split: option.splits SelectionPolicy.splits)
    show "view lru client c1 = ?v"
      using t g vs by (auto simp: try_order_def split: option.splits SelectionPolicy.splits)
  qed
  have n1: "named lru client c1" using nm named_view [OF v1] by simp
  obtain s c3 where f: "first_in_zone lru client zone ?ign ids1 c1 = (s, c3)" by (cases "first_in_zone lru client zone ?ign ids1 c1")
  note F = first_in_zone_view [OF laws n1, where zone = zone and ign = ?ign and ids = ids1, unfolded f fst_conv v1 o1, THEN conjunct1]
  show ?thesis
  proof (cases s)
    case (Inl v)
    then show ?thesis using F t f by (auto simp: GetOne_def chosen_def Let_def)
  next
    case (Inr fe)
    obtain fb errs where fe: "fe = (fb, errs)" by (cases fe)
    note B = first_fallback_eq [of fb]
    have fb: "filter (\<lambda>v. Sw_AvailableIPCount v \<noteq> 0) fb =
      (if ?ign then filter (\<lambda>v. Sw_Zone v \<noteq> zone \<and> Sw_AvailableIPCount v \<noteq> 0) (policy_order shuffle srt ?p ?v ids) else [])"
      using F Inr fe by (auto simp: conj_commute intro: filter_cong)
    show ?thesis
      using F Inr fe t f B fb by (auto simp: GetOne_def chosen_def Let_def split: sum.splits list.splits if_splits)
  qed
qed

lemma policy_order_set:
  assumes "range_order shuffle" and "sort_spec ByAvailableIP srt"
  shows "x \<in> set (policy_order shuffle srt policy v ids) \<longleftrightarrow> (\<exists>i \<in> set ids. v i = Some x)"
  by (auto simp: policy_order_def readable_set range_order_set [OF assms(1)] sort_spec_set [OF assms(2)]
           split: option.splits SelectionPolicy.splits)

lemma filter_head: "filter P xs = v # l \<Longrightarrow> v \<in> set xs \<and> P v"
  by (induction xs) (auto split: if_splits)

lemma chosen_Some:
  assumes "chosen zone ign vs = Some v"
  shows "v \<in> set vs" and "Sw_AvailableIPCount v \<noteq> 0"
    and "Sw_Zone v = zone \<or> ign \<and> (\<forall>w \<in> set vs. Sw_Zone w = zone \<longrightarrow> Sw_AvailableIPCount w = 0)"
proof -
  let ?z = "filter (\<lambda>v. Sw_Zone v = zone \<and> Sw_AvailableIPCount v \<noteq> 0) vs"
  let ?f = "filter (\<lambda>v. Sw_Zone v \<noteq> zone \<and> Sw_AvailableIPCount v \<noteq> 0) vs"
  have "(\<exists>l. ?z = v # l) \<or> ?z = [] \<and> ign \<and> (\<exists>l. ?f = v # l)"
    using assms unfolding chosen_def by (simp split: list.splits if_splits)
  then have *: "v \<in> set vs \<and> Sw_AvailableIPCount v \<noteq> 0 \<and> (Sw_Zone v = zone \<or> ?z = [] \<and> ign)"
    using filter_head [where P = "\<lambda>v. Sw_Zone v = zone \<and> Sw_AvailableIPCount v \<noteq> 0"]
      filter_head [where P = "\<lambda>v. Sw_Zone v \<noteq> zone \<and> Sw_AvailableIPCount v \<noteq> 0"] by blast
  then show "v \<in> set vs" "Sw_AvailableIPCount v \<noteq> 0" by simp_all
  show "Sw_Zone v = zone \<or> ign \<and> (\<forall>w \<in> set vs. Sw_Zone w = zone \<longrightarrow> Sw_AvailableIPCount w = 0)"
    using * unfolding filter_empty_conv by blast
qed

lemma chosen_None:
  assumes "chosen zone ign vs = None" and "w \<in> set vs"
  shows "Sw_AvailableIPCount w = 0 \<or> Sw_Zone w \<noteq> zone \<and> \<not> ign"
proof -
  let ?z = "filter (\<lambda>v. Sw_Zone v = zone \<and> Sw_AvailableIPCount v \<noteq> 0) vs"
  let ?f = "filter (\<lambda>v. Sw_Zone v \<noteq> zone \<and> Sw_AvailableIPCount v \<noteq> 0) vs"
  have "?z = [] \<and> (ign \<longrightarrow> ?f = [])" using assms(1) unfolding chosen_def by (simp split: list.splits if_splits)
  then show ?thesis using assms(2) unfolding filter_empty_conv by blast
qed

lemma GetOne_Inl:
  assumes "lru_laws lru" "lru_room lru" "named lru client c" "sort_spec ByAvailableIP srt"
    and "GetOne lru client shuffle srt zone ids opts c = (Inl v, c')"
  shows "chosen zone (SO_IgnoreZone (ApplyOptions opts))
      (policy_order shuffle srt (SO_VSwitchSelectPolicy (ApplyOptions opts)) (view lru client c) ids) = Some v"
  using GetOne_chosen [OF assms(1-4), of shuffle zone ids opts] assms(5) by simp

subsection \<open>Properties\<close>




subsection \<open>A cache as a map\<close>

definition map_lru :: "(string, Switch) gomap lru" where
  "map_lru = \<lparr>lru_Get = (\<lambda>k c. (map_of c k, c)), lru_Add = AList.update, lru_Remove = AList.delete\<rparr>"

lemma map_lru_laws: "lru_laws map_lru" "lru_room map_lru"
  by (simp_all add: lru_laws_def lru_room_def map_lru_def gm_simps)

definition wit_sw :: "string \<Rightarrow> string \<Rightarrow> int \<Rightarrow> Switch" where
  "wit_sw i zone n = \<lparr>Sw_ID = i, Sw_Zone = zone, Sw_AvailableIPCount = n, Sw_IPv4CIDR = [], Sw_IPv6CIDR = []\<rparr>"

definition wit_vpc :: vpc where
  "wit_vpc i =
     (if i = ''vsw-1'' then Some (wit_sw ''vsw-1'' ''a'' 3)
      else if i = ''vsw-2'' then Some (wit_sw ''vsw-2'' ''a'' 9)
      else if i = ''vsw-3'' then Some (wit_sw ''vsw-3'' ''b'' 50) else None)"

definition wit_cache :: "(string, Switch) gomap" where
  "wit_cache = [(''vsw-2'', wit_sw ''vsw-2'' ''a'' 9)]"

definition wit_most :: "SelectOptions list" where
  "wit_most = [\<lparr>SO_IgnoreZone = True, SO_VSwitchSelectPolicy = Some VSwitchSelectionPolicyMost\<rparr>]"

definition most_first :: "Switch list \<Rightarrow> Switch list" where
  "most_first vs = sort_key (\<lambda>v. - Sw_AvailableIPCount v) vs"

lemma most_first_spec: "sort_spec ByAvailableIP most_first"
proof -
  have "sorted_wrt (\<lambda>a b. \<not> ByAvailableIP b a) (most_first vs)" for vs
    using sorted_sort_key [of "\<lambda>v. - Sw_AvailableIPCount v" vs]
    by (auto simp: most_first_def sorted_wrt_map ByAvailableIP_def elim: sorted_wrt_mono_rel [rotated])
  then show ?thesis by (simp add: sort_spec_def most_first_def)
qed

lemma wit_named: "named map_lru wit_vpc wit_cache"
  by (auto simp: named_def view_def map_lru_def wit_cache_def wit_vpc_def wit_sw_def split: if_splits)

abbreviation wit_ids :: "string list" where
  "wit_ids \<equiv> [''vsw-1'', ''vsw-0'', ''vsw-2'', ''vsw-3'']"

lemma wit_get: "fst (GetOne map_lru wit_vpc (\<lambda>ids. ids) most_first ''a'' wit_ids wit_most wit_cache) = Inl (wit_sw ''vsw-2'' ''a'' 9)"
  by code_simp

definition wit_cache1 :: "(string, Switch) gomap" where
  "wit_cache1 = snd (GetOne map_lru wit_vpc (\<lambda>ids. ids) most_first ''a'' wit_ids wit_most wit_cache)"

lemma wit_get_eq: "GetOne map_lru wit_vpc (\<lambda>ids. ids) most_first ''a'' wit_ids wit_most wit_cache = (Inl (wit_sw ''vsw-2'' ''a'' 9), wit_cache1)"
  unfolding wit_cache1_def using wit_get by (rule prod_eqI [of _ "(_, _)", unfolded fst_conv snd_conv]) (rule refl)



definition wit_cache2 :: "(string, Switch) gomap" where
  "wit_cache2 = snd (GetOne map_lru wit_vpc (\<lambda>ids. ids) most_first ''a'' wit_ids wit_most (Block map_lru ''vsw-2'' wit_cache))"


end
