(* ===== verification/NodeTasks.thy ===== *)
theory NodeTasks
  imports NodeEni
begin

section \<open>The queue of attach tasks (pkg/controller/multi-ip/node/eni_task_queue.go)\<close>

text \<open>
  Network interfaces are attached in the background: \<^verbatim>\<open>SubmitAttach\<close> records a task under the name of
  the interface and starts a goroutine that attaches it, waits until the cloud reports it in use and
  writes the outcome into the record; the reconciler polls the records and removes those it has
  handled. Every operation on the queue is one critical section. A goroutine is cut where it calls
  the cloud or waits (\<open>task_pc\<close>); what a call answers is an \<open>outcome\<close>, and the goroutines and the
  reconcilers interleave as \<open>tq_step\<close> says. The notification channel is a list with a capacity;
  metrics are not modelled.
\<close>

datatype BackendAPI = BackendAPIECS | BackendAPIEFLO | BackendAPIEFLOHDENI

datatype ENIOperation = OpAttach | OpDetach | OpDelete

datatype ENITaskStatus =
    TaskStatusPending | TaskStatusRunning | TaskStatusCompleted | TaskStatusFailed | TaskStatusTimeout

record ENITaskRecord =
  TR_ENIID :: string
  TR_Operation :: ENIOperation
  TR_InstanceID :: string
  TR_TrunkENIID :: string
  TR_NodeName :: string
  TR_BackendAPI :: BackendAPI
  TR_Status :: ENITaskStatus
  TR_CreatedAt :: time
  TR_CompletedAt :: "time option"
  TR_RequestedIPv4Count :: int
  TR_RequestedIPv6Count :: int
  TR_RequestedIPv4PrefixCount :: int
  TR_RequestedIPv6PrefixCount :: int
  TR_ENIInfo :: "NetworkInterface option"
  TR_Error :: "string option"

record ENITaskQueue =
  TQ_tasks :: "(string, ENITaskRecord) gomap"
  TQ_notifyCh :: "string list"
  TQ_cap :: nat

definition NewENITaskQueue :: "nat \<Rightarrow> ENITaskQueue" where
  "NewENITaskQueue cap = \<lparr>TQ_tasks = [], TQ_notifyCh = [], TQ_cap = cap\<rparr>"

abbreviation in_progress :: "ENITaskRecord \<Rightarrow> bool" where
  "in_progress t \<equiv> TR_Status t = TaskStatusPending \<or> TR_Status t = TaskStatusRunning"

abbreviation finished :: "ENITaskRecord \<Rightarrow> bool" where
  "finished t \<equiv> TR_Status t = TaskStatusCompleted \<or> TR_Status t = TaskStatusFailed \<or> TR_Status t = TaskStatusTimeout"

subsection \<open>Operations\<close>

text \<open>The queue after the call, and the task a goroutine is started for.\<close>

definition SubmitAttach ::
  "time \<Rightarrow> BackendAPI \<Rightarrow> string \<Rightarrow> string \<Rightarrow> string \<Rightarrow> string \<Rightarrow> int \<Rightarrow> int \<Rightarrow> int \<Rightarrow> int \<Rightarrow> ENITaskQueue \<Rightarrow>
   ENITaskQueue \<times> ENITaskRecord option" where
  "SubmitAttach now backendAPI eniID instanceID trunkENIID nodeName requestedIPv4 requestedIPv6
     requestedIPv4Prefix requestedIPv6Prefix q =
     (if case map_of (TQ_tasks q) eniID of None \<Rightarrow> False | Some existing \<Rightarrow> in_progress existing then (q, None)
      else
        (let tasks = AList.delete eniID (TQ_tasks q);
             task = \<lparr>TR_ENIID = eniID, TR_Operation = OpAttach, TR_InstanceID = instanceID, TR_TrunkENIID = trunkENIID,
                     TR_NodeName = nodeName, TR_BackendAPI = backendAPI, TR_Status = TaskStatusPending, TR_CreatedAt = now,
                     TR_CompletedAt = None, TR_RequestedIPv4Count = requestedIPv4, TR_RequestedIPv6Count = requestedIPv6,
                     TR_RequestedIPv4PrefixCount = requestedIPv4Prefix, TR_RequestedIPv6PrefixCount = requestedIPv6Prefix,
                     TR_ENIInfo = None, TR_Error = None\<rparr>
         in (q\<lparr>TQ_tasks := AList.update eniID task tasks\<rparr>, Some task)))"

definition completeTask ::
  "time \<Rightarrow> string \<Rightarrow> ENITaskStatus \<Rightarrow> NetworkInterface option \<Rightarrow> string option \<Rightarrow> ENITaskQueue \<Rightarrow> ENITaskQueue" where
  "completeTask now eniID status eniInfo err q =
     q\<lparr>TQ_tasks := gm_adjust eniID
         (\<lambda>t. t\<lparr>TR_Status := status, TR_CompletedAt := Some now, TR_ENIInfo := eniInfo, TR_Error := err\<rparr>) (TQ_tasks q)\<rparr>"

definition updateTaskStatus :: "string \<Rightarrow> ENITaskStatus \<Rightarrow> string option \<Rightarrow> ENITaskQueue \<Rightarrow> ENITaskQueue" where
  "updateTaskStatus eniID status err q =
     q\<lparr>TQ_tasks := gm_adjust eniID (\<lambda>t. t\<lparr>TR_Status := status, TR_Error := err\<rparr>) (TQ_tasks q)\<rparr>"

definition GetTaskStatus :: "string \<Rightarrow> ENITaskQueue \<Rightarrow> ENITaskRecord option" where
  "GetTaskStatus eniID q = map_of (TQ_tasks q) eniID"

definition PeekCompletedTasks :: "(string list \<Rightarrow> string list) \<Rightarrow> string \<Rightarrow> ENITaskQueue \<Rightarrow> ENITaskRecord list" where
  "PeekCompletedTasks ord nodeName q =
     filter (\<lambda>t. TR_NodeName t = nodeName \<and> finished t) (map snd (range_list ord (TQ_tasks q)))"

definition DeleteTasks :: "string list \<Rightarrow> ENITaskQueue \<Rightarrow> ENITaskQueue" where
  "DeleteTasks eniIDs q = q\<lparr>TQ_tasks := foldl (\<lambda>m eniID. AList.delete eniID m) (TQ_tasks q) eniIDs\<rparr>"

definition GetPendingENIs :: "(string list \<Rightarrow> string list) \<Rightarrow> string \<Rightarrow> ENITaskQueue \<Rightarrow> string list" where
  "GetPendingENIs ord nodeName q =
     map fst (filter (\<lambda>(eniID, t). TR_NodeName t = nodeName \<and> in_progress t) (range_list ord (TQ_tasks q)))"

definition GetAttachingCount :: "string \<Rightarrow> ENITaskQueue \<Rightarrow> int" where
  "GetAttachingCount nodeName q = int (gm_count (\<lambda>t. TR_NodeName t = nodeName \<and> in_progress t) (TQ_tasks q))"

definition HasPendingTasks :: "string \<Rightarrow> ENITaskQueue \<Rightarrow> bool" where
  "HasPendingTasks nodeName q = list_ex (\<lambda>t. TR_NodeName t = nodeName \<and> in_progress t) (vals (TQ_tasks q))"

definition RemoveTask :: "string \<Rightarrow> ENITaskQueue \<Rightarrow> ENITaskQueue" where
  "RemoveTask eniID q = q\<lparr>TQ_tasks := AList.delete eniID (TQ_tasks q)\<rparr>"

definition RemoveTasks :: "string \<Rightarrow> ENITaskQueue \<Rightarrow> ENITaskQueue" where
  "RemoveTasks nodeName q =
     (let toRemove = map fst (filter (\<lambda>(eniID, t). TR_NodeName t = nodeName) (TQ_tasks q))
      in q\<lparr>TQ_tasks := foldl (\<lambda>m eniID. AList.delete eniID m) (TQ_tasks q) toRemove\<rparr>)"

definition notifyNode :: "string \<Rightarrow> ENITaskQueue \<Rightarrow> ENITaskQueue" where
  "notifyNode nodeName q =
     (if length (TQ_notifyCh q) < TQ_cap q then q\<lparr>TQ_notifyCh := TQ_notifyCh q @ [nodeName]\<rparr> else q)"

definition GetQueueStats :: "ENITaskQueue \<Rightarrow> (ENITaskStatus, int) gomap" where
  "GetQueueStats q =
     foldl (\<lambda>stats t. AList.update (TR_Status t) (case map_of stats (TR_Status t) of None \<Rightarrow> 1 | Some n \<Rightarrow> n + 1) stats)
       [] (vals (TQ_tasks q))"

definition stale_task :: "time \<Rightarrow> string \<Rightarrow> string list \<Rightarrow> duration \<Rightarrow> string \<Rightarrow> ENITaskRecord \<Rightarrow> bool" where
  "stale_task now nodeName validENIIDs staleThreshold eniID task =
     (if TR_NodeName task \<noteq> nodeName then False
      else if eniID \<notin> set validENIIDs then True
      else
        (case TR_CompletedAt task of
           None \<Rightarrow> False
         | Some completedAt \<Rightarrow> finished task \<and> now - completedAt > staleThreshold))"

definition CleanupStaleTasks ::
  "time \<Rightarrow> string \<Rightarrow> string list \<Rightarrow> duration \<Rightarrow> ENITaskQueue \<Rightarrow> ENITaskQueue \<times> string list" where
  "CleanupStaleTasks now nodeName validENIIDs staleThreshold q =
     (let removed = map fst (filter (\<lambda>(eniID, task). stale_task now nodeName validENIIDs staleThreshold eniID task) (TQ_tasks q))
      in (q\<lparr>TQ_tasks := filter (\<lambda>(eniID, task). \<not> stale_task now nodeName validENIIDs staleThreshold eniID task) (TQ_tasks q)\<rparr>,
          removed))"

definition isEFLORes :: "string \<Rightarrow> bool" where
  "isEFLORes inp \<longleftrightarrow> take 5 inp = ''leni-'' \<or> take 6 inp = ''hdeni-''"

subsection \<open>Time limits of the executor (pkg/eni/ops/executor.go)\<close>

definition GetTimeout :: "BackendAPI \<Rightarrow> string \<Rightarrow> duration" where
  "GetTimeout backendAPI eniID =
     (if backendAPI = BackendAPIECS then
        (if take 5 eniID = ''leni-'' \<or> take 6 eniID = ''hdeni-'' then 3 * minute else 2 * minute)
      else if take 5 eniID = ''leni-'' \<or> take 6 eniID = ''hdeni-'' then 5 * minute
      else 2 * minute)"

subsection \<open>The goroutine of a task\<close>

text \<open>
  Where the goroutine is: before its first update, before the attach call (left out for EFLO
  resources), in the initial delay, polling, before its notification, done. A call answers with the
  interface, with an error, or runs into the deadline of the task.
\<close>

datatype task_pc = PStart | PAttach | PDelay | PWait | PNotify | PDone

datatype outcome = Ready NetworkInterface | Failing string | Deadline string

fun processAttachTask :: "time \<Rightarrow> outcome \<Rightarrow> ENITaskRecord \<Rightarrow> task_pc \<Rightarrow> ENITaskQueue \<Rightarrow> ENITaskQueue \<times> task_pc" where
  "processAttachTask now res task PStart q =
     (updateTaskStatus (TR_ENIID task) TaskStatusRunning None q, if isEFLORes (TR_ENIID task) then PDelay else PAttach)"
| "processAttachTask now res task PAttach q =
     (case res of
        Ready _ \<Rightarrow> (q, PDelay)
      | Failing err \<Rightarrow> (completeTask now (TR_ENIID task) TaskStatusFailed None (Some err) q, PNotify)
      | Deadline err \<Rightarrow> (completeTask now (TR_ENIID task) TaskStatusFailed None (Some err) q, PNotify))"
| "processAttachTask now res task PDelay q =
     (case res of
        Deadline err \<Rightarrow> (completeTask now (TR_ENIID task) TaskStatusTimeout None (Some err) q, PNotify)
      | _ \<Rightarrow> (q, PWait))"
| "processAttachTask now res task PWait q =
     ((case res of
         Ready result \<Rightarrow> completeTask now (TR_ENIID task) TaskStatusCompleted (Some result) None q
       | Failing err \<Rightarrow> completeTask now (TR_ENIID task) TaskStatusFailed None (Some err) q
       | Deadline err \<Rightarrow> completeTask now (TR_ENIID task) TaskStatusTimeout None (Some err) q), PNotify)"
| "processAttachTask now res task PNotify q = (notifyNode (TR_NodeName task) q, PDone)"
| "processAttachTask now res task PDone q = (q, PDone)"

subsection \<open>Runs\<close>

record tq_state =
  TS_q :: ENITaskQueue
  TS_procs :: "(ENITaskRecord \<times> task_pc) list"

text \<open>A step of a goroutine, and the steps of the reconcilers and of the reader of the channel.\<close>

inductive tq_gstep :: "tq_state \<Rightarrow> tq_state \<Rightarrow> bool" where
  tq_go: "i < length (TS_procs s) \<Longrightarrow> TS_procs s ! i = (t, pc) \<Longrightarrow> pc \<noteq> PDone \<Longrightarrow>
    processAttachTask now res t pc (TS_q s) = (q', pc') \<Longrightarrow>
    tq_gstep s (s\<lparr>TS_q := q', TS_procs := (TS_procs s)[i := (t, pc')]\<rparr>)"

inductive tq_step :: "tq_state \<Rightarrow> tq_state \<Rightarrow> bool" where
  tq_goroutine: "tq_gstep s s' \<Longrightarrow> tq_step s s'"
| tq_submit: "SubmitAttach now b e i tr n r4 r6 p4 p6 (TS_q s) = (q', started) \<Longrightarrow>
    tq_step s (s\<lparr>TS_q := q', TS_procs := TS_procs s @ (case started of None \<Rightarrow> [] | Some t \<Rightarrow> [(t, PStart)])\<rparr>)"
| tq_delete: "tq_step s (s\<lparr>TS_q := DeleteTasks es (TS_q s)\<rparr>)"
| tq_remove: "tq_step s (s\<lparr>TS_q := RemoveTask e (TS_q s)\<rparr>)"
| tq_remove_node: "tq_step s (s\<lparr>TS_q := RemoveTasks n (TS_q s)\<rparr>)"
| tq_cleanup: "tq_step s (s\<lparr>TS_q := fst (CleanupStaleTasks now n valid threshold (TS_q s))\<rparr>)"
| tq_receive: "TQ_notifyCh (TS_q s) = n # ns \<Longrightarrow> tq_step s (s\<lparr>TS_q := (TS_q s)\<lparr>TQ_notifyCh := ns\<rparr>\<rparr>)"

definition tq_init :: "nat \<Rightarrow> tq_state" where
  "tq_init cap = \<lparr>TS_q = NewENITaskQueue cap, TS_procs = []\<rparr>"

definition tq_reach :: "nat \<Rightarrow> tq_state \<Rightarrow> bool" where
  "tq_reach cap s \<longleftrightarrow> tq_step\<^sup>*\<^sup>* (tq_init cap) s"

subsection \<open>Invariant\<close>

text \<open>
  Every task is filed under its interface; a completed one has the result; and for a task in
  progress there is a goroutine of that interface that has its outcome still to write.
\<close>

definition tq_owed :: "(ENITaskRecord \<times> task_pc) list \<Rightarrow> string \<Rightarrow> bool" where
  "tq_owed procs e \<longleftrightarrow> (\<exists>(t, pc) \<in> set procs. TR_ENIID t = e \<and> pc \<noteq> PNotify \<and> pc \<noteq> PDone)"

definition task_ok :: "(ENITaskRecord \<times> task_pc) list \<Rightarrow> string \<Rightarrow> ENITaskRecord \<Rightarrow> bool" where
  "task_ok procs e t \<longleftrightarrow> TR_ENIID t = e \<and> (TR_Status t = TaskStatusCompleted \<longrightarrow> TR_ENIInfo t \<noteq> None) \<and>
     (in_progress t \<longrightarrow> tq_owed procs e)"

definition tq_inv :: "tq_state \<Rightarrow> bool" where
  "tq_inv s \<longleftrightarrow> gm_ok (TQ_tasks (TS_q s)) \<and> (\<forall>e t. map_of (TQ_tasks (TS_q s)) e = Some t \<longrightarrow> task_ok (TS_procs s) e t)"

lemma tq_invI:
  assumes "gm_ok (TQ_tasks (TS_q s))" and "\<And>e t. map_of (TQ_tasks (TS_q s)) e = Some t \<Longrightarrow> task_ok (TS_procs s) e t"
  shows "tq_inv s"
  using assms unfolding tq_inv_def by blast

text \<open>An operation that only removes tasks, with goroutines that only become more.\<close>

lemma tq_inv_fewer:
  assumes "tq_inv s" and "gm_ok (TQ_tasks q')" and "map_of (TQ_tasks q') \<subseteq>\<^sub>m map_of (TQ_tasks (TS_q s))"
  shows "tq_inv (s\<lparr>TS_q := q'\<rparr>)"
proof (rule tq_invI)
  show "gm_ok (TQ_tasks (TS_q (s\<lparr>TS_q := q'\<rparr>)))" using assms(2) by simp
next
  fix e t assume t: "map_of (TQ_tasks (TS_q (s\<lparr>TS_q := q'\<rparr>))) e = Some t"
  then have "map_of (TQ_tasks q') e = Some t" by simp
  then have "map_of (TQ_tasks (TS_q s)) e = Some t" using assms(3) by (metis domI map_le_def)
  then show "task_ok (TS_procs (s\<lparr>TS_q := q'\<rparr>)) e t" using assms(1) by (simp add: tq_inv_def)
qed

lemma foldl_delete:
  "map_of (foldl (\<lambda>m e. AList.delete e m) m es) e = (if e \<in> set es then None else map_of m e)"
  "gm_ok m \<Longrightarrow> gm_ok (foldl (\<lambda>m e. AList.delete e m) m es)"
  by (induction es arbitrary: m) (auto simp: gm_simps)

lemma foldl_delete_le: "map_of (foldl (\<lambda>m e. AList.delete e m) m es) \<subseteq>\<^sub>m map_of m"
  unfolding map_le_def dom_def foldl_delete by (simp split: if_splits)

lemma filter_map_le: "gm_ok m \<Longrightarrow> map_of (filter P m) \<subseteq>\<^sub>m map_of m"
  unfolding map_le_def by (metis domIff filter_is_subset gm_okD gm_ok_filter map_of_SomeD not_None_eq subset_code(1))

abbreviation live_pc :: "task_pc \<Rightarrow> bool" where
  "live_pc pc \<equiv> pc \<noteq> PNotify \<and> pc \<noteq> PDone"

lemma tq_owed_update:
  assumes "i < length procs" and "procs ! i = (t, pc)" and "tq_owed procs e"
    and "e \<noteq> TR_ENIID t \<or> live_pc pc' \<or> \<not> live_pc pc"
  shows "tq_owed (procs[i := (t, pc')]) e"
proof -
  obtain u p where "(u, p) \<in> set procs" and u: "TR_ENIID u = e" "live_pc p" using assms(3) unfolding tq_owed_def by blast
  then obtain j where j: "j < length procs" "procs ! j = (u, p)" by (metis in_set_conv_nth)
  show ?thesis
  proof (cases "j = i")
    case True
    then have "(t, pc') \<in> set (procs[i := (t, pc')])" using assms(1) by (simp add: set_update_memI)
    moreover have "TR_ENIID t = e" "live_pc pc'" using True j u assms(2,4) by auto
    ultimately show ?thesis unfolding tq_owed_def by blast
  next
    case False
    then have "(u, p) \<in> set (procs[i := (t, pc')])" using j by (metis length_list_update nth_list_update_neq nth_mem)
    then show ?thesis using u unfolding tq_owed_def by blast
  qed
qed

lemma tq_owed_self: "i < length procs \<Longrightarrow> live_pc pc' \<Longrightarrow> tq_owed (procs[i := (t, pc')]) (TR_ENIID t)"
  unfolding tq_owed_def by (metis (mono_tags, lifting) case_prodI set_update_memI)

text \<open>What a step of a goroutine does to the tasks: nothing, a start, or the outcome.\<close>

lemma processAttachTask_cases:
  assumes "processAttachTask now res t pc q = (q', pc')" and "pc \<noteq> PDone"
  obtains (quiet) "TQ_tasks q' = TQ_tasks q" "live_pc pc' \<or> \<not> live_pc pc"
  | (start) "TQ_tasks q' = gm_adjust (TR_ENIID t) (\<lambda>t. t\<lparr>TR_Status := TaskStatusRunning, TR_Error := None\<rparr>) (TQ_tasks q)" "live_pc pc'"
  | (complete) st info err where
      "TQ_tasks q' = gm_adjust (TR_ENIID t)
         (\<lambda>t. t\<lparr>TR_Status := st, TR_CompletedAt := Some now, TR_ENIInfo := info, TR_Error := err\<rparr>) (TQ_tasks q)"
      "st \<noteq> TaskStatusPending" "st \<noteq> TaskStatusRunning" "st = TaskStatusCompleted \<longrightarrow> info \<noteq> None"
proof (cases pc)
  case PStart
  then show ?thesis using assms(1) start by (auto simp: updateTaskStatus_def)
next
  case PAttach
  then show ?thesis using assms(1) quiet complete [where st = TaskStatusFailed and info = None]
    by (cases res) (auto simp: completeTask_def)
next
  case PDelay
  then show ?thesis using assms(1) quiet complete [where st = TaskStatusTimeout and info = None]
    by (cases res) (auto simp: completeTask_def)
next
  case PWait
  show ?thesis
  proof (cases res)
    case (Ready r)
    show ?thesis by (rule complete [where st = TaskStatusCompleted and info = "Some r" and err = None]) (use assms(1) PWait Ready in \<open>auto simp: completeTask_def\<close>)
  next
    case (Failing e)
    show ?thesis by (rule complete [where st = TaskStatusFailed and info = None and err = "Some e"]) (use assms(1) PWait Failing in \<open>auto simp: completeTask_def\<close>)
  next
    case (Deadline e)
    show ?thesis by (rule complete [where st = TaskStatusTimeout and info = None and err = "Some e"]) (use assms(1) PWait Deadline in \<open>auto simp: completeTask_def\<close>)
  qed
next
  case PNotify
  then show ?thesis using assms(1) quiet by (auto simp: notifyNode_def)
qed (use assms in simp)

lemma tq_inv_gstep:
  assumes "tq_inv s" and "tq_gstep s s'"
  shows "tq_inv s'"
  using assms(2)
proof cases
  case (tq_go i t pc now res q' pc')
  have ok: "gm_ok (TQ_tasks (TS_q s))" and each: "\<And>e u. map_of (TQ_tasks (TS_q s)) e = Some u \<Longrightarrow> task_ok (TS_procs s) e u"
    using assms(1) unfolding tq_inv_def by blast+
  let ?procs = "(TS_procs s)[i := (t, pc')]"
  note owed = tq_owed_update [OF tq_go(2,3), where pc' = pc']
  have other: "task_ok ?procs e u" if u: "map_of (TQ_tasks (TS_q s)) e = Some u" and e: "e \<noteq> TR_ENIID t \<or> live_pc pc' \<or> \<not> live_pc pc" for e u
    using each [OF u] owed [OF _ e] unfolding task_ok_def by blast
  have "gm_ok (TQ_tasks q') \<and> (\<forall>e u. map_of (TQ_tasks q') e = Some u \<longrightarrow> task_ok ?procs e u)"
    using tq_go(5,4)
  proof (cases rule: processAttachTask_cases)
    case quiet
    then show ?thesis using ok other by simp
  next
    case start
    have "task_ok ?procs e u" if "map_of (TQ_tasks q') e = Some u" for e u
    proof (cases "e = TR_ENIID t")
      case True
      then obtain v where v: "map_of (TQ_tasks (TS_q s)) e = Some v" "u = v\<lparr>TR_Status := TaskStatusRunning, TR_Error := None\<rparr>"
        using \<open>map_of (TQ_tasks q') e = Some u\<close> start(1) by (auto simp: gm_simps)
      then show ?thesis
        using each [OF v(1)] tq_owed_self [OF tq_go(2) start(2), of t] True by (simp add: task_ok_def)
    next
      case False
      then show ?thesis using \<open>map_of (TQ_tasks q') e = Some u\<close> start(1) other by (auto simp: gm_simps)
    qed
    then show ?thesis using ok start(1) by simp
  next
    case (complete st info err)
    have "task_ok ?procs e u" if "map_of (TQ_tasks q') e = Some u" for e u
    proof (cases "e = TR_ENIID t")
      case True
      then obtain v where v: "map_of (TQ_tasks (TS_q s)) e = Some v"
        "u = v\<lparr>TR_Status := st, TR_CompletedAt := Some now, TR_ENIInfo := info, TR_Error := err\<rparr>"
        using \<open>map_of (TQ_tasks q') e = Some u\<close> complete(1) by (auto simp: gm_simps)
      then show ?thesis using each [OF v(1)] complete(2-4) by (simp add: task_ok_def)
    next
      case False
      then show ?thesis using \<open>map_of (TQ_tasks q') e = Some u\<close> complete(1) other by (auto simp: gm_simps)
    qed
    then show ?thesis using ok complete(1) by simp
  qed
  then show ?thesis unfolding tq_go(1) tq_inv_def by simp
qed

lemma tq_owed_append: "tq_owed procs e \<Longrightarrow> tq_owed (procs @ ps) e"
  unfolding tq_owed_def by auto

lemma tq_inv_submit:
  assumes "tq_inv s" and "SubmitAttach now b e i tr n r4 r6 p4 p6 (TS_q s) = (q', started)"
  shows "tq_inv (s\<lparr>TS_q := q', TS_procs := TS_procs s @ (case started of None \<Rightarrow> [] | Some t \<Rightarrow> [(t, PStart)])\<rparr>)"
proof (cases "case map_of (TQ_tasks (TS_q s)) e of None \<Rightarrow> False | Some existing \<Rightarrow> in_progress existing")
  case True
  then have "q' = TS_q s" "started = None" using assms(2) by (simp_all add: SubmitAttach_def)
  then show ?thesis using assms(1) by simp
next
  case False
  then obtain t where t: "started = Some t" "TQ_tasks q' = AList.update e t (AList.delete e (TQ_tasks (TS_q s)))"
    "TR_ENIID t = e" "TR_Status t = TaskStatusPending"
    using assms(2) by (auto simp: SubmitAttach_def Let_def)
  have ok: "gm_ok (TQ_tasks (TS_q s))" and each: "\<And>e u. map_of (TQ_tasks (TS_q s)) e = Some u \<Longrightarrow> task_ok (TS_procs s) e u"
    using assms(1) unfolding tq_inv_def by blast+
  have "task_ok (TS_procs s @ [(t, PStart)]) d u" if "map_of (TQ_tasks q') d = Some u" for d u
  proof (cases "d = e")
    case True
    then have "u = t" using that t(2) by (simp add: gm_simps)
    then show ?thesis using True t(3,4) by (simp add: task_ok_def tq_owed_def)
  next
    case False
    then have "task_ok (TS_procs s) d u" using that t(2) each [of d u] by (simp add: gm_simps)
    then show ?thesis using tq_owed_append unfolding task_ok_def by blast
  qed
  then show ?thesis using ok t(1,2) unfolding tq_inv_def by simp
qed

lemma tq_inv_step: "tq_step s s' \<Longrightarrow> tq_inv s \<Longrightarrow> tq_inv s'"
proof (induction rule: tq_step.induct)
  case (tq_goroutine s s')
  then show ?case by (blast intro: tq_inv_gstep)
next
  case (tq_submit now b e i tr n r4 r6 p4 p6 s q' started)
  then show ?case by (blast intro: tq_inv_submit)
next
  case (tq_delete s es)
  then show ?case
    by (intro tq_inv_fewer) (simp_all add: DeleteTasks_def foldl_delete_le foldl_delete(2) tq_inv_def)
next
  case (tq_remove s e)
  then show ?case by (intro tq_inv_fewer) (auto simp: RemoveTask_def map_le_def tq_inv_def gm_simps)
next
  case (tq_remove_node s n)
  then show ?case
    by (intro tq_inv_fewer) (simp_all add: RemoveTasks_def Let_def foldl_delete_le foldl_delete(2) tq_inv_def)
next
  case (tq_cleanup s now n valid threshold)
  then have "gm_ok (TQ_tasks (TS_q s))" by (simp add: tq_inv_def)
  then show ?case using tq_cleanup
    by (intro tq_inv_fewer) (simp_all add: CleanupStaleTasks_def Let_def gm_ok_filter filter_map_le)
next
  case (tq_receive s n ns)
  then show ?case by (intro tq_inv_fewer) (auto simp: tq_inv_def)
qed

lemma tq_inv_reach: "tq_reach cap s \<Longrightarrow> tq_inv s"
  unfolding tq_reach_def
proof (induction rule: rtranclp_induct)
  case base
  show ?case by (simp add: tq_init_def NewENITaskQueue_def tq_inv_def)
next
  case (step s s')
  then show ?case using tq_inv_step by blast
qed

subsection \<open>Progress\<close>

fun pc_left :: "task_pc \<Rightarrow> nat" where
  "pc_left PStart = 5"
| "pc_left PAttach = 4"
| "pc_left PDelay = 3"
| "pc_left PWait = 2"
| "pc_left PNotify = 1"
| "pc_left PDone = 0"

definition steps_left :: "tq_state \<Rightarrow> nat" where
  "steps_left s = sum_list (map (\<lambda>(t, pc). pc_left pc) (TS_procs s))"

lemma sum_list_update_less:
  fixes f :: "'a \<Rightarrow> nat"
  assumes "i < length xs" and "f y < f (xs ! i)"
  shows "sum_list (map f (xs[i := y])) < sum_list (map f xs)"
  using assms
proof (induction xs arbitrary: i)
  case (Cons x xs)
  then show ?case by (cases i) simp_all
qed simp

lemma processAttachTask_less:
  "processAttachTask now res t pc q = (q', pc') \<Longrightarrow> pc \<noteq> PDone \<Longrightarrow> pc_left pc' < pc_left pc"
  by (cases pc) (auto split: outcome.splits)

lemma tq_gstep_less:
  assumes "tq_gstep s s'"
  shows "steps_left s' < steps_left s"
  using assms
proof cases
  case (tq_go i t pc now res q' pc')
  show ?thesis
    unfolding steps_left_def tq_go(1)
    using sum_list_update_less [OF tq_go(2), of "\<lambda>(t, pc). pc_left pc" "(t, pc')"] processAttachTask_less [OF tq_go(5,4)] tq_go(3)
    by simp
qed

lemma tq_gsteps_bound: "(tq_gstep ^^ n) s s' \<Longrightarrow> n + steps_left s' \<le> steps_left s"
proof (induction n arbitrary: s')
  case (Suc n)
  then obtain u where "(tq_gstep ^^ n) s u" "tq_gstep u s'" by auto
  then show ?case using Suc.IH tq_gstep_less [of u s'] by fastforce
qed simp

lemma tq_owed_enabled:
  assumes "tq_owed (TS_procs s) e"
  shows "\<exists>s'. tq_gstep s s'"
proof -
  obtain t pc where "(t, pc) \<in> set (TS_procs s)" "pc \<noteq> PDone" using assms unfolding tq_owed_def by blast
  then obtain i where "i < length (TS_procs s)" "TS_procs s ! i = (t, pc)" by (metis in_set_conv_nth)
  then show ?thesis
    using tq_go [of i s t pc 0 "Deadline []"] \<open>pc \<noteq> PDone\<close> by (metis prod.exhaust)
qed

lemma tq_gsteps_reach: "(tq_gstep ^^ n) s s' \<Longrightarrow> tq_reach cap s \<Longrightarrow> tq_reach cap s'"
proof (induction n arbitrary: s')
  case (Suc n)
  then obtain u where "(tq_gstep ^^ n) s u" "tq_gstep u s'" by auto
  then show ?case using Suc tq_step.tq_goroutine unfolding tq_reach_def by (metis rtranclp.rtrancl_into_rtrancl)
qed simp

subsection \<open>Properties\<close>

text \<open>
  C37: no task hangs. From every reachable state, however the goroutines are scheduled and whatever the
  cloud answers, at most \<open>steps_left\<close> steps of theirs are possible, and when none is left no task is
  pending or running.
\<close>

theorem tasks_settle:
  assumes "tq_reach cap s" and "(tq_gstep ^^ n) s s'"
  shows "n \<le> steps_left s \<and>
    ((\<nexists>s''. tq_gstep s' s'') \<longrightarrow> (\<forall>e t. map_of (TQ_tasks (TS_q s')) e = Some t \<longrightarrow> finished t))"
proof (intro conjI impI allI)
  show "n \<le> steps_left s" using tq_gsteps_bound [OF assms(2)] by simp
next
  fix e t assume stuck: "\<nexists>s''. tq_gstep s' s''" and t: "map_of (TQ_tasks (TS_q s')) e = Some t"
  have "tq_inv s'" using assms tq_gsteps_reach tq_inv_reach by blast
  then have "in_progress t \<longrightarrow> tq_owed (TS_procs s') e" using t unfolding tq_inv_def task_ok_def by blast
  then have "\<not> in_progress t" using stuck tq_owed_enabled by blast
  then show "finished t" by (cases "TR_Status t") simp_all
qed

text \<open>
  C38: in every reachable state a completed task carries the description of the attached interface, so
  the branch of the reconciler for a completed task without one is never taken; and every task is
  filed under the interface it is about.
\<close>

theorem completed_has_result:
  assumes "tq_reach cap s" and "t \<in> set (PeekCompletedTasks ord node (TS_q s))"
  shows "TR_NodeName t = node \<and> finished t \<and> (TR_Status t = TaskStatusCompleted \<longrightarrow> TR_ENIInfo t \<noteq> None) \<and>
    GetTaskStatus (TR_ENIID t) (TS_q s) = Some t"
proof -
  have inv: "tq_inv s" using assms(1) by (rule tq_inv_reach)
  have t: "TR_NodeName t = node" "finished t" and "t \<in> set (map snd (range_list ord (TQ_tasks (TS_q s))))"
    using assms(2) by (auto simp: PeekCompletedTasks_def)
  then obtain e where e: "map_of (TQ_tasks (TS_q s)) e = Some t"
    by (auto simp: range_list_def List.map_filter_def)
  then have ok: "task_ok (TS_procs s) e t" using inv by (simp add: tq_inv_def)
  then have "TR_ENIID t = e" "TR_Status t = TaskStatusCompleted \<longrightarrow> TR_ENIInfo t \<noteq> None" by (simp_all add: task_ok_def)
  then show ?thesis using t e by (simp add: GetTaskStatus_def)
qed

text \<open>The runs of the examples: the tasks of one interface, with a goroutine for each submission.\<close>

definition ex_task :: "time \<Rightarrow> ENITaskRecord" where
  "ex_task now = the (snd (SubmitAttach now BackendAPIECS ''eni-1'' ''i-1'' [] ''n1'' 1 0 0 0 (NewENITaskQueue 1)))"

lemma ex_submit:
  assumes "map_of (TQ_tasks (TS_q s)) ''eni-1'' = None"
  shows "tq_step s (s\<lparr>TS_q := (TS_q s)\<lparr>TQ_tasks := AList.update ''eni-1'' (ex_task now) (AList.delete ''eni-1'' (TQ_tasks (TS_q s)))\<rparr>,
    TS_procs := TS_procs s @ [(ex_task now, PStart)]\<rparr>)"
  using tq_submit [of now BackendAPIECS "''eni-1''" "''i-1''" "[]" "''n1''" 1 0 0 0 s] assms
  by (simp add: SubmitAttach_def ex_task_def NewENITaskQueue_def Let_def)

definition ex_start :: tq_state where
  "ex_start = \<lparr>TS_q = \<lparr>TQ_tasks = [(''eni-1'', ex_task 7)], TQ_notifyCh = [], TQ_cap = 1\<rparr>, TS_procs = [(ex_task 7, PStart)]\<rparr>"

lemma ex_start_reach: "tq_reach 1 ex_start"
proof -
  have "tq_step (tq_init 1) ex_start"
    using ex_submit [of "tq_init 1" 7] by (simp add: tq_init_def NewENITaskQueue_def ex_start_def)
  then show ?thesis by (simp add: tq_reach_def)
qed

definition ex_next :: "nat \<Rightarrow> time \<Rightarrow> outcome \<Rightarrow> tq_state \<Rightarrow> tq_state" where
  "ex_next i now res s = (case TS_procs s ! i of (t, pc) \<Rightarrow>
     (case processAttachTask now res t pc (TS_q s) of (q', pc') \<Rightarrow> s\<lparr>TS_q := q', TS_procs := (TS_procs s)[i := (t, pc')]\<rparr>))"

lemma ex_next_step:
  assumes "i < length (TS_procs s)" and "snd (TS_procs s ! i) \<noteq> PDone"
  shows "tq_gstep s (ex_next i now res s)"
proof -
  obtain t pc where p: "TS_procs s ! i = (t, pc)" by (cases "TS_procs s ! i")
  obtain q' pc' where r: "processAttachTask now res t pc (TS_q s) = (q', pc')" by (cases "processAttachTask now res t pc (TS_q s)")
  show ?thesis using tq_go [OF assms(1) p _ r] assms(2) p by (simp add: ex_next_def r)
qed

definition ex_last :: tq_state where
  "ex_last = ex_next 0 9 (Failing ''no'') (ex_next 0 9 (Failing ''no'') (ex_next 0 8 (Failing ''no'') ex_start))"

lemma ex_last_eval:
  "TS_procs ex_last = [(ex_task 7, PDone)]"
  "TQ_tasks (TS_q ex_last) = [(''eni-1'', (ex_task 7)\<lparr>TR_Status := TaskStatusFailed, TR_CompletedAt := Some 9,
     TR_ENIInfo := None, TR_Error := Some ''no''\<rparr>)]"
  by code_simp+

lemma ex_last_task: "\<exists>t. map_of (TQ_tasks (TS_q ex_last)) ''eni-1'' = Some t"
proof -
  have "map_of (TQ_tasks (TS_q ex_last)) ''eni-1'' \<noteq> None" by code_simp
  then show ?thesis by blast
qed

theorem tasks_settle_witness:
  "3 \<le> steps_left ex_start \<and>
   map_option finished (map_of (TQ_tasks (TS_q ex_last)) ''eni-1'') = Some True"
proof -
  let ?s1 = "ex_next 0 8 (Failing ''no'') ex_start" and ?s2 = "ex_next 0 9 (Failing ''no'') (ex_next 0 8 (Failing ''no'') ex_start)"
  have "tq_gstep ex_start ?s1" by (rule ex_next_step) (simp_all add: ex_start_def)
  moreover have "tq_gstep ?s1 ?s2" by (rule ex_next_step; code_simp)
  moreover have "tq_gstep ?s2 ex_last" unfolding ex_last_def by (rule ex_next_step; code_simp)
  ultimately have "(tq_gstep ^^ 3) ex_start ex_last" by (auto simp: numeral_3_eq_3)
  from tasks_settle [OF ex_start_reach this]
  have "3 \<le> steps_left ex_start" and "(\<nexists>s''. tq_gstep ex_last s'') \<longrightarrow>
    (\<forall>e t. map_of (TQ_tasks (TS_q ex_last)) e = Some t \<longrightarrow> finished t)" by blast+
  moreover have "\<nexists>s''. tq_gstep ex_last s''"
  proof
    assume "\<exists>s''. tq_gstep ex_last s''"
    then obtain s'' where "tq_gstep ex_last s''" by blast
    then show False by cases (simp add: ex_last_eval)
  qed
  ultimately have "3 \<le> steps_left ex_start" and all: "\<forall>e t. map_of (TQ_tasks (TS_q ex_last)) e = Some t \<longrightarrow> finished t" by blast+
  moreover obtain t where "map_of (TQ_tasks (TS_q ex_last)) ''eni-1'' = Some t" using ex_last_task by blast
  ultimately show ?thesis by simp
qed

definition ex_eni :: NetworkInterface where
  "ex_eni = zero_NetworkInterface\<lparr>NI_NetworkInterfaceID := ''eni-1'', NI_Status := ENIStatusInUse\<rparr>"

definition ex_done :: tq_state where
  "ex_done = ex_next 0 11 (Ready ex_eni) (ex_next 0 10 (Ready ex_eni) (ex_next 0 9 (Ready ex_eni) (ex_next 0 8 (Ready ex_eni) ex_start)))"

lemma ex_done_reach: "tq_reach 1 ex_done"
proof -
  let ?n = "\<lambda>now s. ex_next 0 now (Ready ex_eni) s"
  have "tq_gstep ex_start (?n 8 ex_start)" by (rule ex_next_step; code_simp)
  moreover have "tq_gstep (?n 8 ex_start) (?n 9 (?n 8 ex_start))" by (rule ex_next_step; code_simp)
  moreover have "tq_gstep (?n 9 (?n 8 ex_start)) (?n 10 (?n 9 (?n 8 ex_start)))" by (rule ex_next_step; code_simp)
  moreover have "tq_gstep (?n 10 (?n 9 (?n 8 ex_start))) ex_done" unfolding ex_done_def by (rule ex_next_step; code_simp)
  ultimately show ?thesis
    using ex_start_reach unfolding tq_reach_def
    by (meson rtranclp.rtrancl_into_rtrancl tq_step.tq_goroutine)
qed

theorem completed_has_result_witness:
  "let t = (ex_task 7)\<lparr>TR_Status := TaskStatusCompleted, TR_CompletedAt := Some 11, TR_ENIInfo := Some ex_eni\<rparr>
   in PeekCompletedTasks (\<lambda>ks. ks) ''n1'' (TS_q ex_done) = [t] \<and> GetTaskStatus (TR_ENIID t) (TS_q ex_done) = Some t"
proof -
  let ?t = "(ex_task 7)\<lparr>TR_Status := TaskStatusCompleted, TR_CompletedAt := Some 11, TR_ENIInfo := Some ex_eni\<rparr>"
  have p: "PeekCompletedTasks (\<lambda>ks. ks) ''n1'' (TS_q ex_done) = [?t]" by code_simp
  then have "?t \<in> set (PeekCompletedTasks (\<lambda>ks. ks) ''n1'' (TS_q ex_done))" by simp
  from completed_has_result [OF ex_done_reach this] p show ?thesis unfolding Let_def by blast
qed

definition ex_removed :: tq_state where
  "ex_removed = (let s = ex_next 0 8 (Ready ex_eni) ex_start in s\<lparr>TS_q := fst (CleanupStaleTasks 8 ''n1'' [] (30 * minute) (TS_q s))\<rparr>)"

definition ex_again :: tq_state where
  "ex_again = ex_removed\<lparr>TS_q := (TS_q ex_removed)\<lparr>TQ_tasks := [(''eni-1'', ex_task 9)]\<rparr>,
     TS_procs := TS_procs ex_removed @ [(ex_task 9, PStart)]\<rparr>"

lemma ex_again_reach: "tq_reach 1 ex_again"
proof -
  have "tq_gstep ex_start (ex_next 0 8 (Ready ex_eni) ex_start)" by (rule ex_next_step; code_simp)
  then have "tq_reach 1 (ex_next 0 8 (Ready ex_eni) ex_start)"
    using ex_start_reach tq_step.tq_goroutine unfolding tq_reach_def by (metis rtranclp.rtrancl_into_rtrancl)
  then have "tq_reach 1 ex_removed"
    unfolding tq_reach_def ex_removed_def Let_def by (rule rtranclp.rtrancl_into_rtrancl) (rule tq_cleanup)
  moreover have "TQ_tasks (TS_q ex_removed) = []" by code_simp
  ultimately show ?thesis
    using ex_submit [of ex_removed 9] unfolding tq_reach_def ex_again_def by (simp add: rtranclp.rtrancl_into_rtrancl)
qed

text \<open>
  C39: the outcome of an attach can be written into the record of another one. There is a run in which
  a task is removed while its goroutine is under way (as \<^verbatim>\<open>CleanupStaleTasks\<close> does when the
  interface is missing in the Node resource), the interface is submitted again, and the old goroutine,
  which finds the record by the name of the interface only, marks the new task as failed before its
  own goroutine has done anything.
\<close>

theorem stale_completion:
  "\<exists>s t old. tq_reach 1 s \<and> GetTaskStatus ''eni-1'' (TS_q s) = Some t \<and> TR_CreatedAt t = 9 \<and> TR_Status t = TaskStatusFailed \<and>
     TS_procs s = [(old, PNotify), (ex_task 9, PStart)] \<and> TR_CreatedAt old = 7"
proof -
  let ?s = "ex_next 0 10 (Failing ''gone'') ex_again"
  have "tq_gstep ex_again ?s" by (rule ex_next_step; code_simp)
  then have "tq_reach 1 ?s"
    using ex_again_reach tq_step.tq_goroutine unfolding tq_reach_def by (metis rtranclp.rtrancl_into_rtrancl)
  moreover have "GetTaskStatus ''eni-1'' (TS_q ?s) =
    Some ((ex_task 9)\<lparr>TR_Status := TaskStatusFailed, TR_CompletedAt := Some 10, TR_Error := Some ''gone''\<rparr>)" by code_simp
  moreover have "TS_procs ?s = [(ex_task 7, PNotify), (ex_task 9, PStart)]" by code_simp
  moreover have "TR_CreatedAt (ex_task 7) = 7" "TR_CreatedAt ((ex_task 9)\<lparr>TR_Status := TaskStatusFailed, TR_CompletedAt := Some 10, TR_Error := Some ''gone''\<rparr>) = 9"
    by code_simp+
  ultimately show ?thesis
    by (intro exI [of _ ?s] exI [of _ "(ex_task 9)\<lparr>TR_Status := TaskStatusFailed, TR_CompletedAt := Some 10, TR_Error := Some ''gone''\<rparr>"]
        exI [of _ "ex_task 7"]) simp
qed

end
