(* ===== verification/NodeDemand.thy ===== *)
theory NodeDemand
  imports VSwitchPool NodeTasks NodeAssign
begin

section \<open>Planning the size of the pool (pkg/controller/multi-ip/node/pool.go)\<close>

text \<open>
  How many addresses and interfaces the node controller asks for and gives up: the list of
  interfaces it has or may create (\<^verbatim>\<open>getEniOptions\<close>), the addresses and prefixes each of them is to
  get (\<^verbatim>\<open>assignEniWithOptions\<close>, \<^verbatim>\<open>assignEniPrefixWithOptions\<close>), and the addresses to give up
  (\<^verbatim>\<open>calculateToDel\<close>, \<^verbatim>\<open>adjustPool\<close>). The reconciler checks that the settings of the node are there
  before it does anything, so they are arguments; an option refers to an interface by its key in the
  Node resource. Durations are parsed, and intervals jittered, by arguments.
\<close>

subsection \<open>Errors\<close>

text \<open>An error code of the cloud, one of its EFLO part, the error for want of a vSwitch, the one for a missing resource, or another.\<close>

datatype node_err = NApi string | NEflo int | NNoVSwitch | NNotFound | NOther string

definition code_is :: "node_err \<Rightarrow> string list \<Rightarrow> bool" where
  "code_is err codes = (case err of NApi c \<Rightarrow> c \<in> set codes | _ \<Rightarrow> False)"

definition isIPNotEnough :: "node_err \<Rightarrow> bool" where
  "isIPNotEnough err =
     (if code_is err [''InvalidVSwitchId.IpNotEnough'', ''QuotaExceeded.PrivateIpAddress''] then True
      else if err = NNoVSwitch then True else False)"

subsection \<open>Settings\<close>

definition isEFLO :: "BackendAPI \<Rightarrow> bool" where
  "isEFLO b \<longleftrightarrow> b = BackendAPIEFLO"

definition batchSize :: "BackendAPI \<Rightarrow> int" where
  "batchSize b = (if isEFLO b then 1 else 10)"

definition isPrefixMode :: "Node \<Rightarrow> bool" where
  "isPrefixMode node =
     (if map_of (Node_Labels node) ''alibabacloud.com/lingjun-worker'' = Some ''true'' then False
      else (case NS_ENISpec (Node_Spec node) of None \<Rightarrow> False | Some spec \<Rightarrow> ES_EnableIPPrefix spec))"

definition poolSyncPeriod :: "(string \<Rightarrow> duration option) \<Rightarrow> duration \<Rightarrow> string \<Rightarrow> duration" where
  "poolSyncPeriod parseDuration gcPeriod user =
     (if user \<noteq> [] then (case parseDuration user of None \<Rightarrow> gcPeriod | Some period \<Rightarrow> period) else gcPeriod)"

definition requeueAfter :: "(string \<Rightarrow> duration option) \<Rightarrow> duration \<Rightarrow> time \<Rightarrow> PoolSpec \<Rightarrow> NodeStatus \<Rightarrow> duration" where
  "requeueAfter parseDuration gcPeriod now pool status =
     (let poolPeriod = poolSyncPeriod parseDuration gcPeriod (PS_PoolSyncPeriod pool);
          nextSyncTime = St_NextSyncOpenAPITime status;
          result = (if nextSyncTime \<noteq> 0 \<and> now < nextSyncTime \<and> nextSyncTime - now < poolPeriod then nextSyncTime - now
                    else poolPeriod)
      in if result < 1 * second then 1 * second else result)"

subsection \<open>The interfaces at hand\<close>

record eniOptions =
  EO_eniTypeKey :: eniTypeKey
  EO_eniRef :: "string option"
  EO_addIPv4N :: int
  EO_addIPv6N :: int
  EO_addIPv4PrefixN :: int
  EO_addIPv6PrefixN :: int
  EO_isFull :: bool
  EO_errors :: "node_err list"

definition new_option :: "eniTypeKey \<Rightarrow> string option \<Rightarrow> eniOptions" where
  "new_option key ref = \<lparr>EO_eniTypeKey = key, EO_eniRef = ref, EO_addIPv4N = 0, EO_addIPv6N = 0, EO_addIPv4PrefixN = 0,
     EO_addIPv6PrefixN = 0, EO_isFull = False, EO_errors = []\<rparr>"

definition flavor_left :: "(eniTypeKey, int) gomap \<Rightarrow> eniTypeKey \<Rightarrow> int" where
  "flavor_left flavor key = (case map_of flavor key of None \<Rightarrow> 0 | Some n \<Rightarrow> n)"

definition flavor_of :: "Flavor list \<Rightarrow> (eniTypeKey, int) gomap" where
  "flavor_of flavors =
     foldl (\<lambda>m item. AList.update \<lparr>TK_ENIType = Fl_NetworkInterfaceType item, TK_TrafficMode = Fl_NetworkInterfaceTrafficMode item\<rparr>
                       (Fl_Count item) m) [] flavors"

definition flavor_use :: "(eniTypeKey, int) gomap \<Rightarrow> string \<times> Nic \<Rightarrow> (eniTypeKey, int) gomap" where
  "flavor_use flavor item =
     (case map_of flavor (nic_key (snd item)) of
        None \<Rightarrow> flavor
      | Some v \<Rightarrow> AList.update (nic_key (snd item)) (v - 1) flavor)"

definition getEniOptions :: "(string list \<Rightarrow> string list) \<Rightarrow> ENISpec \<Rightarrow> Flavor list \<Rightarrow> Nics \<Rightarrow> eniOptions list" where
  "getEniOptions ord spec flavors nics =
     (let total = sum_list (map Fl_Count flavors);
          sorted = sortNetworkInterface ord spec nics;
          flavor = foldl flavor_use (flavor_of flavors) sorted;
          newENILimit = max (total - int (length sorted)) 0;
          cnt = (if ES_EnableTrunk spec then min (flavor_left flavor trunkKey) newENILimit else 0);
          newENILimit = newENILimit - cnt;
          cntRDMA = (if ES_EnableERDMA spec then min (flavor_left flavor rdmaKey) newENILimit else 0);
          result = replicate (nat cnt) (new_option trunkKey None) @ replicate (nat cntRDMA) (new_option rdmaKey None) @
                   map (\<lambda>(k, item). new_option (nic_key item) (Some k)) sorted;
          toAdd = min (total - int (length result)) (flavor_left flavor secondaryKey)
      in result @ replicate (nat toAdd) (new_option secondaryKey None))"

subsection \<open>Demand\<close>

definition isStaleAssigned :: "PodRequest \<Rightarrow> bool" where
  "isStaleAssigned p =
     (if PR_RequireIPv4 p \<and> PR_IPv4 p \<noteq> [] \<and> PR_ipv4Ref p = None then True
      else if PR_RequireIPv6 p \<and> PR_IPv6 p \<noteq> [] \<and> PR_ipv6Ref p = None then True
      else False)"

definition getAllocatable :: "IPMap \<Rightarrow> IPMap" where
  "getAllocatable inp = filter (\<lambda>(k, v). NIP_Status v = IPStatusValid \<and> NIP_PodID v = []) inp"

definition countTotalIdleIPs :: "ENISpec \<Rightarrow> Nics \<Rightarrow> int" where
  "countTotalIdleIPs spec nics =
     sum_list (map (\<lambda>(k, eni).
       if Nic_Status eni \<noteq> ENIStatusInUse \<or> Nic_Unschedulable eni then 0
       else if ES_EnableIPv4 spec then int (length (getAllocatable (ips (Nic_IPv4 eni))))
       else if ES_EnableIPv6 spec then int (length (getAllocatable (ips (Nic_IPv6 eni))))
       else 0) nics)"

text \<open>One-time warm-up of the pool.\<close>

definition initializeWarmUp :: "PoolSpec option \<Rightarrow> NodeStatus \<Rightarrow> NodeStatus" where
  "initializeWarmUp pool status =
     (case pool of
        None \<Rightarrow> status
      | Some p \<Rightarrow>
          if St_WarmUpTarget status > 0 \<or> St_WarmUpCompleted status then status
          else if PS_WarmUpSize p \<le> 0 then status\<lparr>St_WarmUpCompleted := True\<rparr>
          else status\<lparr>St_WarmUpTarget := PS_WarmUpSize p, St_WarmUpAllocatedCount := 0, St_WarmUpCompleted := False\<rparr>)"

definition shouldPerformWarmUp :: "NodeStatus \<Rightarrow> bool" where
  "shouldPerformWarmUp status =
     (if St_WarmUpCompleted status then False else if St_WarmUpTarget status \<le> 0 then False else True)"

definition checkWarmUpCompletion :: "NodeStatus \<Rightarrow> NodeStatus" where
  "checkWarmUpCompletion status =
     (if St_WarmUpCompleted status then status
      else if St_WarmUpTarget status \<le> 0 then status
      else if St_WarmUpAllocatedCount status \<ge> St_WarmUpTarget status then status\<lparr>St_WarmUpCompleted := True\<rparr>
      else status)"

text \<open>The demand that \<^verbatim>\<open>addIP\<close> computes for the pods that could not be served.\<close>

definition allocationDemand :: "ENISpec \<Rightarrow> PoolSpec \<Rightarrow> NodeStatus \<Rightarrow> Nics \<Rightarrow> PodRequest list \<Rightarrow> int" where
  "allocationDemand spec pool status nics unSucceedPods =
     (let normalPods = filter (\<lambda>p. \<not> PR_RequireERDMA p) unSucceedPods;
          podDemand = int (length (filter (\<lambda>p. \<not> isStaleAssigned p) normalPods));
          totalIdleIPs = countTotalIdleIPs spec nics;
          minPoolDemand = max 0 (PS_MinPoolSize pool + podDemand - totalIdleIPs);
          warmUpDemand = (if shouldPerformWarmUp status then max 0 (St_WarmUpTarget status - St_WarmUpAllocatedCount status) else 0)
      in podDemand + max minPoolDemand warmUpDemand)"

definition rdmaDemand :: "PodRequest list \<Rightarrow> int" where
  "rdmaDemand unSucceedPods =
     int (length (filter (\<lambda>p. \<not> isStaleAssigned p) (filter PR_RequireERDMA unSucceedPods)))"

subsection \<open>Addresses for each interface\<close>

definition validateENI ::
  "'c lru \<Rightarrow> vpc \<Rightarrow> eniTypeKey list \<Rightarrow> bool \<Rightarrow> Nics \<Rightarrow> eniOptions \<Rightarrow> 'c \<Rightarrow> bool \<times> eniOptions \<times> 'c" where
  "validateENI lru client eniTypes enableIPv4 nics opt c =
     (if EO_eniTypeKey opt \<notin> set eniTypes then (False, opt, c)
      else
        (case EO_eniRef opt of
           None \<Rightarrow> (True, opt, c)
         | Some k \<Rightarrow>
             (case map_of nics k of
                None \<Rightarrow> (False, opt, c)
              | Some nic \<Rightarrow>
                  if Nic_Unschedulable nic then (False, opt, c)
                  else if Nic_Status nic \<noteq> ENIStatusInUse \<and> Nic_Status nic \<noteq> ENIStatusAttaching then (False, opt, c)
                  else if \<not> enableIPv4 then (True, opt, c)
                  else
                    (case GetByID lru client (Nic_VSwitchID nic) c of
                       (None, c) \<Rightarrow> (False, opt, c)
                     | (Some vsw, c) \<Rightarrow>
                         if Sw_AvailableIPCount vsw \<le> 0 then (False, opt\<lparr>EO_errors := EO_errors opt @ [NNoVSwitch]\<rparr>, c)
                         else (True, opt, c)))))"

text \<open>What is left of the demand after the addresses an interface was already created with.\<close>

definition discount :: "int \<Rightarrow> int \<Rightarrow> int" where
  "discount requested toAdd =
     (if toAdd > 0 \<and> requested \<ge> toAdd then 0 else if toAdd > 0 then toAdd - requested else toAdd)"

text \<open>The branch for an interface in use, with the quota that is left on it.\<close>

definition plan_left :: "int \<Rightarrow> int \<Rightarrow> int \<Rightarrow> eniOptions \<Rightarrow> int \<Rightarrow> int \<Rightarrow> eniOptions \<times> int \<times> int" where
  "plan_left batch leftQuota4 leftQuota6 opt toAddIPv4 toAddIPv6 =
     (let (opt, toAddIPv4) =
            (if toAddIPv4 > 0 then
               (if leftQuota4 > 0 then
                  (let n = min (min leftQuota4 toAddIPv4) batch in (opt\<lparr>EO_addIPv4N := n\<rparr>, toAddIPv4 - n))
                else (opt\<lparr>EO_isFull := True\<rparr>, toAddIPv4))
             else (opt, toAddIPv4));
          (opt, toAddIPv6) =
            (if toAddIPv6 > 0 then
               (if leftQuota6 > 0 then
                  (let n = min (min leftQuota6 toAddIPv6) batch in (opt\<lparr>EO_addIPv6N := n\<rparr>, toAddIPv6 - n))
                else (opt\<lparr>EO_isFull := True\<rparr>, toAddIPv6))
             else (opt, toAddIPv6))
      in (opt, toAddIPv4, toAddIPv6))"

text \<open>The body of the loop for one option that passed the filter; the result has what remains to be added.\<close>

definition plan_option ::
  "int \<Rightarrow> NodeCap \<Rightarrow> ENISpec \<Rightarrow> Nics \<Rightarrow> ENITaskQueue \<Rightarrow> eniOptions \<Rightarrow> int \<Rightarrow> int \<Rightarrow> eniOptions \<times> int \<times> int" where
  "plan_option batch cap spec nics taskQueue opt toAddIPv4 toAddIPv6 =
     (case EO_eniRef opt of
        Some k \<Rightarrow>
          (case map_of nics k of
             None \<Rightarrow> (opt, toAddIPv4, toAddIPv6)
           | Some nic \<Rightarrow>
               if Nic_Status nic = ENIStatusAttaching then
                 (let (toAddIPv4, toAddIPv6) =
                        (case GetTaskStatus (Nic_ID nic) taskQueue of
                           None \<Rightarrow> (toAddIPv4, toAddIPv6)
                         | Some task \<Rightarrow>
                             (discount (TR_RequestedIPv4Count task) toAddIPv4, discount (TR_RequestedIPv6Count task) toAddIPv6))
                  in (opt\<lparr>EO_addIPv4N := 0, EO_addIPv6N := 0\<rparr>, toAddIPv4, toAddIPv6))
               else
                 plan_left batch
                   (Cap_IPv4PerAdapter cap - int (length (ips (Nic_IPv4 nic))) - int (length (Nic_IPv4Prefix nic)))
                   (Cap_IPv6PerAdapter cap - int (length (ips (Nic_IPv6 nic))) - int (length (Nic_IPv6Prefix nic)))
                   opt toAddIPv4 toAddIPv6)
      | None \<Rightarrow>
          (let toAddIPv4 = (if EO_eniTypeKey opt = trunkKey \<and> toAddIPv4 \<le> 0 then 1 else toAddIPv4);
               toAddIPv6 = (if EO_eniTypeKey opt = trunkKey \<and> ES_EnableIPv6 spec \<and> toAddIPv6 \<le> 0 then 1 else toAddIPv6);
               (opt, toAddIPv4) =
                 (if toAddIPv4 > 0 then
                    (let n = min (min (Cap_IPv4PerAdapter cap) toAddIPv4) batch in (opt\<lparr>EO_addIPv4N := n\<rparr>, toAddIPv4 - n))
                  else (opt, toAddIPv4));
               (opt, toAddIPv6) =
                 (if toAddIPv6 > 0 then
                    (let n = min (min (Cap_IPv6PerAdapter cap) toAddIPv6) batch in (opt\<lparr>EO_addIPv6N := n\<rparr>, toAddIPv6 - n))
                  else (opt, toAddIPv6))
           in (opt, toAddIPv4, toAddIPv6)))"

fun plan_options ::
  "(eniOptions \<Rightarrow> 'c \<Rightarrow> bool \<times> eniOptions \<times> 'c) \<Rightarrow> (eniOptions \<Rightarrow> int \<Rightarrow> int \<Rightarrow> eniOptions \<times> int \<times> int) \<Rightarrow>
   int \<Rightarrow> int \<Rightarrow> eniOptions list \<Rightarrow> 'c \<Rightarrow> eniOptions list \<times> 'c" where
  "plan_options filterFunc plan t4 t6 [] c = ([], c)"
| "plan_options filterFunc plan t4 t6 (opt # opts) c =
     (case filterFunc opt c of
        (False, opt, c) \<Rightarrow> (case plan_options filterFunc plan t4 t6 opts c of (opts, c) \<Rightarrow> (opt # opts, c))
      | (True, opt, c) \<Rightarrow>
          (case plan opt t4 t6 of
             (opt, t4, t6) \<Rightarrow> (case plan_options filterFunc plan t4 t6 opts c of (opts, c) \<Rightarrow> (opt # opts, c))))"

definition assignEniWithOptions ::
  "BackendAPI \<Rightarrow> NodeCap \<Rightarrow> ENISpec \<Rightarrow> Nics \<Rightarrow> ENITaskQueue \<Rightarrow> (eniOptions \<Rightarrow> 'c \<Rightarrow> bool \<times> eniOptions \<times> 'c) \<Rightarrow>
   int \<Rightarrow> eniOptions list \<Rightarrow> 'c \<Rightarrow> eniOptions list \<times> 'c" where
  "assignEniWithOptions b cap spec nics taskQueue filterFunc toAdd opts c =
     (let toAddIPv4 = (if ES_EnableIPv4 spec then toAdd else 0);
          toAddIPv6 = (if ES_EnableIPv6 spec then toAdd else 0)
      in plan_options filterFunc (plan_option (batchSize b) cap spec nics taskQueue) toAddIPv4 toAddIPv6 opts c)"

subsection \<open>Prefixes for each interface\<close>

definition countOccupiedPrefixes :: "IPPrefix list \<Rightarrow> int" where
  "countOccupiedPrefixes prefixes =
     int (length (filter (\<lambda>p. PX_Status p = IPPrefixStatusValid \<or> PX_Status p = IPPrefixStatusFrozen) prefixes))"

definition maxPrefixPerAPICall :: int where
  "maxPrefixPerAPICall = 10"

text \<open>The schedulable interfaces among the options that have the given status.\<close>

definition opt_nics :: "string \<Rightarrow> Nics \<Rightarrow> eniOptions list \<Rightarrow> Nic list" where
  "opt_nics status nics opts =
     List.map_filter (\<lambda>opt. case EO_eniRef opt of None \<Rightarrow> None
        | Some k \<Rightarrow> (case map_of nics k of None \<Rightarrow> None
            | Some nic \<Rightarrow> if Nic_Status nic = status \<and> \<not> Nic_Unschedulable nic then Some nic else None)) opts"

definition pending_prefixes :: "ENITaskQueue \<Rightarrow> Nic \<Rightarrow> int \<times> int" where
  "pending_prefixes taskQueue nic =
     (case GetTaskStatus (Nic_ID nic) taskQueue of
        Some task \<Rightarrow> (TR_RequestedIPv4PrefixCount task, TR_RequestedIPv6PrefixCount task)
      | None \<Rightarrow> (countOccupiedPrefixes (Nic_IPv4Prefix nic), countOccupiedPrefixes (Nic_IPv6Prefix nic)))"

fun plan_prefixes :: "int \<Rightarrow> bool \<Rightarrow> ENISpec \<Rightarrow> int \<Rightarrow> int \<Rightarrow> eniOptions list \<Rightarrow> eniOptions list" where
  "plan_prefixes prefixCapForNewENI isDualStack spec d4 d6 [] = []"
| "plan_prefixes prefixCapForNewENI isDualStack spec d4 d6 (opt # opts) =
     (if EO_eniRef opt \<noteq> None then opt # plan_prefixes prefixCapForNewENI isDualStack spec d4 d6 opts
      else if d4 \<le> 0 \<and> d6 \<le> 0 then opt # opts
      else
        (let (opt, d4) =
               (if ES_EnableIPv4 spec \<and> d4 > 0 then
                  (let n = min (min d4 prefixCapForNewENI) maxPrefixPerAPICall in (opt\<lparr>EO_addIPv4PrefixN := n\<rparr>, d4 - n))
                else (opt, d4));
             (opt, d6) =
               (if isDualStack then
                  (if EO_addIPv4PrefixN opt > 0 then (opt\<lparr>EO_addIPv6PrefixN := 1\<rparr>, d6) else (opt, d6))
                else if ES_EnableIPv6 spec \<and> d6 > 0 then (opt\<lparr>EO_addIPv6PrefixN := 1\<rparr>, d6 - 1)
                else (opt, d6))
         in opt # plan_prefixes prefixCapForNewENI isDualStack spec d4 d6 opts))"

definition assignEniPrefixWithOptions :: "NodeCap \<Rightarrow> ENISpec \<Rightarrow> Nics \<Rightarrow> ENITaskQueue \<Rightarrow> eniOptions list \<Rightarrow> eniOptions list" where
  "assignEniPrefixWithOptions cap spec nics taskQueue opts =
     (let isDualStack = (ES_EnableIPv4 spec \<and> ES_EnableIPv6 spec);
          prefixCapForNewENI = Cap_IPv4PerAdapter cap - 1
      in if prefixCapForNewENI \<le> 0 then opts
         else
           (let inUse = opt_nics ENIStatusInUse nics opts;
                attaching = opt_nics ENIStatusAttaching nics opts;
                existingENICount = int (length inUse);
                existingV4Prefixes = sum_list (map (\<lambda>nic. countOccupiedPrefixes (Nic_IPv4Prefix nic)) inUse);
                existingV6Prefixes = sum_list (map (\<lambda>nic. countOccupiedPrefixes (Nic_IPv6Prefix nic)) inUse);
                inUseENIsWithV6Prefix = int (length (filter (\<lambda>nic. countOccupiedPrefixes (Nic_IPv6Prefix nic) > 0) inUse));
                existingV4Capacity = sum_list (map (\<lambda>nic. max 0 (Cap_IPv4PerAdapter cap -
                    (int (length (ips (Nic_IPv4 nic))) + int (length (Nic_IPv4Prefix nic))))) inUse);
                pendingV4Prefixes = sum_list (map (\<lambda>nic. fst (pending_prefixes taskQueue nic)) attaching);
                pendingV6Prefixes = sum_list (map (\<lambda>nic. snd (pending_prefixes taskQueue nic)) attaching);
                attachingENIsWithV6Prefix = int (length (filter (\<lambda>nic. snd (pending_prefixes taskQueue nic) > 0) attaching));
                remainingV4Demand = max 0 (ES_IPv4PrefixCount spec - existingV4Prefixes - pendingV4Prefixes);
                totalDesiredV6Prefixes = (if \<not> isDualStack then ES_IPv6PrefixCount spec else 0);
                remainingV6Demand = max 0 (totalDesiredV6Prefixes - existingV6Prefixes - pendingV6Prefixes);
                opts = map (\<lambda>opt. if EO_eniRef opt = None \<and> EO_eniTypeKey opt = trunkKey \<and> ES_EnableIPv4 spec
                                  then opt\<lparr>EO_addIPv4N := 1\<rparr> else opt) opts;
                v4CanUseExisting = (remainingV4Demand \<le> existingV4Capacity \<or> \<not> ES_EnableIPv4 spec);
                enisSlotsForV6 = existingENICount - inUseENIsWithV6Prefix - attachingENIsWithV6Prefix;
                v6CanUseExisting = (if \<not> isDualStack \<and> ES_EnableIPv6 spec then remainingV6Demand \<le> enisSlotsForV6 else True)
            in if v4CanUseExisting \<and> v6CanUseExisting then opts
               else
                 (let v4DemandForNewENIs = max 0 (remainingV4Demand - existingV4Capacity);
                      v6DemandForNewENIs = (if \<not> isDualStack \<and> ES_EnableIPv6 spec
                                            then max 0 (remainingV6Demand - enisSlotsForV6) else 0)
                  in plan_prefixes prefixCapForNewENI isDualStack spec v4DemandForNewENIs v6DemandForNewENIs opts)))"

definition revertExpiredFrozenPrefix :: "time \<Rightarrow> IPPrefix \<Rightarrow> IPPrefix \<times> bool" where
  "revertExpiredFrozenPrefix now prefix =
     (if PX_Status prefix \<noteq> IPPrefixStatusFrozen then (prefix, False)
      else if PX_FrozenExpireAt prefix = 0 then (prefix, False)
      else if now < PX_FrozenExpireAt prefix then (prefix, False)
      else (prefix\<lparr>PX_Status := IPPrefixStatusValid, PX_FrozenExpireAt := 0\<rparr>, True))"

definition processFrozenExpireAt :: "time \<Rightarrow> Nics \<Rightarrow> Nics \<times> bool" where
  "processFrozenExpireAt now nics =
     (gm_map (\<lambda>eni. eni\<lparr>Nic_IPv4Prefix := map (fst \<circ> revertExpiredFrozenPrefix now) (Nic_IPv4Prefix eni),
                       Nic_IPv6Prefix := map (fst \<circ> revertExpiredFrozenPrefix now) (Nic_IPv6Prefix eni)\<rparr>) nics,
      list_ex (\<lambda>eni. list_ex (snd \<circ> revertExpiredFrozenPrefix now) (Nic_IPv4Prefix eni) \<or>
                     list_ex (snd \<circ> revertExpiredFrozenPrefix now) (Nic_IPv6Prefix eni)) (vals nics))"

subsection \<open>Giving up addresses\<close>

definition pool_total :: "ENISpec \<Rightarrow> Nics \<Rightarrow> int" where
  "pool_total spec nics = sum_list (map (\<lambda>(k, eni). pool_idles spec eni) nics)"

text \<open>
  A nil \<^verbatim>\<open>After\<close> or \<^verbatim>\<open>Interval\<close> is dereferenced where it is read. The jitter of an interval depends on
  the factor in the policy.
\<close>

definition calculateToDel ::
  "(duration \<Rightarrow> string \<Rightarrow> duration) \<Rightarrow> time \<Rightarrow> ENISpec \<Rightarrow> PoolSpec \<Rightarrow> Nics \<Rightarrow> NodeStatus \<Rightarrow> (int \<times> NodeStatus) go" where
  "calculateToDel jitter now spec pool nics status =
     (let keepN = PS_MaxPoolSize pool;
          idles = pool_total spec nics;
          toDel = idles - keepN
      in case PS_Reclaim pool of
           None \<Rightarrow> Ret (toDel, status)
         | Some reclaim \<Rightarrow>
             if RP_BatchSize reclaim \<le> 0 then Ret (toDel, status)
             else
               (case RP_After reclaim of
                  None \<Rightarrow> Panic
                | Some after \<Rightarrow>
                    if now < St_LastModifiedTime status + after then Ret (toDel, status\<lparr>St_NextIdleIPReclaimTime := 0\<rparr>)
                    else if St_NextIdleIPReclaimTime status = 0 then
                      (case RP_Interval reclaim of
                         None \<Rightarrow> Panic
                       | Some interval \<Rightarrow>
                           Ret (toDel, status\<lparr>St_NextIdleIPReclaimTime := now + jitter interval (RP_JitterFactor reclaim)\<rparr>))
                    else if now < St_NextIdleIPReclaimTime status then Ret (toDel, status)
                    else
                      (case RP_Interval reclaim of
                         None \<Rightarrow> Panic
                       | Some interval \<Rightarrow>
                           (let toDel = max 0 toDel;
                                extraDel = min (RP_BatchSize reclaim) (max 0 (idles - toDel - PS_MinPoolSize pool))
                            in Ret (toDel + extraDel,
                                    status\<lparr>St_NextIdleIPReclaimTime := now + jitter interval (RP_JitterFactor reclaim)\<rparr>)))))"

fun shrink ::
  "(string \<Rightarrow> string list \<Rightarrow> string list) \<Rightarrow> (string \<Rightarrow> string list \<Rightarrow> string list) \<Rightarrow> ENISpec \<Rightarrow>
   (string \<times> Nic) list \<Rightarrow> int \<Rightarrow> Nics \<Rightarrow> Nics" where
  "shrink ord4 ord6 spec [] toDel nics = nics"
| "shrink ord4 ord6 spec ((k, nic) # rest) toDel nics =
     (let (nic', released) = releaseUnUsedIP (ord4 k) (ord6 k) nic toDel spec;
          nics = gm_adjust k (\<lambda>_. nic') nics;
          toDel = toDel - released
      in if toDel \<le> 0 then nics else shrink ord4 ord6 spec rest toDel nics)"

abbreviation DegradationL0 :: string where
  "DegradationL0 \<equiv> ''l0''"

abbreviation DegradationL1 :: string where
  "DegradationL1 \<equiv> ''l1''"

definition adjustPool ::
  "(string list \<Rightarrow> string list) \<Rightarrow> (string \<Rightarrow> string list \<Rightarrow> string list) \<Rightarrow> (string \<Rightarrow> string list \<Rightarrow> string list) \<Rightarrow>
   (string \<Rightarrow> duration option) \<Rightarrow> (duration \<Rightarrow> string \<Rightarrow> duration) \<Rightarrow> duration \<Rightarrow> time \<Rightarrow> string \<Rightarrow> ENISpec \<Rightarrow> PoolSpec \<Rightarrow>
   time \<Rightarrow> NodeStatus \<Rightarrow> (NodeStatus \<times> time) go" where
  "adjustPool ord ord4 ord6 parseDuration jitter gcPeriod now deg spec pool lastGC status =
     (if now < lastGC + poolSyncPeriod parseDuration gcPeriod (PS_PoolSyncPeriod pool) then Ret (status, lastGC)
      else if deg = DegradationL0 \<or> deg = DegradationL1 then Ret (status, lastGC)
      else
        (case calculateToDel jitter now spec pool (St_NetworkInterfaces status) status of
           Panic \<Rightarrow> Panic
         | Ret (toDel, status) \<Rightarrow>
             if toDel > 0 then
               (let sorted = sortNetworkInterface ord spec (St_NetworkInterfaces status)
                in Ret (status\<lparr>St_NetworkInterfaces := shrink ord4 ord6 spec (rev sorted) toDel (St_NetworkInterfaces status)\<rparr>, now))
             else Ret (status, now)))"

subsection \<open>Conditions\<close>

text \<open>The text of an aggregate of errors is an argument.\<close>

definition cr_conditions :: "(node_err list \<Rightarrow> string) \<Rightarrow> time \<Rightarrow> node_err list \<Rightarrow> Nic \<Rightarrow> Nic" where
  "cr_conditions aggregate now errs nic =
     (if errs = [] then nic\<lparr>Nic_Conditions := []\<rparr>
      else
        (let ipNotEnoughErr = filter isIPNotEnough errs;
             otherErr = filter (\<lambda>e. \<not> isIPNotEnough e) errs;
             conds = Nic_Conditions nic;
             notEnough = \<lparr>Cond_ObservedTime = now, Cond_Message = Nic_VSwitchID nic @ '' ip is not enough''\<rparr>;
             conds = (if ipNotEnoughErr \<noteq> [] then
                        (case map_of conds ''InsufficientIP'' of
                           None \<Rightarrow> AList.update ''InsufficientIP'' notEnough conds
                         | Some prev \<Rightarrow>
                             if Cond_ObservedTime prev + 5 * minute < now
                             then AList.update ''InsufficientIP'' notEnough conds else conds)
                      else conds);
             conds = (if otherErr \<noteq> [] then
                        AList.update ''OperationErr'' \<lparr>Cond_ObservedTime = now, Cond_Message = take 256 (aggregate otherErr)\<rparr> conds
                      else conds)
         in nic\<lparr>Nic_Conditions := conds\<rparr>))"

definition updateCrCondition :: "(node_err list \<Rightarrow> string) \<Rightarrow> time \<Rightarrow> eniOptions list \<Rightarrow> Nics \<Rightarrow> Nics" where
  "updateCrCondition aggregate now opts nics =
     foldl (\<lambda>nics item. case EO_eniRef item of None \<Rightarrow> nics | Some k \<Rightarrow> gm_adjust k (cr_conditions aggregate now (EO_errors item)) nics)
       nics opts"

text \<open>Whether the node reports that it has addresses: the first option that is not skipped decides.\<close>

fun has_ip :: "ENISpec \<Rightarrow> Nics \<Rightarrow> eniOptions list \<Rightarrow> bool \<times> bool \<Rightarrow> bool \<times> bool" where
  "has_ip spec nics [] acc = acc"
| "has_ip spec nics (item # items) (hasIPLeft, hasAllocatableEND) =
     (if hasIPLeft \<or> hasAllocatableEND then has_ip spec nics items (hasIPLeft, hasAllocatableEND)
      else
        (let nic = (case EO_eniRef item of None \<Rightarrow> None | Some k \<Rightarrow> map_of nics k)
         in if case nic of None \<Rightarrow> False | Some n \<Rightarrow> Nic_Unschedulable n then has_ip spec nics items (hasIPLeft, hasAllocatableEND)
            else
              (let hasIPLeft = (case nic of None \<Rightarrow> hasIPLeft | Some n \<Rightarrow>
                     getAllocatable (if \<not> ES_EnableIPv4 spec \<and> ES_EnableIPv6 spec then ips (Nic_IPv6 n) else ips (Nic_IPv4 n)) \<noteq> [])
               in if EO_isFull item then has_ip spec nics items (hasIPLeft, hasAllocatableEND)
                  else if list_ex isIPNotEnough (EO_errors item) then has_ip spec nics items (hasIPLeft, hasAllocatableEND)
                  else has_ip spec nics items (hasIPLeft, True))))"

record NodeCondition =
  NC_Type :: string
  NC_Status :: bool
  NC_Reason :: string
  NC_Message :: string
  NC_LastHeartbeatTime :: time
  NC_LastTransitionTime :: time

fun refresh_condition :: "time \<Rightarrow> bool \<Rightarrow> string \<Rightarrow> string \<Rightarrow> NodeCondition list \<Rightarrow> time \<Rightarrow> time option" where
  "refresh_condition now status reason message [] transitionTime = Some transitionTime"
| "refresh_condition now status reason message (cond # conds) transitionTime =
     (if NC_Type cond = ''SufficientIP'' \<and> NC_Status cond = status \<and> NC_Reason cond = reason \<and> NC_Message cond = message then
        (if now < NC_LastHeartbeatTime cond + 5 * minute then None
         else refresh_condition now status reason message conds (NC_LastTransitionTime cond))
      else refresh_condition now status reason message conds transitionTime)"

text \<open>The condition to patch into the Kubernetes node with the given conditions, if any.\<close>

definition updateNodeCondition ::
  "time \<Rightarrow> NodeCondition list option \<Rightarrow> ENISpec \<Rightarrow> Nics \<Rightarrow> eniOptions list \<Rightarrow> NodeCondition option" where
  "updateNodeCondition now k8sNode spec nics opts =
     (case k8sNode of
        None \<Rightarrow> None
      | Some conds \<Rightarrow>
          (let (hasIPLeft, hasAllocatableEND) = has_ip spec nics opts (False, False);
               status = (hasIPLeft \<or> hasAllocatableEND);
               reason = (if status then ''SufficientIP'' else ''InsufficientIP'');
               message = (if status then ''node has sufficient IP'' else ''node has insufficient IP'')
           in case refresh_condition now status reason message conds now of
                None \<Rightarrow> None
              | Some transitionTime \<Rightarrow>
                  Some \<lparr>NC_Type = ''SufficientIP'', NC_Status = status, NC_Reason = reason, NC_Message = message,
                        NC_LastHeartbeatTime = now, NC_LastTransitionTime = transitionTime\<rparr>))"

end
