(* ===== verification/NodePlan.thy ===== *)
theory NodePlan
  imports NodeDemand
begin

section \<open>The plan of the pool: correctness\<close>

text \<open>
  The loop that spreads the demand over the interfaces equals a closed form, and never asks for more
  than the quota of an interface; the interfaces on offer stay within the flavor; and shrinking the
  pool leaves the addresses it has to keep.
\<close>

subsection \<open>The addresses each interface gets, in closed form\<close>

text \<open>
  What an option can take of the demand of a family: nothing (it did not pass the filter), what was
  requested when it was created (it is being attached), the room on an existing interface, or the room
  on a new one, which a trunk takes one of in any case.
\<close>

datatype slot = Closed | Promised int | Room int | Fresh bool int

definition Cap_PerAdapter :: "ipfam \<Rightarrow> NodeCap \<Rightarrow> int" where
  "Cap_PerAdapter f cap = (case f of V4 \<Rightarrow> Cap_IPv4PerAdapter cap | V6 \<Rightarrow> Cap_IPv6PerAdapter cap)"

definition nic_slots_used :: "ipfam \<Rightarrow> Nic \<Rightarrow> int" where
  "nic_slots_used f nic = int (length (nic_ips f nic)) +
     int (length (case f of V4 \<Rightarrow> Nic_IPv4Prefix nic | V6 \<Rightarrow> Nic_IPv6Prefix nic))"

definition EO_add :: "ipfam \<Rightarrow> eniOptions \<Rightarrow> int" where
  "EO_add f opt = (case f of V4 \<Rightarrow> EO_addIPv4N opt | V6 \<Rightarrow> EO_addIPv6N opt)"

definition TR_Requested :: "ipfam \<Rightarrow> ENITaskRecord \<Rightarrow> int" where
  "TR_Requested f t = (case f of V4 \<Rightarrow> TR_RequestedIPv4Count t | V6 \<Rightarrow> TR_RequestedIPv6Count t)"

definition ES_Enable :: "ipfam \<Rightarrow> ENISpec \<Rightarrow> bool" where
  "ES_Enable f spec = (case f of V4 \<Rightarrow> ES_EnableIPv4 spec | V6 \<Rightarrow> ES_EnableIPv6 spec)"

definition slot_of :: "ipfam \<Rightarrow> int \<Rightarrow> NodeCap \<Rightarrow> ENISpec \<Rightarrow> Nics \<Rightarrow> ENITaskQueue \<Rightarrow> bool \<times> eniOptions \<Rightarrow> slot" where
  "slot_of f batch cap spec nics q v =
     (if \<not> fst v then Closed
      else
        (case EO_eniRef (snd v) of
           None \<Rightarrow> Fresh (EO_eniTypeKey (snd v) = trunkKey \<and> (f = V6 \<longrightarrow> ES_EnableIPv6 spec)) (min (Cap_PerAdapter f cap) batch)
         | Some k \<Rightarrow>
             (case map_of nics k of
                None \<Rightarrow> Closed
              | Some nic \<Rightarrow>
                  if Nic_Status nic = ENIStatusAttaching then
                    (case GetTaskStatus (Nic_ID nic) q of None \<Rightarrow> Promised 0 | Some t \<Rightarrow> Promised (TR_Requested f t))
                  else Room (max 0 (min (Cap_PerAdapter f cap - nic_slots_used f nic) batch)))))"

fun takes :: "slot \<Rightarrow> int" where
  "takes Closed = 0"
| "takes (Promised n) = n"
| "takes (Room r) = r"
| "takes (Fresh t r) = r"

fun grant :: "slot \<Rightarrow> int \<Rightarrow> int" where
  "grant Closed d = 0"
| "grant (Promised n) d = 0"
| "grant (Room r) d = min r (max 0 d)"
| "grant (Fresh t r) d = min r (max (if t then 1 else 0) d)"

text \<open>The demand is poured over the slots in their order: each sees what those before it cannot take.\<close>

definition pour :: "slot list \<Rightarrow> int \<Rightarrow> int list" where
  "pour ss d = map (\<lambda>i. grant (ss ! i) (d - sum_list (map takes (take i ss)))) [0..<length ss]"

lemma pour_Nil [simp]: "pour [] d = []"
  by (simp add: pour_def)

lemma pour_Cons [simp]: "pour (s # ss) d = grant s d # pour ss (d - takes s)"
proof -
  have "[0..<length (s # ss)] = 0 # map Suc [0..<length ss]"
    by (metis length_Cons map_Suc_upt upt_conv_Cons zero_less_Suc)
  then show ?thesis by (simp add: pour_def algebra_simps)
qed

lemma grant_max [simp]: "grant s (max 0 d) = grant s d"
  by (cases s) (auto simp: max_def)

definition slot_ok :: "slot \<Rightarrow> bool" where
  "slot_ok s \<longleftrightarrow> (case s of Closed \<Rightarrow> True | Promised n \<Rightarrow> 0 \<le> n | Room r \<Rightarrow> 0 \<le> r | Fresh t r \<Rightarrow> (if t then 1 else 0) \<le> r)"

lemma takes_nonneg: "slot_ok s \<Longrightarrow> 0 \<le> takes s"
  by (cases s) (auto simp: slot_ok_def split: if_splits)

lemma max_diff: "0 \<le> t \<Longrightarrow> max 0 (d - t) = max 0 (max 0 d - t)" for d t :: int
  by (simp add: max_def)

lemma pour_cong:
  assumes "max 0 d = max 0 d'" and "list_all slot_ok ss"
  shows "pour ss d = pour ss d'"
  using assms
proof (induction ss arbitrary: d d')
  case (Cons s ss)
  have "grant s d = grant s d'" using Cons.prems(1) grant_max by metis
  moreover have "0 \<le> takes s" using Cons.prems(2) by (simp add: takes_nonneg)
  then have "max 0 (d - takes s) = max 0 (d' - takes s)"
    using Cons.prems(1) max_diff [of "takes s" d] max_diff [of "takes s" d'] by argo
  then have "pour ss (d - takes s) = pour ss (d' - takes s)" using Cons.prems(2) by (intro Cons.IH) simp_all
  ultimately show ?case by simp
qed simp

definition unplanned :: "eniOptions \<Rightarrow> bool" where
  "unplanned opt \<longleftrightarrow> EO_addIPv4N opt = 0 \<and> EO_addIPv6N opt = 0"

text \<open>The step for one family: the addresses asked for and what is left of the demand.\<close>

fun slot_step :: "slot \<Rightarrow> int \<Rightarrow> int \<times> int" where
  "slot_step Closed d = (0, d)"
| "slot_step (Promised n) d = (0, discount n d)"
| "slot_step (Room r) d = (if 0 < d \<and> 0 < r then (min r d, d - min r d) else (0, d))"
| "slot_step (Fresh t r) d =
     (let d = (if t \<and> d \<le> 0 then 1 else d) in if 0 < d then (min r d, d - min r d) else (0, d))"

lemma slot_step_grant:
  assumes "(n, d') = slot_step s d" and "slot_ok s"
  shows "n = grant s d" and "max 0 d' = max 0 (d - takes s)"
proof -
  have "fst (slot_step s d) = grant s d \<and> max 0 (snd (slot_step s d)) = max 0 (d - takes s)"
  proof (cases s)
    case (Fresh t r)
    then have "(if t then 1 else 0) \<le> r" using assms(2) by (simp add: slot_ok_def)
    then show ?thesis unfolding Fresh by (cases t) (simp_all add: min_def max_def)
  qed (use assms(2) in \<open>auto simp: slot_ok_def discount_def min_def max_def\<close>)
  then show "n = grant s d" and "max 0 d' = max 0 (d - takes s)" unfolding assms(1) [symmetric] by simp_all
qed

lemma unplanned_id:
  assumes "unplanned opt"
  shows "opt\<lparr>EO_addIPv4N := 0\<rparr> = opt" and "opt\<lparr>EO_addIPv6N := 0\<rparr> = opt"
    and "opt\<lparr>EO_addIPv4N := n, EO_addIPv6N := 0\<rparr> = opt\<lparr>EO_addIPv4N := n\<rparr>"
  using assms by (cases opt; simp add: unplanned_def)+

lemmas slot_defs = slot_of_def unplanned_def EO_add_def Cap_PerAdapter_def nic_slots_used_def nic_ips_def TR_Requested_def

lemma plan_new:
  assumes "EO_eniRef opt = None" and "unplanned opt"
  shows "plan_option batch cap spec nics q opt t4 t6 =
    (let (n4, t4) = slot_step (slot_of V4 batch cap spec nics q (True, opt)) t4;
         (n6, t6) = slot_step (slot_of V6 batch cap spec nics q (True, opt)) t6
     in (opt\<lparr>EO_addIPv4N := n4, EO_addIPv6N := n6\<rparr>, t4, t6))"
proof -
  have ac: "min (min c t) batch = min (min c batch) t" for c t :: int by (simp add: min_def)
  show ?thesis using assms unplanned_id [OF assms(2)]
    by (simp add: plan_option_def slot_of_def Cap_PerAdapter_def Let_def ac)
qed

lemma plan_attaching:
  assumes "EO_eniRef opt = Some k" and "map_of nics k = Some nic" and "Nic_Status nic = ENIStatusAttaching"
    and "unplanned opt"
  shows "plan_option batch cap spec nics q opt t4 t6 =
    (opt, snd (slot_step (slot_of V4 batch cap spec nics q (True, opt)) t4),
          snd (slot_step (slot_of V6 batch cap spec nics q (True, opt)) t6))"
  using assms unplanned_id [OF assms(4)]
  by (cases "GetTaskStatus (Nic_ID nic) q") (simp_all add: plan_option_def slot_of_def TR_Requested_def discount_def Let_def)

lemma plan_left_step:
  assumes "plan_left batch q4 q6 opt t4 t6 = (opt', t4', t6')" and "unplanned opt" and "0 < batch"
  shows "(EO_addIPv4N opt', t4') = slot_step (Room (max 0 (min q4 batch))) t4 \<and>
    (EO_addIPv6N opt', t6') = slot_step (Room (max 0 (min q6 batch))) t6"
proof -
  have un: "EO_addIPv4N opt = 0" "EO_addIPv6N opt = 0" using assms(2) by (simp_all add: unplanned_def)
  have step: "slot_step (Room (max 0 (min c batch))) t = (if 0 < t \<and> 0 < c then (min (min c t) batch, t - min (min c t) batch) else (0, t))" for c t
    using assms(3) by (simp add: min_def)
  have "case plan_left batch q4 q6 opt t4 t6 of (opt', t4', t6') \<Rightarrow>
    (EO_addIPv4N opt', t4') = slot_step (Room (max 0 (min q4 batch))) t4 \<and>
    (EO_addIPv6N opt', t6') = slot_step (Room (max 0 (min q6 batch))) t6"
    unfolding step plan_left_def
    by (cases "0 < t4"; cases "0 < q4"; cases "0 < t6"; cases "0 < q6") (simp_all add: Let_def un)
  then show ?thesis unfolding assms(1) by simp
qed

lemma plan_option_step:
  assumes "plan_option batch cap spec nics q opt t4 t6 = (opt', t4', t6')" and "unplanned opt" and "0 < batch"
  shows "(EO_addIPv4N opt', t4') = slot_step (slot_of V4 batch cap spec nics q (True, opt)) t4 \<and>
    (EO_addIPv6N opt', t6') = slot_step (slot_of V6 batch cap spec nics q (True, opt)) t6"
proof (cases "EO_eniRef opt")
  case None
  from assms(1) show ?thesis unfolding plan_new [OF None assms(2)] by (auto simp: Let_def split: prod.splits)
next
  case (Some k)
  show ?thesis
  proof (cases "map_of nics k")
    case None
    then show ?thesis using assms Some by (simp add: plan_option_def slot_of_def unplanned_def)
  next
    case nic: (Some nic)
    show ?thesis
    proof (cases "Nic_Status nic = ENIStatusAttaching")
      case True
      from assms(1) have "opt' = opt" "t4' = snd (slot_step (slot_of V4 batch cap spec nics q (True, opt)) t4)"
        "t6' = snd (slot_step (slot_of V6 batch cap spec nics q (True, opt)) t6)"
        unfolding plan_attaching [OF Some nic True assms(2)] by auto
      moreover have "fst (slot_step (slot_of f batch cap spec nics q (True, opt)) t) = 0" for f t
        using Some nic True by (simp add: slot_of_def split: option.split)
      ultimately show ?thesis using assms(2) by (simp add: unplanned_def prod_eq_iff)
    next
      case False
      from assms(1) have call: "plan_left batch
          (Cap_IPv4PerAdapter cap - int (length (ips (Nic_IPv4 nic))) - int (length (Nic_IPv4Prefix nic)))
          (Cap_IPv6PerAdapter cap - int (length (ips (Nic_IPv6 nic))) - int (length (Nic_IPv6Prefix nic))) opt t4 t6 = (opt', t4', t6')"
        using Some nic False unfolding plan_option_def by simp
      show ?thesis using plan_left_step [OF call assms(2,3)] Some nic False
        by (simp add: slot_of_def Cap_PerAdapter_def nic_slots_used_def nic_ips_def diff_diff_eq)
    qed
  qed
qed

subsection \<open>The loop over the options\<close>

text \<open>The options with the verdicts of the filter, which sees and changes the cache of vSwitches in the order of the options.\<close>

fun verdicts :: "(eniOptions \<Rightarrow> 'c \<Rightarrow> bool \<times> eniOptions \<times> 'c) \<Rightarrow> eniOptions list \<Rightarrow> 'c \<Rightarrow> (bool \<times> eniOptions) list" where
  "verdicts filt [] c = []"
| "verdicts filt (opt # opts) c = (case filt opt c of (ok, opt, c) \<Rightarrow> (ok, opt) # verdicts filt opts c)"

definition filter_keeps :: "(eniOptions \<Rightarrow> 'c \<Rightarrow> bool \<times> eniOptions \<times> 'c) \<Rightarrow> bool" where
  "filter_keeps filt \<longleftrightarrow> (\<forall>opt c ok opt' c'. filt opt c = (ok, opt', c') \<longrightarrow> unplanned opt \<longrightarrow> unplanned opt')"

lemma validateENI_same:
  "validateENI lru client tys v4 nics opt c = (ok, opt', c') \<Longrightarrow> opt' = opt\<lparr>EO_errors := EO_errors opt'\<rparr>"
  by (auto simp: validateENI_def split: if_splits option.splits prod.splits)

lemma validateENI_keeps: "filter_keeps (validateENI lru client tys v4 nics)"
  unfolding filter_keeps_def unplanned_def by (metis validateENI_same eniOptions.select_convs(3,4) eniOptions.surjective eniOptions.update_convs(8))

lemma plan_options_pour:
  assumes "filter_keeps filt" and "0 < batch" and "list_all unplanned opts"
    and "plan_options filt (plan_option batch cap spec nics q) t4 t6 opts c = (opts', c')"
    and "\<And>f. list_all slot_ok (map (slot_of f batch cap spec nics q) (verdicts filt opts c))"
  shows "map EO_addIPv4N opts' = pour (map (slot_of V4 batch cap spec nics q) (verdicts filt opts c)) t4 \<and>
    map EO_addIPv6N opts' = pour (map (slot_of V6 batch cap spec nics q) (verdicts filt opts c)) t6"
  using assms(3-5)
proof (induction opts arbitrary: t4 t6 c opts' c')
  case (Cons opt opts)
  obtain ok opt1 c1 where f: "filt opt c = (ok, opt1, c1)" by (cases "filt opt c")
  have un: "unplanned opt1" using assms(1) f Cons.prems(1) unfolding filter_keeps_def list.pred_inject(2) by blast
  have oks: "slot_ok (slot_of f batch cap spec nics q (ok, opt1))" "list_all slot_ok (map (slot_of f batch cap spec nics q) (verdicts filt opts c1))" for f
    using Cons.prems(3) [of f] f by simp_all
  show ?case
  proof (cases ok)
    case False
    obtain os c2 where rest: "plan_options filt (plan_option batch cap spec nics q) t4 t6 opts c1 = (os, c2)"
      by (cases "plan_options filt (plan_option batch cap spec nics q) t4 t6 opts c1")
    have "opts' = opt1 # os" using Cons.prems(2) f False rest by simp
    moreover have "slot_of f batch cap spec nics q (ok, opt1) = Closed" for f using False by (simp add: slot_of_def)
    moreover note Cons.IH [OF _ rest oks(2)]
    ultimately show ?thesis using Cons.prems(1) f un by (simp add: unplanned_def)
  next
    case True
    obtain opt2 u4 u6 where p: "plan_option batch cap spec nics q opt1 t4 t6 = (opt2, u4, u6)"
      by (cases "plan_option batch cap spec nics q opt1 t4 t6")
    obtain os c2 where rest: "plan_options filt (plan_option batch cap spec nics q) u4 u6 opts c1 = (os, c2)"
      by (cases "plan_options filt (plan_option batch cap spec nics q) u4 u6 opts c1")
    have res: "opts' = opt2 # os" using Cons.prems(2) f True p rest by simp
    have ih: "map EO_addIPv4N os = pour (map (slot_of V4 batch cap spec nics q) (verdicts filt opts c1)) u4"
      "map EO_addIPv6N os = pour (map (slot_of V6 batch cap spec nics q) (verdicts filt opts c1)) u6"
      using Cons.IH [OF _ rest oks(2)] Cons.prems(1) by simp_all
    note step = plan_option_step [OF p un assms(2)]
    have ok: "slot_ok (slot_of f batch cap spec nics q (True, opt1))" for f using oks(1) [of f] True by simp
    note g4 = slot_step_grant [OF conjunct1 [OF step] ok] and g6 = slot_step_grant [OF conjunct2 [OF step] ok]
    show ?thesis using True f g4(1) g6(1)
      by (simp add: res ih pour_cong [OF g4(2) oks(2)] pour_cong [OF g6(2) oks(2)])
  qed
qed simp

lemma slots_ok:
  assumes "0 < batch" and "1 \<le> Cap_IPv4PerAdapter cap" and "(if ES_EnableIPv6 spec then 1 else 0) \<le> Cap_IPv6PerAdapter cap"
    and "\<And>e t. GetTaskStatus e q = Some t \<Longrightarrow> 0 \<le> TR_Requested f t"
  shows "slot_ok (slot_of f batch cap spec nics q v)"
  using assms by (cases f) (auto simp: slot_of_def slot_ok_def Cap_PerAdapter_def split: option.splits if_splits)

lemma batchSize_pos: "0 < batchSize b"
  by (simp add: batchSize_def)

lemma assign_pour:
  assumes "filter_keeps filt" and "list_all unplanned opts"
    and "1 \<le> Cap_IPv4PerAdapter cap" and "(if ES_EnableIPv6 spec then 1 else 0) \<le> Cap_IPv6PerAdapter cap"
    and "\<And>f e t. GetTaskStatus e q = Some t \<Longrightarrow> 0 \<le> TR_Requested f t"
    and "assignEniWithOptions b cap spec nics q filt toAdd opts c = (opts', c')"
  shows "map (EO_add f) opts' =
    pour (map (slot_of f (batchSize b) cap spec nics q) (verdicts filt opts c)) (if ES_Enable f spec then toAdd else 0)"
proof -
  have "list_all slot_ok (map (slot_of f (batchSize b) cap spec nics q) (verdicts filt opts c))" for f
    using slots_ok [OF batchSize_pos assms(3,4,5)] by (simp add: list_all_iff)
  from plan_options_pour [OF assms(1) batchSize_pos assms(2) assms(6) [unfolded assignEniWithOptions_def Let_def] this]
  show ?thesis by (cases f) (simp_all add: EO_add_def [abs_def] ES_Enable_def)
qed

text \<open>
  C31: the loop that spreads a demand over the interfaces equals its closed form: each interface is
  asked for what the interfaces before it, in the order of the options, cannot take, up to its own
  room; an interface that is being attached counts with the addresses it was created with and is asked
  for nothing; a new trunk is asked for at least one.
\<close>

theorem assign_spreads:
  assumes "list_all unplanned opts"
    and "1 \<le> Cap_IPv4PerAdapter cap" and "(if ES_EnableIPv6 spec then 1 else 0) \<le> Cap_IPv6PerAdapter cap"
    and "\<And>f e t. GetTaskStatus e q = Some t \<Longrightarrow> 0 \<le> TR_Requested f t"
    and "assignEniWithOptions b cap spec nics q (validateENI lru client tys (ES_EnableIPv4 spec) nics) toAdd opts c = (opts', c')"
  shows "map (EO_add f) opts' =
    pour (map (slot_of f (batchSize b) cap spec nics q) (verdicts (validateENI lru client tys (ES_EnableIPv4 spec) nics) opts c))
      (if ES_Enable f spec then toAdd else 0)"
  by (rule assign_pour [OF validateENI_keeps assms])

subsection \<open>Quotas\<close>

lemma verdicts_rel: "list_all2 (\<lambda>opt v. \<exists>c c'. filt opt c = (fst v, snd v, c')) opts (verdicts filt opts c)"
proof (induction opts arbitrary: c)
  case (Cons opt opts)
  obtain ok opt1 c1 where "filt opt c = (ok, opt1, c1)" by (cases "filt opt c")
  then show ?case using Cons.IH [of c1] by auto
qed simp

lemma plan_option_ref: "EO_eniRef (fst (plan_option batch cap spec nics q opt t4 t6)) = EO_eniRef opt"
  by (simp add: plan_option_def plan_left_def Let_def split: option.split prod.split)

lemma plan_options_refs:
  assumes "plan_options filt (plan_option batch cap spec nics q) t4 t6 opts c = (opts', c')"
  shows "map EO_eniRef opts' = map (EO_eniRef \<circ> snd) (verdicts filt opts c)"
  using assms
proof (induction opts arbitrary: t4 t6 c opts' c')
  case (Cons opt opts)
  obtain ok opt1 c1 where f: "filt opt c = (ok, opt1, c1)" by (cases "filt opt c")
  obtain opt2 u4 u6 where p: "plan_option batch cap spec nics q opt1 t4 t6 = (opt2, u4, u6)"
    by (cases "plan_option batch cap spec nics q opt1 t4 t6")
  have "EO_eniRef opt2 = EO_eniRef opt1" using plan_option_ref [of batch cap spec nics q opt1 t4 t6] p by simp
  then show ?case using Cons.prems Cons.IH f p by (auto split: bool.splits prod.splits)
qed simp

lemma grant_bounds:
  assumes "slot_ok s"
  shows "0 \<le> grant s d" and "0 < grant s d \<Longrightarrow> grant s d \<le> takes s"
    and "0 < grant s d \<Longrightarrow> (\<exists>r. s = Room r) \<or> (\<exists>t r. s = Fresh t r)"
  using assms by (cases s; auto simp: slot_ok_def split: if_splits)+

definition is_promise :: "slot \<Rightarrow> bool" where
  "is_promise s = (case s of Promised n \<Rightarrow> True | _ \<Rightarrow> False)"

definition is_trunk :: "slot \<Rightarrow> bool" where
  "is_trunk s = (case s of Fresh t r \<Rightarrow> t | _ \<Rightarrow> False)"

lemma pour_nonneg: "list_all slot_ok ss \<Longrightarrow> 0 \<le> sum_list (pour ss d)"
  by (induction ss arbitrary: d) (auto intro!: add_nonneg_nonneg grant_bounds(1))

lemma promises_nonneg: "list_all slot_ok ss \<Longrightarrow> 0 \<le> sum_list (map takes (filter is_promise ss))"
  by (intro sum_list_nonneg) (auto simp: list_all_iff intro: takes_nonneg)

lemma pour_total:
  assumes "list_all slot_ok ss"
  shows "sum_list (pour ss d) \<le> max 0 d + int (length (filter is_trunk ss)) \<and>
    min d (sum_list (map takes ss)) \<le> sum_list (pour ss d) + sum_list (map takes (filter is_promise ss))"
  using assms
proof (induction ss arbitrary: d)
  case (Cons s ss)
  have ih: "sum_list (pour ss (d - takes s)) \<le> max 0 (d - takes s) + int (length (filter is_trunk ss))"
    "min (d - takes s) (sum_list (map takes ss)) \<le> sum_list (pour ss (d - takes s)) + sum_list (map takes (filter is_promise ss))"
    using Cons by simp_all
  have ok: "slot_ok s" using Cons.prems by simp
  have t: "0 \<le> takes s" using ok by (rule takes_nonneg)
  have g1: "grant s d + max 0 (d - takes s) \<le> max 0 d + (if is_trunk s then 1 else 0)"
    using ok by (cases s) (auto simp: slot_ok_def is_trunk_def max_def min_def split: if_splits)
  have g2: "min d (takes s) \<le> grant s d + (if is_promise s then takes s else 0)"
    using ok by (cases s) (auto simp: slot_ok_def is_promise_def max_def min_def split: if_splits)
  have "min d (takes s + x) \<le> min d (takes s) + max 0 (min (d - takes s) x)" for x using t by (simp add: min_def max_def)
  from this [of "sum_list (map takes ss)"] have "min d (sum_list (map takes (s # ss))) \<le>
      grant s d + (if is_promise s then takes s else 0) + max 0 (min (d - takes s) (sum_list (map takes ss)))"
    using g2 by simp
  moreover have "0 \<le> sum_list (pour ss (d - takes s)) + sum_list (map takes (filter is_promise ss))"
    using pour_nonneg [of ss "d - takes s"] promises_nonneg [of ss] Cons.prems by simp
  ultimately have "min d (sum_list (map takes (s # ss))) \<le> sum_list (pour (s # ss) d) + sum_list (map takes (filter is_promise (s # ss)))"
    using ih(2) by (cases "is_promise s") simp_all
  moreover have "sum_list (pour (s # ss) d) \<le> max 0 d + int (length (filter is_trunk (s # ss)))"
    using ih(1) g1 by (cases "is_trunk s") simp_all
  ultimately show ?case by blast
qed simp

lemma validateENI_ok:
  assumes "validateENI lru client tys v4 nics opt c = (True, opt', c')" and "EO_eniRef opt' = Some k"
  shows "\<exists>nic. map_of nics k = Some nic \<and> \<not> Nic_Unschedulable nic \<and> Nic_Status nic \<in> {ENIStatusInUse, ENIStatusAttaching}"
proof -
  have "EO_eniRef opt = Some k" using validateENI_same [OF assms(1)] assms(2) by (metis eniOptions.select_convs(2) eniOptions.surjective eniOptions.update_convs(8))
  then show ?thesis using assms(1) by (auto simp: validateENI_def split: if_splits option.splits prod.splits)
qed

text \<open>
  C32: what is asked for stays within the quotas. Each interface is asked for at most a batch, and only
  a new one or an existing one that is in use and schedulable is asked at all, for no more than its
  addresses and prefixes leave free; the total is at most the demand, plus one for each new trunk, and
  nothing that fits is left out.
\<close>

theorem assign_within_quota:
  assumes "list_all unplanned opts"
    and "1 \<le> Cap_IPv4PerAdapter cap" and "(if ES_EnableIPv6 spec then 1 else 0) \<le> Cap_IPv6PerAdapter cap"
    and "\<And>f e t. GetTaskStatus e q = Some t \<Longrightarrow> 0 \<le> TR_Requested f t"
    and "assignEniWithOptions b cap spec nics q (validateENI lru client tys (ES_EnableIPv4 spec) nics) toAdd opts c = (opts', c')"
    and "ss = map (slot_of f (batchSize b) cap spec nics q) (verdicts (validateENI lru client tys (ES_EnableIPv4 spec) nics) opts c)"
    and "d = (if ES_Enable f spec then toAdd else 0)"
  shows "(\<forall>opt \<in> set opts'. 0 \<le> EO_add f opt \<and> EO_add f opt \<le> batchSize b \<and>
      (0 < EO_add f opt \<longrightarrow>
        (case EO_eniRef opt of
           None \<Rightarrow> EO_add f opt \<le> Cap_PerAdapter f cap
         | Some k \<Rightarrow> \<exists>nic. map_of nics k = Some nic \<and> Nic_Status nic = ENIStatusInUse \<and> \<not> Nic_Unschedulable nic \<and>
             nic_slots_used f nic + EO_add f opt \<le> Cap_PerAdapter f cap))) \<and>
    sum_list (map (EO_add f) opts') \<le> max 0 d + int (length (filter is_trunk ss)) \<and>
    min d (sum_list (map takes ss)) \<le> sum_list (map (EO_add f) opts') + sum_list (map takes (filter is_promise ss))"
proof (intro conjI ballI impI)
  let ?filt = "validateENI lru client tys (ES_EnableIPv4 spec) nics"
  let ?vs = "verdicts ?filt opts c"
  have pour: "map (EO_add f) opts' = pour ss d" unfolding assms(6,7) by (rule assign_pour [OF validateENI_keeps assms(1-5)])
  have oks: "list_all slot_ok ss" unfolding assms(6) using slots_ok [OF batchSize_pos assms(2,3,4)] by (simp add: list_all_iff)
  show "sum_list (map (EO_add f) opts') \<le> max 0 d + int (length (filter is_trunk ss))"
    "min d (sum_list (map takes ss)) \<le> sum_list (map (EO_add f) opts') + sum_list (map takes (filter is_promise ss))"
    using pour_total [OF oks] unfolding pour by blast+
  have refs: "map EO_eniRef opts' = map (EO_eniRef \<circ> snd) ?vs"
    by (rule plan_options_refs) (rule assms(5) [unfolded assignEniWithOptions_def Let_def])
  fix opt assume "opt \<in> set opts'"
  then obtain i where i: "i < length opts'" "opt = opts' ! i" by (metis in_set_conv_nth)
  have len: "length opts' = length ?vs" using arg_cong [OF refs, of length] by simp
  then have iv: "i < length ?vs" "i < length ss" using i by (simp_all add: assms(6))
  have g: "EO_add f opt = grant (ss ! i) (d - sum_list (map takes (take i ss)))"
    using arg_cong [OF pour, of "\<lambda>l. l ! i"] i iv by (simp add: pour_def)
  have ok: "slot_ok (ss ! i)" using oks iv by (simp add: list_all_length)
  have s: "ss ! i = slot_of f (batchSize b) cap spec nics q (?vs ! i)" using iv by (simp add: assms(6))
  have ref: "EO_eniRef opt = EO_eniRef (snd (?vs ! i))" using arg_cong [OF refs, of "\<lambda>l. l ! i"] i iv by simp
  show "0 \<le> EO_add f opt" unfolding g by (rule grant_bounds(1) [OF ok])
  have room: "EO_add f opt \<le> takes (ss ! i) \<and> ((\<exists>r. ss ! i = Room r) \<or> (\<exists>t r. ss ! i = Fresh t r))" if "0 < EO_add f opt"
    using grant_bounds(2,3) [OF ok] that unfolding g by blast
  have "takes (ss ! i) \<le> batchSize b" if "(\<exists>r. ss ! i = Room r) \<or> (\<exists>t r. ss ! i = Fresh t r)"
    using that batchSize_pos [of b] unfolding s by (auto simp: slot_of_def split: if_splits option.splits)
  then show "EO_add f opt \<le> batchSize b" using room batchSize_pos [of b] by fastforce
  assume pos: "0 < EO_add f opt"
  then have takes: "EO_add f opt \<le> takes (ss ! i)" and open_slot: "(\<exists>r. ss ! i = Room r) \<or> (\<exists>t r. ss ! i = Fresh t r)"
    using room by blast+
  obtain c1 c2 where v: "?filt (opts ! i) c1 = (fst (?vs ! i), snd (?vs ! i), c2)"
    using list_all2_nthD2 [OF verdicts_rel iv(1)] by blast
  have passed: "fst (?vs ! i)" using open_slot unfolding s by (auto simp: slot_of_def split: if_splits)
  show "case EO_eniRef opt of
           None \<Rightarrow> EO_add f opt \<le> Cap_PerAdapter f cap
         | Some k \<Rightarrow> \<exists>nic. map_of nics k = Some nic \<and> Nic_Status nic = ENIStatusInUse \<and> \<not> Nic_Unschedulable nic \<and>
             nic_slots_used f nic + EO_add f opt \<le> Cap_PerAdapter f cap"
  proof (cases "EO_eniRef opt")
    case None
    then have "takes (ss ! i) \<le> Cap_PerAdapter f cap" using passed ref unfolding s by (simp add: slot_of_def)
    then show ?thesis using takes None by simp
  next
    case (Some k)
    have rk: "EO_eniRef (snd (?vs ! i)) = Some k" using Some ref by simp
    have "?filt (opts ! i) c1 = (True, snd (?vs ! i), c2)" using v passed by simp
    from validateENI_ok [OF this rk] obtain nic where nic: "map_of nics k = Some nic" "\<not> Nic_Unschedulable nic"
      "Nic_Status nic \<in> {ENIStatusInUse, ENIStatusAttaching}" by auto
    have "Nic_Status nic \<noteq> ENIStatusAttaching"
      using open_slot passed rk nic(1) unfolding s by (auto simp: slot_of_def split: option.splits)
    moreover from this have "takes (ss ! i) = max 0 (min (Cap_PerAdapter f cap - nic_slots_used f nic) (batchSize b))"
      using passed rk nic(1) unfolding s by (simp add: slot_of_def)
    ultimately show ?thesis using takes pos Some nic by (simp add: max_def min_def split: if_splits)
  qed
qed

subsection \<open>Shrinking the pool\<close>

text \<open>
  What giving up addresses may do to an interface: nothing, or, unless it is unschedulable, mark an
  interface of the plain kind that no pod uses for deletion, or mark addresses of no pod.
\<close>

definition nic_shrunk :: "Nic \<Rightarrow> Nic \<Rightarrow> bool" where
  "nic_shrunk nic nic' \<longleftrightarrow> nic' = nic \<or> \<not> Nic_Unschedulable nic \<and>
     (nic' = nic\<lparr>Nic_Status := ENIStatusDeleting\<rparr> \<and> nic_key nic = secondaryKey \<and>
        snd (IPUsage (ips (Nic_IPv4 nic))) = 0 \<and> snd (IPUsage (ips (Nic_IPv6 nic))) = 0 \<or>
      (\<exists>m4 m6. nic' = nic\<lparr>Nic_IPv4 := map_option (\<lambda>_. m4) (Nic_IPv4 nic), Nic_IPv6 := map_option (\<lambda>_. m6) (Nic_IPv6 nic)\<rparr> \<and>
        all_given_up (ips (Nic_IPv4 nic)) m4 \<and> all_given_up (ips (Nic_IPv6 nic)) m6))"

lemma releaseUnUsedIP_shrinks:
  assumes "nic_ok nic" and "releaseUnUsedIP ord4 ord6 nic toDel spec = (nic', c)" and "0 < toDel"
  shows "nic_shrunk nic nic' \<and> 0 \<le> c \<and> c \<le> toDel \<and> pool_idles spec nic \<le> pool_idles spec nic' + c"
proof (cases rule: releaseUnUsedIP_cases [OF assms])
  case 1
  then show ?thesis using assms(3) by (simp add: nic_shrunk_def)
next
  case 2
  then have "pool_idles spec nic' = 0" by (simp add: pool_idles_def)
  then show ?thesis using 2 by (simp add: nic_shrunk_def)
next
  case (3 m4 m6)
  then show ?thesis unfolding nic_shrunk_def by blast
qed

lemma pool_total_adjust:
  assumes "gm_ok nics" and "map_of nics k = Some nic"
  shows "pool_total spec (gm_adjust k (\<lambda>_. nic') nics) = pool_total spec nics - pool_idles spec nic + pool_idles spec nic'"
  using assms
proof (induction nics)
  case (Cons x nics)
  obtain j n where x: "x = (j, n)" by (cases x)
  show ?case
  proof (cases "j = k")
    case True
    then have "k \<notin> set (keys nics)" using Cons.prems(1) x by (simp add: gm_ok_def)
    then show ?thesis using Cons.prems True x by (simp add: pool_total_def gm_adjust_notin)
  next
    case False
    then show ?thesis using Cons x by (simp add: pool_total_def gm_ok_def)
  qed
qed simp

definition nics_shrunk :: "Nics \<Rightarrow> Nics \<Rightarrow> bool" where
  "nics_shrunk nics nics' \<longleftrightarrow> keys nics' = keys nics \<and>
     (\<forall>k nic. map_of nics k = Some nic \<longrightarrow> (\<exists>nic'. map_of nics' k = Some nic' \<and> nic_shrunk nic nic'))"

lemma nics_shrunk_refl [simp]: "nics_shrunk nics nics"
  by (simp add: nics_shrunk_def nic_shrunk_def)

lemma shrink_spec:
  assumes "distinct (map fst l)" and "gm_ok nics" and "0 < toDel"
    and "\<forall>(k, nic) \<in> set l. map_of nics k = Some nic \<and> nic_ok nic"
  shows "keys (shrink ord4 ord6 spec l toDel nics) = keys nics \<and>
    (\<forall>k. k \<notin> fst ` set l \<longrightarrow> map_of (shrink ord4 ord6 spec l toDel nics) k = map_of nics k) \<and>
    (\<forall>(k, nic) \<in> set l. \<exists>nic'. map_of (shrink ord4 ord6 spec l toDel nics) k = Some nic' \<and> nic_shrunk nic nic') \<and>
    pool_total spec nics - toDel \<le> pool_total spec (shrink ord4 ord6 spec l toDel nics)"
  using assms
proof (induction l arbitrary: toDel nics)
  case (Cons x l)
  obtain k nic where x: "x = (k, nic)" by (cases x)
  obtain nic' c where r: "releaseUnUsedIP (ord4 k) (ord6 k) nic toDel spec = (nic', c)"
    by (cases "releaseUnUsedIP (ord4 k) (ord6 k) nic toDel spec")
  have k: "map_of nics k = Some nic" "nic_ok nic" using Cons.prems(4) x by simp_all
  note rel = releaseUnUsedIP_shrinks [OF k(2) r Cons.prems(3)]
  let ?nics = "gm_adjust k (\<lambda>_. nic') nics"
  have tot: "pool_total spec nics - c \<le> pool_total spec ?nics" using pool_total_adjust [OF Cons.prems(2) k(1)] rel by simp
  have new: "k \<notin> fst ` set l" "distinct (map fst l)" using Cons.prems(1) x by simp_all
  have upd: "map_of ?nics j = (if j = k then Some nic' else map_of nics j)" for j using k(1) by (simp add: map_of_adjust)
  have rest: "\<forall>(j, n) \<in> set l. map_of ?nics j = Some n \<and> nic_ok n"
    using Cons.prems(4) new(1) unfolding x upd by (force simp: image_iff)
  show ?case
  proof (cases "toDel - c \<le> 0")
    case True
    have same: "\<exists>n'. map_of ?nics j = Some n' \<and> nic_shrunk n n'" if "(j, n) \<in> set l" for j n
      using rest that by (auto simp: nic_shrunk_def)
    show ?thesis unfolding x using r True rel tot same new(1) by (auto simp: upd)
  next
    case False
    then have eq: "shrink ord4 ord6 spec (x # l) toDel nics = shrink ord4 ord6 spec l (toDel - c) ?nics" using r x by simp
    have pos: "0 < toDel - c" and ok: "gm_ok ?nics" using False Cons.prems(2) by simp_all
    have ih: "keys (shrink ord4 ord6 spec l (toDel - c) ?nics) = keys ?nics"
      "\<And>j. j \<notin> fst ` set l \<Longrightarrow> map_of (shrink ord4 ord6 spec l (toDel - c) ?nics) j = map_of ?nics j"
      "\<And>j n. (j, n) \<in> set l \<Longrightarrow> \<exists>n'. map_of (shrink ord4 ord6 spec l (toDel - c) ?nics) j = Some n' \<and> nic_shrunk n n'"
      "pool_total spec ?nics - (toDel - c) \<le> pool_total spec (shrink ord4 ord6 spec l (toDel - c) ?nics)"
      using Cons.IH [OF new(2) ok pos rest] by (simp_all, blast+)
    show ?thesis unfolding eq
    proof (intro conjI allI impI ballI)
      show "keys (shrink ord4 ord6 spec l (toDel - c) ?nics) = keys nics" using ih(1) by simp
      show "pool_total spec nics - toDel \<le> pool_total spec (shrink ord4 ord6 spec l (toDel - c) ?nics)" using ih(4) tot by simp
    next
      fix j assume "j \<notin> fst ` set (x # l)"
      then show "map_of (shrink ord4 ord6 spec l (toDel - c) ?nics) j = map_of nics j" using ih(2) [of j] x by (simp add: upd)
    next
      fix y assume "y \<in> set (x # l)"
      then show "case y of (j, n) \<Rightarrow> \<exists>n'. map_of (shrink ord4 ord6 spec l (toDel - c) ?nics) j = Some n' \<and> nic_shrunk n n'"
        using ih(2) [OF new(1)] ih(3) rel x by (auto simp: upd)
    qed
  qed
qed simp

lemma calculateToDel_bound:
  assumes "calculateToDel jitter now spec pool nics status = Ret (toDel, status')"
  shows "St_NetworkInterfaces status' = St_NetworkInterfaces status \<and>
    (0 < toDel \<longrightarrow> min (pool_total spec nics) (min (PS_MaxPoolSize pool) (PS_MinPoolSize pool)) \<le> pool_total spec nics - toDel)"
  using assms by (auto simp: calculateToDel_def Let_def max_def min_def split: option.splits if_splits)

lemma sortNetworkInterface_mset:
  "range_order ord \<Longrightarrow> gm_ok nics \<Longrightarrow> mset (sortNetworkInterface ord spec nics) = mset nics"
  by (simp add: sortNetworkInterface_def mset_range_list)

lemma sortNetworkInterface_distinct:
  assumes "range_order ord" and "gm_ok nics"
  shows "distinct (map fst (sortNetworkInterface ord spec nics))"
proof -
  have "mset (map fst (sortNetworkInterface ord spec nics)) = mset (keys nics)"
    using sortNetworkInterface_mset [OF assms] by simp
  then show ?thesis using assms(2) unfolding gm_ok_def by (metis mset_eq_imp_distinct_iff)
qed

text \<open>
  C33: shrinking the pool keeps what has to stay. It removes no interface from the Node resource, marks
  nothing of an unschedulable interface, no address of a pod and no interface a pod uses; at least the
  smaller of the two pool sizes of free addresses remains (or all of them, if there are fewer); and
  nothing is given up while the controller is degraded.
\<close>

theorem adjust_keeps:
  assumes "range_order ord" and "gm_ok (St_NetworkInterfaces status)"
    and "\<forall>(k, nic) \<in> set (St_NetworkInterfaces status). nic_ok nic"
    and "adjustPool ord ord4 ord6 parse jitter gcPeriod now deg spec pool lastGC status = Ret (status', lastGC')"
  shows "nics_shrunk (St_NetworkInterfaces status) (St_NetworkInterfaces status') \<and>
    min (pool_total spec (St_NetworkInterfaces status)) (min (PS_MaxPoolSize pool) (PS_MinPoolSize pool))
      \<le> pool_total spec (St_NetworkInterfaces status') \<and>
    (deg \<in> {DegradationL0, DegradationL1} \<longrightarrow> status' = status)"
proof -
  let ?nics = "St_NetworkInterfaces status"
  let ?keep = "min (pool_total spec ?nics) (min (PS_MaxPoolSize pool) (PS_MinPoolSize pool))"
  let ?run = "now < lastGC + poolSyncPeriod parse gcPeriod (PS_PoolSyncPeriod pool) \<or> deg = DegradationL0 \<or> deg = DegradationL1"
  show ?thesis
  proof (cases ?run)
    case True
    then have "status' = status" using assms(4) unfolding adjustPool_def by (auto split: if_splits)
    then show ?thesis by simp
  next
    case False
    obtain toDel st where calc: "calculateToDel jitter now spec pool ?nics status = Ret (toDel, st)"
      using assms(4) False unfolding adjustPool_def by (cases "calculateToDel jitter now spec pool ?nics status") auto
    note b = calculateToDel_bound [OF calc]
    show ?thesis
    proof (cases "0 < toDel")
      case True
      let ?l = "rev (sortNetworkInterface ord spec ?nics)"
      have "mset ?l = mset ?nics" using sortNetworkInterface_mset [OF assms(1,2)] by simp
      then have set: "set ?l = set ?nics" by (rule mset_eq_set)
      have l: "distinct (map fst ?l)" using sortNetworkInterface_distinct [OF assms(1,2)] by (simp only: rev_map [symmetric] distinct_rev)
      have "\<forall>(k, nic) \<in> set ?l. map_of ?nics k = Some nic \<and> nic_ok nic" unfolding set using assms(2,3) gm_okD by fast
      note sh = shrink_spec [OF l assms(2) True this, of ord4 ord6 spec]
      have "St_NetworkInterfaces status' = shrink ord4 ord6 spec ?l toDel ?nics"
        using assms(4) False calc True b unfolding adjustPool_def by (auto simp: Let_def)
      moreover have "nics_shrunk ?nics (shrink ord4 ord6 spec ?l toDel ?nics)"
        unfolding nics_shrunk_def using sh unfolding set by (auto dest: map_of_Some_in)
      ultimately show ?thesis using sh b True False by auto
    next
      case no: False
      then have "St_NetworkInterfaces status' = ?nics" using assms(4) False calc b unfolding adjustPool_def by (auto simp: Let_def)
      then show ?thesis using False by auto
    qed
  qed
qed

subsection \<open>The interfaces on offer\<close>

definition kind_count :: "eniTypeKey \<Rightarrow> (string \<times> Nic) list \<Rightarrow> int" where
  "kind_count key nics = int (length (filter (\<lambda>x. nic_key (snd x) = key) nics))"

lemma flavor_use_left:
  "flavor_left (foldl flavor_use fl nics) key = (if map_of fl key = None then 0 else flavor_left fl key - kind_count key nics) \<and>
   (map_of (foldl flavor_use fl nics) key = None \<longleftrightarrow> map_of fl key = None)"
proof (induction nics arbitrary: fl)
  case (Cons x nics)
  have "map_of (flavor_use fl x) key = None \<longleftrightarrow> map_of fl key = None"
    by (auto simp: flavor_use_def map_of_update split: option.splits)
  moreover have "flavor_left (flavor_use fl x) key = flavor_left fl key - (if nic_key (snd x) = key then 1 else 0)" if "map_of fl key \<noteq> None"
    using that by (auto simp: flavor_use_def flavor_left_def map_of_update split: option.splits)
  ultimately show ?case using Cons.IH [of "flavor_use fl x"] by (auto simp: kind_count_def)
qed (auto simp: flavor_left_def kind_count_def split: option.splits)

definition new_count :: "eniTypeKey \<Rightarrow> eniOptions list \<Rightarrow> int" where
  "new_count key opts = int (length (filter (\<lambda>opt. EO_eniRef opt = None \<and> EO_eniTypeKey opt = key) opts))"

lemma new_option_simps [simp]:
  "EO_eniRef (new_option key ref) = ref" "EO_eniTypeKey (new_option key ref) = key" "unplanned (new_option key ref)"
  by (simp_all add: new_option_def unplanned_def)

lemma new_count_simps [simp]:
  "new_count key (a @ b) = new_count key a + new_count key b"
  "new_count key (replicate n (new_option k None)) = (if k = key then int n else 0)"
  "new_count key (map (\<lambda>(k, item). new_option (nic_key item) (Some k)) l) = 0"
  by (auto simp: new_count_def filter_empty_conv)

lemma keys_neq [simp]: "trunkKey \<noteq> rdmaKey" "trunkKey \<noteq> secondaryKey" "rdmaKey \<noteq> secondaryKey"
  "rdmaKey \<noteq> trunkKey" "secondaryKey \<noteq> trunkKey" "secondaryKey \<noteq> rdmaKey"
  by (simp_all add: trunkKey_def rdmaKey_def secondaryKey_def)


subsection \<open>An example\<close>

text \<open>A node with a trunk that has its primary address, two free ones and one of a pod, and room for a plain interface.\<close>

definition pl_ip :: "string \<Rightarrow> bool \<Rightarrow> string \<Rightarrow> string \<times> NodeIP" where
  "pl_ip a primary pod = (a, \<lparr>NIP_IP = a, NIP_Primary = primary, NIP_Status = IPStatusValid, NIP_PodID = pod, NIP_PodUID = [], NIP_IPName = []\<rparr>)"

definition pl_nics :: Nics where
  "pl_nics = [(''eni-1'', zero_Nic\<lparr>Nic_ID := ''eni-1'', Nic_Status := ENIStatusInUse, Nic_VSwitchID := ''vsw-1'',
     Nic_NetworkInterfaceTrafficMode := NetworkInterfaceTrafficModeStandard, Nic_NetworkInterfaceType := ENITypeTrunk,
     Nic_IPv4 := Some [pl_ip ''10.0.0.1'' True [], pl_ip ''10.0.0.2'' False [], pl_ip ''10.0.0.3'' False [], pl_ip ''10.0.0.4'' False ''n/a'']\<rparr>)]"

definition pl_spec :: ENISpec where
  "pl_spec = zero_ENISpec\<lparr>ES_EnableIPv4 := True, ES_EnableTrunk := True\<rparr>"

definition pl_cap :: NodeCap where
  "pl_cap = (NS_NodeCap zero_NodeSpec)\<lparr>Cap_IPv4PerAdapter := 6\<rparr>"

definition pl_flavors :: "Flavor list" where
  "pl_flavors = [\<lparr>Fl_NetworkInterfaceType = ENITypeTrunk, Fl_NetworkInterfaceTrafficMode = NetworkInterfaceTrafficModeStandard, Fl_Count = 1\<rparr>,
     \<lparr>Fl_NetworkInterfaceType = ENITypeSecondary, Fl_NetworkInterfaceTrafficMode = NetworkInterfaceTrafficModeStandard, Fl_Count = 1\<rparr>]"

definition pl_opts :: "eniOptions list" where
  "pl_opts = getEniOptions (\<lambda>ks. ks) pl_spec pl_flavors pl_nics"

abbreviation pl_filter :: "eniOptions \<Rightarrow> (string, Switch) gomap \<Rightarrow> bool \<times> eniOptions \<times> (string, Switch) gomap" where
  "pl_filter \<equiv> validateENI map_lru wit_vpc [secondaryKey, trunkKey] (ES_EnableIPv4 pl_spec) pl_nics"

definition pl_plan :: "eniOptions list \<times> (string, Switch) gomap" where
  "pl_plan = assignEniWithOptions BackendAPIECS pl_cap pl_spec pl_nics (NewENITaskQueue 1) pl_filter 5 pl_opts []"

lemma pl_plan_eq: "assignEniWithOptions BackendAPIECS pl_cap pl_spec pl_nics (NewENITaskQueue 1) pl_filter 5 pl_opts [] = (fst pl_plan, snd pl_plan)"
  by (simp add: pl_plan_def)

lemma pl_hyps:
  "list_all unplanned pl_opts" "1 \<le> Cap_IPv4PerAdapter pl_cap"
  "(if ES_EnableIPv6 pl_spec then 1 else 0) \<le> Cap_IPv6PerAdapter pl_cap"
  by code_simp+

lemma pl_tasks: "GetTaskStatus e (NewENITaskQueue 1) = Some t \<Longrightarrow> 0 \<le> TR_Requested f t"
  by (simp add: GetTaskStatus_def NewENITaskQueue_def)

theorem assign_spreads_witness: "map (EO_add V4) (fst pl_plan) = [2, 3]"
proof -
  have "pour (map (slot_of V4 (batchSize BackendAPIECS) pl_cap pl_spec pl_nics (NewENITaskQueue 1)) (verdicts pl_filter pl_opts []))
    (if ES_Enable V4 pl_spec then 5 else 0) = [2, 3]" by code_simp
  then show ?thesis using assign_spreads [where f = V4, OF pl_hyps pl_tasks pl_plan_eq] by simp
qed

theorem assign_within_quota_witness: "sum_list (map (EO_add V4) (fst pl_plan)) \<le> 5"
proof -
  let ?ss = "map (slot_of V4 (batchSize BackendAPIECS) pl_cap pl_spec pl_nics (NewENITaskQueue 1)) (verdicts pl_filter pl_opts [])"
  have "filter is_trunk ?ss = []" by code_simp
  moreover have "ES_Enable V4 pl_spec" by code_simp
  ultimately show ?thesis using assign_within_quota [where f = V4, OF pl_hyps pl_tasks pl_plan_eq refl refl] by simp
qed


definition pl_pool :: "IPReclaimPolicy option \<Rightarrow> PoolSpec" where
  "pl_pool r = \<lparr>PS_MaxPoolSize = 1, PS_MinPoolSize = 1, PS_PoolSyncPeriod = [], PS_Reclaim = r, PS_WarmUpSize = 0\<rparr>"

definition pl_status :: NodeStatus where
  "pl_status = zero_NodeStatus\<lparr>St_NetworkInterfaces := pl_nics\<rparr>"

definition pl_adjusted :: "(NodeStatus \<times> time) go" where
  "pl_adjusted = adjustPool (\<lambda>ks. ks) (\<lambda>_ ks. ks) (\<lambda>_ ks. ks) (\<lambda>_. None) (\<lambda>d _. d) minute (5 * minute) [] pl_spec (pl_pool None) 0 pl_status"

definition pl_after :: NodeStatus where
  "pl_after = (case pl_adjusted of Ret (st, t) \<Rightarrow> st | Panic \<Rightarrow> pl_status)"

theorem adjust_keeps_witness: "1 \<le> pool_total pl_spec (St_NetworkInterfaces pl_after) \<and> nics_shrunk pl_nics (St_NetworkInterfaces pl_after)"
proof -
  have "pl_adjusted = Ret (pl_after, 5 * minute)" by code_simp
  note eq = this [unfolded pl_adjusted_def]
  have ok: "gm_ok (St_NetworkInterfaces pl_status)" "\<forall>(k, nic) \<in> set (St_NetworkInterfaces pl_status). nic_ok nic"
    "St_NetworkInterfaces pl_status = pl_nics" "pool_total pl_spec pl_nics = 3" by code_simp+
  have "PS_MaxPoolSize (pl_pool None) = 1" "PS_MinPoolSize (pl_pool None) = 1" by (simp_all add: pl_pool_def)
  then show ?thesis using adjust_keeps [OF range_order_id ok(1,2) eq] unfolding ok(3,4) by simp
qed

text \<open>
  With a reclaim policy that has a batch size and no interval, a pool that has been quiet for long
  enough makes the controller dereference a nil pointer.
\<close>

lemma reclaim_panics:
  "calculateToDel (\<lambda>d _. d) (5 * minute) pl_spec
     (pl_pool (Some \<lparr>RP_After = Some minute, RP_Interval = None, RP_BatchSize = 1, RP_JitterFactor = []\<rparr>)) pl_nics pl_status = Panic"
  by code_simp

end
