(* ===== verification/NodeCloud.thy ===== *)
theory NodeCloud
  imports NodeDemand
begin

section \<open>The reconciler of a node and the cloud (pkg/controller/multi-ip/node/pool.go)\<close>

text \<open>
  The operations of \<^verbatim>\<open>ReconcileNode\<close> that talk to the cloud (\<^verbatim>\<open>NodeReconcile\<close> composes them). The cloud is a record of calls on a state \<open>'w\<close> of its own, each of which may fail;
  what the run time chooses (the order of a loop over a map, the schedule of the goroutines, the
  jitter) is given by functions in the context. The goroutines of \<^verbatim>\<open>allocateFromOptions\<close> work on
  different interfaces, under one lock where they share data: they run one after the other, in any
  order. An operation takes the state of the controller and returns it updated.
\<close>

subsection \<open>The cloud\<close>

record create_opts =
  CO_VSwitchID :: string
  CO_SecurityGroupIDs :: "string list"
  CO_ResourceGroupID :: string
  CO_Tags :: "(string, string) gomap"
  CO_IPCount :: int
  CO_IPv6Count :: int
  CO_IPv4PrefixCount :: int
  CO_IPv6PrefixCount :: int
  CO_ZoneID :: string
  CO_InstanceID :: string

text \<open>
  An interface is described by the instance, by its name, or by both, and by tags; an assignment is asked for a
  number of addresses and a number of prefixes, and may return some of them together with an error.
\<close>

record 'w cloud =
  DescribeNetworkInterfaceV2 ::
    "string option \<Rightarrow> string list option \<Rightarrow> (string, string) gomap \<Rightarrow> 'w \<Rightarrow> (node_err + NetworkInterface list) \<times> 'w"
  CreateNetworkInterfaceV2 :: "bool \<times> bool \<Rightarrow> create_opts \<Rightarrow> 'w \<Rightarrow> (node_err + NetworkInterface) \<times> 'w"
  DetachNetworkInterface :: "string \<Rightarrow> string \<Rightarrow> 'w \<Rightarrow> node_err option \<times> 'w"
  WaitForNetworkInterfaceV2 :: "string \<Rightarrow> string \<Rightarrow> 'w \<Rightarrow> node_err option \<times> 'w"
  DeleteNetworkInterfaceV2 :: "string \<Rightarrow> 'w \<Rightarrow> node_err option \<times> 'w"
  AssignPrivateIPAddressV2 :: "string \<Rightarrow> int \<Rightarrow> int \<Rightarrow> 'w \<Rightarrow> (CloudIP list \<times> node_err option) \<times> 'w"
  AssignIpv6AddressesV2 :: "string \<Rightarrow> int \<Rightarrow> int \<Rightarrow> 'w \<Rightarrow> (CloudIP list \<times> node_err option) \<times> 'w"
  UnAssignPrivateIPAddressesV2 :: "string \<Rightarrow> CloudIP list \<Rightarrow> 'w \<Rightarrow> node_err option \<times> 'w"
  UnAssignIpv6AddressesV2 :: "string \<Rightarrow> CloudIP list \<Rightarrow> 'w \<Rightarrow> node_err option \<times> 'w"

subsection \<open>The state of the controller\<close>

text \<open>What the controller remembers of a node between two runs (the struct \<^verbatim>\<open>NodeStatus\<close> of pool.go).\<close>

record Meta =
  M_NeedSyncOpenAPI :: bool
  M_StatusChanged :: bool
  M_LastGCTime :: time
  M_LastReconcileTime :: time
  M_ProcessedTaskIDs :: "string list"

text \<open>
  What stays the same during a run: the settings of the controller and of the node, and the choices of
  the run time, loop by loop.
\<close>

record ('w, 'c) nctx =
  X_cloud :: "'w cloud"
  X_lru :: "'c lru"
  X_vpc :: vpc
  X_shuffle :: "string list \<Rightarrow> string list"
  X_sortSwitches :: "Switch list \<Rightarrow> Switch list"
  X_backend :: BackendAPI
  X_name :: string
  X_meta :: NodeMetadata
  X_cap :: NodeCap
  X_spec :: ENISpec
  X_pool :: PoolSpec
  X_flavors :: "Flavor list"
  X_now :: time
  X_degradation :: string
  X_waitSteps :: nat
  X_fullSync :: duration
  X_gcPeriod :: duration
  X_eniBatchSize :: int
  X_jitter :: "duration \<Rightarrow> duration"
  X_reclaimJitter :: "duration \<Rightarrow> string \<Rightarrow> duration"
  X_parse :: "string \<Rightarrow> duration option"
  X_ord :: "string \<Rightarrow> string list \<Rightarrow> string list"
  X_ordS :: "CNIStatus list \<Rightarrow> CNIStatus list"
  X_sched :: "nat list \<Rightarrow> nat list"
  X_runtime :: runtime_get
  X_daemonRuntime :: bool
  X_k8sNode :: "NodeCondition list option"
  X_aggregate :: "node_err list \<Rightarrow> string"

record ('w, 'c) nst =
  N_status :: NodeStatus
  N_queue :: ENITaskQueue
  N_spawned :: "ENITaskRecord list"
  N_meta :: Meta
  N_patched :: "NodeCondition list"
  N_w :: 'w
  N_c :: 'c

abbreviation N_nics :: "('w, 'c, 'z) nst_scheme \<Rightarrow> Nics" where
  "N_nics s \<equiv> St_NetworkInterfaces (N_status s)"

definition set_nics :: "Nics \<Rightarrow> ('w, 'c) nst \<Rightarrow> ('w, 'c) nst" where
  "set_nics nics s = s\<lparr>N_status := (N_status s)\<lparr>St_NetworkInterfaces := nics\<rparr>\<rparr>"

definition set_StatusChanged :: "('w, 'c) nst \<Rightarrow> ('w, 'c) nst" where
  "set_StatusChanged s = s\<lparr>N_meta := (N_meta s)\<lparr>M_StatusChanged := True\<rparr>\<rparr>"

definition set_NeedSyncOpenAPI :: "bool \<Rightarrow> ('w, 'c) nst \<Rightarrow> ('w, 'c) nst" where
  "set_NeedSyncOpenAPI b s = s\<lparr>N_meta := (N_meta s)\<lparr>M_NeedSyncOpenAPI := b\<rparr>\<rparr>"

subsection \<open>Reading the interfaces from the cloud\<close>

definition leni_failed :: "string \<Rightarrow> bool" where
  "leni_failed st \<longleftrightarrow> st \<in> {LENIStatusCreateFailed, LENIStatusAttachFailed, LENIStatusDetachFailed, LENIStatusDeleteFailed}"

definition middle_status :: "string \<Rightarrow> bool" where
  "middle_status st \<longleftrightarrow> st \<in> {LENIStatusExecuting, ENIStatusDeleting, ENIStatusAttaching, ENIStatusDetaching} \<or> leni_failed st"

definition sync_remote :: "NetworkInterface \<Rightarrow> Nic" where
  "sync_remote item =
     (let remote = newENIFromAPI item
      in if leni_failed (NI_Status item) then remote\<lparr>Nic_Status := ENIStatusDeleting\<rparr> else remote)"

definition merge_eni :: "NetworkInterface \<Rightarrow> Nic \<Rightarrow> Nic" where
  "merge_eni item crENI =
     (let remote = sync_remote item;
          crENI = crENI\<lparr>Nic_IPv4 := mergeIPMap (ips (Nic_IPv4 remote)) (Nic_IPv4 crENI),
                        Nic_IPv6 := mergeIPMap (ips (Nic_IPv6 remote)) (Nic_IPv6 crENI),
                        Nic_IPv4Prefix := mergeIPPrefixes (NI_IPv4PrefixSets item) (Nic_IPv4Prefix crENI),
                        Nic_IPv6Prefix := mergeIPPrefixes (NI_IPv6PrefixSets item) (Nic_IPv6Prefix crENI)\<rparr>
      in if Nic_Status crENI \<noteq> ENIStatusDeleting \<and> Nic_Status crENI \<noteq> ENIStatusAttaching
         then crENI\<lparr>Nic_Status := Nic_Status remote\<rparr> else crENI)"

text \<open>The loop over the reported interfaces; a vSwitch that cannot be read ends the whole synchronisation.\<close>

fun sync_items :: "'c lru \<Rightarrow> vpc \<Rightarrow> NetworkInterface list \<Rightarrow> Nics \<Rightarrow> 'c \<Rightarrow> bool \<times> Nics \<times> 'c" where
  "sync_items lru client [] nics c = (True, nics, c)"
| "sync_items lru client (item # items) nics c =
     (case map_of nics (NI_NetworkInterfaceID item) of
        None \<Rightarrow>
          (case GetByID lru client (Nic_VSwitchID (sync_remote item)) c of
             (None, c) \<Rightarrow> (False, nics, c)
           | (Some vsw, c) \<Rightarrow>
               sync_items lru client items
                 (AList.update (NI_NetworkInterfaceID item)
                    ((sync_remote item)\<lparr>Nic_IPv4CIDR := Sw_IPv4CIDR vsw, Nic_IPv6CIDR := Sw_IPv6CIDR vsw\<rparr>) nics) c)
      | Some crENI \<Rightarrow> sync_items lru client items (gm_adjust (NI_NetworkInterfaceID item) (merge_eni item) nics) c)"

definition mark_blocked :: "(string \<times> string) list \<Rightarrow> bool \<Rightarrow> NetworkInterface \<Rightarrow> Nic \<Rightarrow> Nic" where
  "mark_blocked blockList manageERDMA item nic =
     (let hpNotManaged = (Nic_NetworkInterfaceTrafficMode nic = NetworkInterfaceTrafficModeHighPerformance \<and> \<not> manageERDMA);
          nic = nic\<lparr>Nic_Unschedulable := IsENIBlocked (NI_Tags item) blockList \<or> hpNotManaged\<rparr>
      in if Nic_Unschedulable nic then clearPendingDelete (NI_Status item) nic else nic)"

text \<open>
  The loop that removes the interfaces the cloud does not report. The error variable is shared by all
  its rounds: one that is not overwritten in a round is still seen in it.
\<close>

fun drop_gone ::
  "'w cloud \<Rightarrow> string \<Rightarrow> (string, string) gomap \<Rightarrow> string list \<Rightarrow> string list \<Rightarrow> node_err option \<Rightarrow> Nics \<Rightarrow> 'w \<Rightarrow> Nics \<times> 'w" where
  "drop_gone cl inst tags eniIDs [] err nics w = (nics, w)"
| "drop_gone cl inst tags eniIDs (k # ks) err nics w =
     (case map_of nics k of
        None \<Rightarrow> drop_gone cl inst tags eniIDs ks err nics w
      | Some nic \<Rightarrow>
          if k \<in> set eniIDs then drop_gone cl inst tags eniIDs ks err nics w
          else if Nic_NetworkInterfaceType nic = ENITypeSecondary then
            (case DescribeNetworkInterfaceV2 cl (Some inst) (Some [k]) tags w of
               (Inl e, w) \<Rightarrow> drop_gone cl inst tags eniIDs ks (Some e) nics w
             | (Inr [], w) \<Rightarrow> drop_gone cl inst tags eniIDs ks None (AList.delete k nics) w
             | (Inr (r # rs), w) \<Rightarrow>
                 if NI_Status r = ENIStatusAvailable then
                   (case DeleteNetworkInterfaceV2 cl k w of
                      (Some e, w) \<Rightarrow> drop_gone cl inst tags eniIDs ks (Some e) nics w
                    | (None, w) \<Rightarrow> drop_gone cl inst tags eniIDs ks None (AList.delete k nics) w)
                 else if NI_Status r = ENIStatusInUse then drop_gone cl inst tags eniIDs ks None (AList.delete k nics) w
                 else drop_gone cl inst tags eniIDs ks None nics w)
          else if err \<noteq> None then drop_gone cl inst tags eniIDs ks err nics w
          else drop_gone cl inst tags eniIDs ks err (AList.delete k nics) w)"

definition syncWithAPI :: "('w, 'c) nctx \<Rightarrow> ('w, 'c) nst \<Rightarrow> node_err option \<times> ('w, 'c) nst" where
  "syncWithAPI x s =
     (if \<not> M_NeedSyncOpenAPI (N_meta s) then (None, s)
      else if X_degradation x = DegradationL0 \<or> X_degradation x = DegradationL1 then (None, s)
      else
        (case DescribeNetworkInterfaceV2 (X_cloud x) (Some (NM_InstanceID (X_meta x))) None (ES_TagFilter (X_spec x)) (N_w s) of
           (Inl e, w) \<Rightarrow> (Some e, s\<lparr>N_w := w\<rparr>)
         | (Inr enis, w) \<Rightarrow>
             (let s = s\<lparr>N_w := w\<rparr>;
                  enis = filter (\<lambda>item. if NI_Type item = ENITypePrimary then False else \<not> IsLENIPrimary item) enis;
                  blockList = (if ES_TagBlockList (X_spec x) \<noteq> [] then ES_TagBlockList (X_spec x) else DefaultENITagBlockList)
              in case sync_items (X_lru x) (X_vpc x) enis (N_nics s) (N_c s) of
                   (False, nics, c) \<Rightarrow> (Some (NOther ''vswitch''), set_nics nics (s\<lparr>N_c := c\<rparr>))
                 | (True, nics, c) \<Rightarrow>
                     (let nics = foldl (\<lambda>nics item. gm_adjust (NI_NetworkInterfaceID item)
                                   (mark_blocked blockList (ES_EnableERDMA (X_spec x)) item) nics) nics enis;
                          (nics, w) = drop_gone (X_cloud x) (NM_InstanceID (X_meta x)) (ES_TagFilter (X_spec x))
                                        (map NI_NetworkInterfaceID enis) (X_ord x ''syncWithAPI'' (keys nics)) None nics (N_w s);
                          s = set_nics nics (s\<lparr>N_c := c, N_w := w\<rparr>)
                      in if list_ex (\<lambda>item. middle_status (NI_Status item)) enis then
                           (None, s\<lparr>N_status := (N_status s)\<lparr>St_NextSyncOpenAPITime := X_now x + X_jitter x (30 * second)\<rparr>\<rparr>)
                         else
                           (None, set_NeedSyncOpenAPI False
                              (s\<lparr>N_status := (N_status s)\<lparr>St_NextSyncOpenAPITime := X_now x + X_jitter x (X_fullSync x),
                                                         St_LastSyncOpenAPITime := X_now x\<rparr>\<rparr>))))))"

subsection \<open>The pods of the node\<close>

text \<open>The fields of a pod that are read; whether it has its own interface is decided by an annotation.\<close>

record K8sPod =
  KP_Namespace :: string
  KP_Name :: string
  KP_UID :: string
  KP_HostNetwork :: bool
  KP_PodENI :: "string option"
  KP_Phase :: string
  KP_ERDMALimits :: "int option list"
  KP_PodIP :: string
  KP_PodIPs :: "string list"

definition ParseBool :: "string \<Rightarrow> bool option" where
  "ParseBool str =
     (if str \<in> {''1'', ''t'', ''T'', ''true'', ''TRUE'', ''True''} then Some True
      else if str \<in> {''0'', ''f'', ''F'', ''false'', ''FALSE'', ''False''} then Some False
      else None)"

definition PodUseENI :: "K8sPod \<Rightarrow> bool" where
  "PodUseENI pod =
     (case KP_PodENI pod of
        None \<Rightarrow> False
      | Some key \<Rightarrow> (case ParseBool key of None \<Rightarrow> False | Some v \<Rightarrow> v))"

definition PodSandboxExited :: "K8sPod \<Rightarrow> bool" where
  "PodSandboxExited p \<longleftrightarrow> KP_Phase p = ''Succeeded'' \<or> KP_Phase p = ''Failed''"

fun getPods :: "ENISpec \<Rightarrow> K8sPod list \<Rightarrow> (string, PodRequest) gomap \<Rightarrow> (string, PodRequest) gomap option" where
  "getPods spec [] podsMapper = Some podsMapper"
| "getPods spec (pod # pods) podsMapper =
     (if KP_HostNetwork pod \<or> PodUseENI pod \<or> PodSandboxExited pod then getPods spec pods podsMapper
      else
        (let requireERDMA = (ES_EnableERDMA spec \<and>
               list_ex (\<lambda>lim. case lim of None \<Rightarrow> False | Some res \<Rightarrow> res \<noteq> 0) (KP_ERDMALimits pod))
         in case podIPs (KP_PodIP pod # KP_PodIPs pod) of
              None \<Rightarrow> None
            | Some (ipv4, ipv6) \<Rightarrow>
                getPods spec pods (AList.update (KP_Namespace pod @ ''/'' @ KP_Name pod)
                  \<lparr>PR_PodUID = KP_UID pod, PR_RequireIPv4 = ES_EnableIPv4 spec, PR_RequireIPv6 = ES_EnableIPv6 spec,
                   PR_RequireERDMA = requireERDMA, PR_IPv4 = ipv4, PR_IPv6 = ipv6, PR_ipv4Ref = None, PR_ipv6Ref = None\<rparr>
                  podsMapper)))"

subsection \<open>The attach queue\<close>

definition merge_or_set :: "IPMap \<Rightarrow> IPMap option \<Rightarrow> IPMap option" where
  "merge_or_set remote current = (case current of None \<Rightarrow> Some remote | Some cur \<Rightarrow> mergeIPMap remote (Some cur))"

definition attach_done :: "NetworkInterface \<Rightarrow> Nic \<Rightarrow> Nic" where
  "attach_done info nic =
     nic\<lparr>Nic_Status := ENIStatusInUse, Nic_MacAddress := NI_MacAddress info, Nic_SecurityGroupIDs := NI_SecurityGroupIDs info,
         Nic_PrimaryIPAddress := NI_PrivateIPAddress info, Nic_NetworkInterfaceTrafficMode := NI_NetworkInterfaceTrafficMode info,
         Nic_IPv4 := merge_or_set (convertIPSet (NI_PrivateIPSets info)) (Nic_IPv4 nic),
         Nic_IPv6 := merge_or_set (convertIPSet (NI_IPv6Set info)) (Nic_IPv6 nic),
         Nic_IPv4Prefix := (if NI_IPv4PrefixSets info \<noteq> [] then convertPrefixesToCR (NI_IPv4PrefixSets info) else Nic_IPv4Prefix nic),
         Nic_IPv6Prefix := (if NI_IPv6PrefixSets info \<noteq> [] then convertPrefixesToCR (NI_IPv6PrefixSets info) else Nic_IPv6Prefix nic)\<rparr>"

definition warm_up_count :: "int \<Rightarrow> NodeStatus \<Rightarrow> NodeStatus" where
  "warm_up_count n status =
     (if \<not> St_WarmUpCompleted status \<and> St_WarmUpTarget status > 0
      then status\<lparr>St_WarmUpAllocatedCount := St_WarmUpAllocatedCount status + n\<rparr> else status)"

definition task_status :: "ENISpec \<Rightarrow> ENITaskRecord \<Rightarrow> Nic \<Rightarrow> NodeStatus \<Rightarrow> NodeStatus" where
  "task_status spec task nic status =
     (let failed = status\<lparr>St_NetworkInterfaces :=
            gm_adjust (TR_ENIID task) (\<lambda>nic. nic\<lparr>Nic_Status := ENIStatusDeleting\<rparr>) (St_NetworkInterfaces status)\<rparr>
      in case TR_Status task of
           TaskStatusCompleted \<Rightarrow>
             (case TR_ENIInfo task of
                Some info \<Rightarrow>
                  (let nic' = attach_done info nic
                   in warm_up_count (warmUpIPCount spec (int (length (ips (Nic_IPv4 nic')))) (int (length (ips (Nic_IPv6 nic')))))
                        (status\<lparr>St_NetworkInterfaces := gm_adjust (TR_ENIID task) (\<lambda>_. nic') (St_NetworkInterfaces status)\<rparr>))
              | None \<Rightarrow> failed)
         | TaskStatusFailed \<Rightarrow> failed
         | TaskStatusTimeout \<Rightarrow> failed
         | _ \<Rightarrow> status)"

definition sync_task :: "ENISpec \<Rightarrow> ('w, 'c) nst \<Rightarrow> ENITaskRecord \<Rightarrow> ('w, 'c) nst" where
  "sync_task spec s task =
     (case map_of (N_nics s) (TR_ENIID task) of
        None \<Rightarrow> s
      | Some nic \<Rightarrow>
          (let s = set_StatusChanged (s\<lparr>N_status := task_status spec task nic (N_status s)\<rparr>)
           in s\<lparr>N_meta := (N_meta s)\<lparr>M_ProcessedTaskIDs := M_ProcessedTaskIDs (N_meta s) @ [TR_ENIID task]\<rparr>\<rparr>))"

definition syncTaskQueueStatus :: "('w, 'c) nctx \<Rightarrow> ('w, 'c) nst \<Rightarrow> ('w, 'c) nst" where
  "syncTaskQueueStatus x s =
     foldl (sync_task (X_spec x)) s (PeekCompletedTasks (X_ord x ''tasks'') (X_name x) (N_queue s))"

definition submit :: "('w, 'c) nctx \<Rightarrow> string \<Rightarrow> int \<Rightarrow> int \<Rightarrow> int \<Rightarrow> int \<Rightarrow> ('w, 'c) nst \<Rightarrow> ('w, 'c) nst" where
  "submit x eniID n4 n6 p4 p6 s =
     (case SubmitAttach (X_now x) (X_backend x) eniID (NM_InstanceID (X_meta x)) [] (X_name x) n4 n6 p4 p6 (N_queue s) of
        (q, None) \<Rightarrow> s\<lparr>N_queue := q\<rparr>
      | (q, Some task) \<Rightarrow> s\<lparr>N_queue := q, N_spawned := N_spawned s @ [task]\<rparr>)"

definition staleTaskThreshold :: duration where
  "staleTaskThreshold = 30 * minute"

definition ensureAsyncTasks :: "('w, 'c) nctx \<Rightarrow> ('w, 'c) nst \<Rightarrow> ('w, 'c) nst" where
  "ensureAsyncTasks x s =
     (let s = s\<lparr>N_queue := fst (CleanupStaleTasks (X_now x) (X_name x) (keys (N_nics s)) staleTaskThreshold (N_queue s))\<rparr>
      in foldl (\<lambda>s (eniID, nic).
             if Nic_Status nic = ENIStatusAttaching then
               (case GetTaskStatus eniID (N_queue s) of
                  Some _ \<Rightarrow> s
                | None \<Rightarrow> submit x eniID 1 1 0 0 s)
             else s)
           s (range_list (X_ord x ''ensureAsyncTasks'') (N_nics s)))"

subsection \<open>Creating interfaces and assigning addresses\<close>

definition addIPToMap :: "IPMap \<Rightarrow> NodeIP \<Rightarrow> IPMap" where
  "addIPToMap inp ip =
     (case map_of inp (NIP_IP ip) of
        Some v \<Rightarrow>
          gm_adjust (NIP_IP ip)
            (\<lambda>v. let v = v\<lparr>NIP_Status := NIP_Status ip, NIP_Primary := NIP_Primary ip\<rparr>
                 in if NIP_PodID v = [] then v\<lparr>NIP_PodID := NIP_PodID ip, NIP_PodUID := NIP_PodUID ip\<rparr> else v) inp
      | None \<Rightarrow> AList.update (NIP_IP ip) ip inp)"

definition not_enough :: "node_err \<Rightarrow> bool" where
  "not_enough err = code_is err [''InvalidVSwitchId.IpNotEnough'', ''QuotaExceeded.PrivateIpAddress'']"

definition createENI :: "('w, 'c) nctx \<Rightarrow> eniOptions \<Rightarrow> ('w, 'c) nst \<Rightarrow> node_err option \<times> ('w, 'c) nst" where
  "createENI x opt s =
     (case map_of EniOptions (EO_eniTypeKey opt) of
        None \<Rightarrow> (Some (NOther ''failed to find eni type''), s)
      | Some typeOption \<Rightarrow>
          (case GetOne (X_lru x) (X_vpc x) (X_shuffle x) (X_sortSwitches x) (NM_ZoneID (X_meta x)) (ES_VSwitchOptions (X_spec x))
                  [\<lparr>SO_IgnoreZone = False, SO_VSwitchSelectPolicy = Some (ES_VSwitchSelectPolicy (X_spec x))\<rparr>] (N_c s) of
             (Inr _, c) \<Rightarrow> (Some NNoVSwitch, s\<lparr>N_c := c\<rparr>)
           | (Inl vsw, c) \<Rightarrow>
               (let s = s\<lparr>N_c := c\<rparr>;
                    tags = AList.update ''creator'' ''terway'' (ES_Tag (X_spec x));
                    ipv4PrefixCount = EO_addIPv4PrefixN opt;
                    ipv6PrefixCount = EO_addIPv6PrefixN opt;
                    ipv4Count = (if ipv4PrefixCount > 0 then 0 else EO_addIPv4N opt);
                    ipv6Count = (if ipv6PrefixCount > 0 then 0 else EO_addIPv6N opt);
                    createOpts = \<lparr>CO_VSwitchID = Sw_ID vsw, CO_SecurityGroupIDs = ES_SecurityGroupIDs (X_spec x),
                       CO_ResourceGroupID = ES_ResourceGroupID (X_spec x), CO_Tags = tags, CO_IPCount = ipv4Count,
                       CO_IPv6Count = ipv6Count, CO_IPv4PrefixCount = ipv4PrefixCount, CO_IPv6PrefixCount = ipv6PrefixCount,
                       CO_ZoneID = NM_ZoneID (X_meta x), CO_InstanceID = NM_InstanceID (X_meta x)\<rparr>
                in case CreateNetworkInterfaceV2 (X_cloud x) typeOption createOpts (N_w s) of
                     (Inl err, w) \<Rightarrow>
                       (Some err, s\<lparr>N_w := w, N_c := (if not_enough err then Block (X_lru x) (Sw_ID vsw) (N_c s) else N_c s)\<rparr>)
                   | (Inr result, w) \<Rightarrow>
                       (let s = submit x (NI_NetworkInterfaceID result) ipv4Count ipv6Count ipv4PrefixCount ipv6PrefixCount (s\<lparr>N_w := w\<rparr>);
                            networkInterface = zero_Nic\<lparr>Nic_ID := NI_NetworkInterfaceID result, Nic_Status := ENIStatusAttaching,
                              Nic_VSwitchID := Sw_ID vsw, Nic_IPv4CIDR := Sw_IPv4CIDR vsw, Nic_IPv6CIDR := Sw_IPv6CIDR vsw,
                              Nic_NetworkInterfaceType := NI_Type result,
                              Nic_NetworkInterfaceTrafficMode := NI_NetworkInterfaceTrafficMode result,
                              Nic_IPv4Prefix := convertPrefixesToCR (NI_IPv4PrefixSets result),
                              Nic_IPv6Prefix := convertPrefixesToCR (NI_IPv6PrefixSets result)\<rparr>
                        in (None, set_StatusChanged
                              (set_nics (AList.update (NI_NetworkInterfaceID result) networkInterface (N_nics s)) s))))))"

text \<open>The addresses of an answer, or, when the call failed, the named ones that have to be given back.\<close>

definition cr_ip :: "string \<Rightarrow> string \<Rightarrow> IPStatus \<Rightarrow> NodeIP" where
  "cr_ip addr nm st = \<lparr>NIP_IP = addr, NIP_Primary = False, NIP_Status = st, NIP_PodID = [], NIP_PodUID = [], NIP_IPName = nm\<rparr>"

definition add_failed :: "CloudIP list \<Rightarrow> IPMap \<Rightarrow> IPMap" where
  "add_failed result m =
     foldl (\<lambda>m item. if CI_IPName item \<noteq> [] then addIPToMap m (cr_ip [] (CI_IPName item) IPStatusDeleting) else m) m result"

definition add_assigned :: "CloudIP list \<Rightarrow> IPMap \<Rightarrow> IPMap" where
  "add_assigned result m = foldl (\<lambda>m ip. addIPToMap m (cr_ip (CI_IPAddress ip) (CI_IPName ip) IPStatusValid)) m result"

definition ensure_map :: "ipfam \<Rightarrow> Nic \<Rightarrow> Nic" where
  "ensure_map f nic =
     (case f of V4 \<Rightarrow> nic\<lparr>Nic_IPv4 := Some (ips (Nic_IPv4 nic))\<rparr> | V6 \<Rightarrow> nic\<lparr>Nic_IPv6 := Some (ips (Nic_IPv6 nic))\<rparr>)"

text \<open>One of the two halves of \<^verbatim>\<open>assignIP\<close>, for the interface under the key \<open>k\<close>.\<close>

definition assign_fam :: "('w, 'c) nctx \<Rightarrow> ipfam \<Rightarrow> string \<Rightarrow> int \<Rightarrow> ('w, 'c) nst \<Rightarrow> node_err option \<times> ('w, 'c) nst" where
  "assign_fam x f k n s =
     (if n \<le> 0 then (None, s)
      else
        (case map_of (N_nics s) k of
           None \<Rightarrow> (None, s)
         | Some nic \<Rightarrow>
             (let s = set_nics (gm_adjust k (ensure_map f) (N_nics s)) s;
                  ((result, err), w) = (case f of V4 \<Rightarrow> AssignPrivateIPAddressV2 (X_cloud x) (Nic_ID nic) n 0 (N_w s)
                                               | V6 \<Rightarrow> AssignIpv6AddressesV2 (X_cloud x) (Nic_ID nic) n 0 (N_w s));
                  s = s\<lparr>N_w := w\<rparr>
              in case err of
                   Some e \<Rightarrow>
                     (let s = (if not_enough e then s\<lparr>N_c := Block (X_lru x) (Nic_VSwitchID nic) (N_c s)\<rparr> else s)
                      in (Some e, set_nics (gm_adjust k (nic_write f (add_failed result)) (N_nics s)) s))
                 | None \<Rightarrow>
                     (let s = set_StatusChanged (set_nics (gm_adjust k (nic_write f (add_assigned result)) (N_nics s)) s)
                      in (None, if f = V6 \<and> ES_EnableIPv4 (X_spec x) then s
                                else s\<lparr>N_status := warm_up_count (int (length result)) (N_status s)\<rparr>)))))"

definition assignIP :: "('w, 'c) nctx \<Rightarrow> string \<Rightarrow> eniOptions \<Rightarrow> ('w, 'c) nst \<Rightarrow> node_err option \<times> ('w, 'c) nst" where
  "assignIP x k opt s =
     (case assign_fam x V4 k (EO_addIPv4N opt) s of
        (Some e, s) \<Rightarrow> (Some e, s)
      | (None, s) \<Rightarrow> assign_fam x V6 k (EO_addIPv6N opt) s)"

text \<open>The options for which a goroutine is started, by their place in the list.\<close>

fun select_jobs :: "int \<Rightarrow> int \<Rightarrow> nat \<Rightarrow> int \<Rightarrow> int \<Rightarrow> eniOptions list \<Rightarrow> nat list" where
  "select_jobs createBatchSize availableSlots i inFlight newENICreateCount [] = []"
| "select_jobs createBatchSize availableSlots i inFlight newENICreateCount (opt # opts) =
     (if EO_addIPv6N opt \<le> 0 \<and> EO_addIPv4N opt \<le> 0 \<and> EO_addIPv4PrefixN opt \<le> 0 \<and> EO_addIPv6PrefixN opt \<le> 0
      then select_jobs createBatchSize availableSlots (Suc i) inFlight newENICreateCount opts
      else if inFlight \<ge> createBatchSize then select_jobs createBatchSize availableSlots (Suc i) inFlight newENICreateCount opts
      else if EO_eniRef opt = None then
        (if newENICreateCount \<ge> availableSlots then select_jobs createBatchSize availableSlots (Suc i) inFlight newENICreateCount opts
         else i # select_jobs createBatchSize availableSlots (Suc i) (inFlight + 1) (newENICreateCount + 1) opts)
      else i # select_jobs createBatchSize availableSlots (Suc i) (inFlight + 1) newENICreateCount opts)"

definition quota_error :: "node_err \<Rightarrow> bool" where
  "quota_error err \<longleftrightarrow>
     code_is err [''EniPerInstanceLimitExceeded'', ''InvalidOperation.Ipv4CountExceeded'', ''InvalidOperation.Ipv6CountExceeded''] \<or>
     err = NEflo 1013"

definition run_job ::
  "('w, 'c) nctx \<Rightarrow> eniOptions list \<times> node_err list \<times> ('w, 'c) nst \<Rightarrow> nat \<Rightarrow> eniOptions list \<times> node_err list \<times> ('w, 'c) nst" where
  "run_job x acc i =
     (case acc of (opts, errs, s) \<Rightarrow>
        (let opt = opts ! i;
             (err, s) = (case EO_eniRef opt of None \<Rightarrow> createENI x opt s | Some k \<Rightarrow> assignIP x k opt s)
         in case err of
              None \<Rightarrow> (opts, errs, s)
            | Some e \<Rightarrow> (opts[i := opt\<lparr>EO_errors := EO_errors opt @ [e]\<rparr>], errs @ [e],
                         if quota_error e then set_NeedSyncOpenAPI True s else s)))"

definition efloMaxConcurrentAttach :: int where
  "efloMaxConcurrentAttach = 2"

definition allocateFromOptions ::
  "('w, 'c) nctx \<Rightarrow> eniOptions list \<Rightarrow> ('w, 'c) nst \<Rightarrow> eniOptions list \<times> node_err list \<times> ('w, 'c) nst" where
  "allocateFromOptions x opts s =
     (let createBatchSize = (if isEFLO (X_backend x) then efloMaxConcurrentAttach else min (X_eniBatchSize x) 1);
          currentAttachingCount = GetAttachingCount (X_name x) (N_queue s);
          availableSlots = max 0 (createBatchSize - currentAttachingCount);
          jobs = select_jobs createBatchSize availableSlots 0 0 0 opts;
          s = (if jobs = [] then s else s\<lparr>N_status := (N_status s)\<lparr>St_LastModifiedTime := X_now x\<rparr>\<rparr>)
      in foldl (run_job x) (opts, [], s) (X_sched x jobs))"

subsection \<open>Cleaning up\<close>

definition deleting_ips :: "(string list \<Rightarrow> string list) \<Rightarrow> IPMap \<Rightarrow> CloudIP list" where
  "deleting_ips ord m =
     map (\<lambda>(k, ip). \<lparr>CI_Primary = False, CI_IPAddress = NIP_IP ip, CI_IPName = NIP_IPName ip, CI_IPStatus = [], CI_Prefix = []\<rparr>)
       (filter (\<lambda>(k, ip). NIP_Status ip = IPStatusDeleting) (range_list ord m))"

definition deleting_prefixes :: "IPPrefix list \<Rightarrow> CloudIP list" where
  "deleting_prefixes ps =
     map (\<lambda>p. \<lparr>CI_Primary = False, CI_IPAddress = [], CI_IPName = [], CI_IPStatus = [], CI_Prefix = PX_Prefix p\<rparr>)
       (filter (\<lambda>p. PX_Status p = IPPrefixStatusDeleting) ps)"

text \<open>A call that gives addresses or prefixes back, left out when there are none; false means it failed.\<close>

definition unassign_step ::
  "(string \<Rightarrow> CloudIP list \<Rightarrow> 'w \<Rightarrow> node_err option \<times> 'w) \<Rightarrow> bool \<Rightarrow> string \<Rightarrow> CloudIP list \<Rightarrow> ('w, 'c) nst \<Rightarrow> bool \<times> ('w, 'c) nst" where
  "unassign_step api prefixes eniID xs s =
     (if xs = [] then (True, s)
      else
        (case api eniID xs (N_w s) of
           (Some e, w) \<Rightarrow> (False, s\<lparr>N_w := w\<rparr>)
         | (None, w) \<Rightarrow>
             (let s = set_StatusChanged (s\<lparr>N_w := w\<rparr>)
              in (True, if prefixes then set_NeedSyncOpenAPI True s else s))))"

definition delete_gone :: "IPMap \<Rightarrow> CloudIP list \<Rightarrow> IPMap \<Rightarrow> IPMap" where
  "delete_gone remote xs m = filter (\<lambda>(k, v). \<not> (list_ex (\<lambda>ip. CI_IPAddress ip = k) xs \<and> map_of remote k = None)) m"

text \<open>The poll of the cloud until the addresses are gone, at most so often as the backoff has steps.\<close>

fun waitIPGone :: "('w, 'c) nctx \<Rightarrow> nat \<Rightarrow> string \<Rightarrow> string \<Rightarrow> CloudIP list \<Rightarrow> CloudIP list \<Rightarrow> ('w, 'c) nst \<Rightarrow> ('w, 'c) nst" where
  "waitIPGone x 0 k eniID ipv4 ipv6 s = s"
| "waitIPGone x (Suc steps) k eniID ipv4 ipv6 s =
     (if ipv4 = [] \<and> ipv6 = [] then s
      else
        (case DescribeNetworkInterfaceV2 (X_cloud x) None (Some [eniID]) [] (N_w s) of
           (Inl e, w) \<Rightarrow> s\<lparr>N_w := w\<rparr>
         | (Inr [], w) \<Rightarrow> s\<lparr>N_w := w\<rparr>
         | (Inr (r # rs), w) \<Rightarrow>
             (let ipv4Set = convertIPSet (NI_PrivateIPSets r);
                  ipv6Set = convertIPSet (NI_IPv6Set r);
                  s = set_nics (gm_adjust k (\<lambda>nic. nic_write V6 (delete_gone ipv6Set ipv6)
                                                     (nic_write V4 (delete_gone ipv4Set ipv4) nic)) (N_nics s)) (s\<lparr>N_w := w\<rparr>);
                  unfinished = (list_ex (\<lambda>ip. map_of ipv4Set (CI_IPAddress ip) \<noteq> None) ipv4 \<or>
                                list_ex (\<lambda>ip. map_of ipv6Set (CI_IPAddress ip) \<noteq> None) ipv6)
              in if unfinished then waitIPGone x steps k eniID ipv4 ipv6 s else s)))"

definition handle_inuse :: "('w, 'c) nctx \<Rightarrow> string \<Rightarrow> Nic \<Rightarrow> ('w, 'c) nst \<Rightarrow> ('w, 'c) nst" where
  "handle_inuse x k eni s =
     (let n = nat (batchSize (X_backend x));
          ipv4s = take n (deleting_ips (X_ord x (''v4'' @ k)) (ips (Nic_IPv4 eni)));
          ipv6s = take n (deleting_ips (X_ord x (''v6'' @ k)) (ips (Nic_IPv6 eni)));
          ipv4Prefixes = take n (deleting_prefixes (Nic_IPv4Prefix eni));
          ipv6Prefixes = take n (deleting_prefixes (Nic_IPv6Prefix eni))
      in case unassign_step (UnAssignPrivateIPAddressesV2 (X_cloud x)) False (Nic_ID eni) ipv4s s of
           (False, s) \<Rightarrow> s
         | (True, s) \<Rightarrow>
             (case unassign_step (UnAssignIpv6AddressesV2 (X_cloud x)) False (Nic_ID eni) ipv6s s of
                (False, s) \<Rightarrow> s
              | (True, s) \<Rightarrow>
                  (case unassign_step (UnAssignPrivateIPAddressesV2 (X_cloud x)) True (Nic_ID eni) ipv4Prefixes s of
                     (False, s) \<Rightarrow> s
                   | (True, s) \<Rightarrow>
                       (case unassign_step (UnAssignIpv6AddressesV2 (X_cloud x)) True (Nic_ID eni) ipv6Prefixes s of
                          (False, s) \<Rightarrow> s
                        | (True, s) \<Rightarrow> waitIPGone x (X_waitSteps x) k (Nic_ID eni) ipv4s ipv6s s))))"

definition delete_eni :: "('w, 'c) nctx \<Rightarrow> Nic \<Rightarrow> ('w, 'c) nst \<Rightarrow> ('w, 'c) nst" where
  "delete_eni x eni s =
     (case DeleteNetworkInterfaceV2 (X_cloud x) (Nic_ID eni) (N_w s) of
        (Some e, w) \<Rightarrow> s\<lparr>N_w := w\<rparr>
      | (None, w) \<Rightarrow> set_nics (AList.delete (Nic_ID eni) (N_nics s)) (set_StatusChanged (s\<lparr>N_w := w\<rparr>)))"

definition handle_eni :: "('w, 'c) nctx \<Rightarrow> ('w, 'c) nst \<Rightarrow> string \<Rightarrow> ('w, 'c) nst" where
  "handle_eni x s k =
     (case map_of (N_nics s) k of
        None \<Rightarrow> s
      | Some eni \<Rightarrow>
          if Nic_Unschedulable eni then s
          else if leni_failed (Nic_Status eni) then
            (if \<not> isEFLO (X_backend x) then s
             else set_nics (gm_adjust k (\<lambda>nic. nic\<lparr>Nic_Status := ENIStatusDeleting\<rparr>) (N_nics s)) s)
          else if Nic_Status eni = ENIStatusDeleting \<or> Nic_Status eni = ENIStatusDetaching then
            (if \<not> isEFLO (X_backend x) then
               (case DetachNetworkInterface (X_cloud x) (Nic_ID eni) (NM_InstanceID (X_meta x)) (N_w s) of
                  (Some e, w) \<Rightarrow> s\<lparr>N_w := w\<rparr>
                | (None, w) \<Rightarrow>
                    (case WaitForNetworkInterfaceV2 (X_cloud x) (Nic_ID eni) ENIStatusAvailable w of
                       (Some e, w) \<Rightarrow> if e \<noteq> NNotFound then s\<lparr>N_w := w\<rparr> else delete_eni x eni (s\<lparr>N_w := w\<rparr>)
                     | (None, w) \<Rightarrow> delete_eni x eni (s\<lparr>N_w := w\<rparr>)))
             else delete_eni x eni s)
          else if Nic_Status eni = ENIStatusInUse then handle_inuse x k eni s
          else s)"

definition handleStatus :: "('w, 'c) nctx \<Rightarrow> ('w, 'c) nst \<Rightarrow> ('w, 'c) nst" where
  "handleStatus x s = foldl (handle_eni x) s (X_ord x ''handleStatus'' (keys (N_nics s)))"

end
