(* ===== verification/NodeReconcile.thy ===== *)
theory NodeReconcile
  imports NodeCloud
begin

section \<open>One run of the node reconciler (pkg/controller/multi-ip/node/pool.go)\<close>

text \<open>
  The prefixes of the interfaces, and the composition: \<^verbatim>\<open>addIP\<close>, \<^verbatim>\<open>syncPods\<close> and \<^verbatim>\<open>Reconcile\<close>. The
  loop that asks the cloud for prefixes is a partial function: a run that never returned would have
  the value \<open>None\<close>. A run that dereferences a nil pointer is \<open>Panic\<close>.
\<close>

subsection \<open>Prefixes\<close>

definition got_prefixes :: "CloudIP list \<Rightarrow> IPPrefix list" where
  "got_prefixes result = map (\<lambda>ip. valid_prefix (CI_Prefix ip)) (filter (\<lambda>ip. CI_Prefix ip \<noteq> []) result)"

partial_function (option) assign_prefix_loop ::
  "(int \<Rightarrow> 'w \<Rightarrow> (CloudIP list \<times> node_err option) \<times> 'w) \<Rightarrow> int \<Rightarrow> IPPrefix list \<Rightarrow> bool \<Rightarrow> 'w \<Rightarrow>
   (node_err option \<times> IPPrefix list \<times> bool \<times> 'w) option" where
  "assign_prefix_loop api remaining ps changed w =
     (if remaining > 0 then
        (let batch = min remaining maxPrefixPerAPICall
         in case api batch w of
              ((result, Some e), w) \<Rightarrow> Some (Some e, ps, changed, w)
            | ((result, None), w) \<Rightarrow> assign_prefix_loop api (remaining - batch) (ps @ got_prefixes result) True w)
      else Some (None, ps, changed, w))"

declare assign_prefix_loop.simps [code]

definition assign_prefix ::
  "('w, 'c) nctx \<Rightarrow> ipfam \<Rightarrow> string \<Rightarrow> Nic \<Rightarrow> int \<Rightarrow> ('w, 'c) nst \<Rightarrow> (node_err option \<times> ('w, 'c) nst) option" where
  "assign_prefix x f k eni n s =
     (case assign_prefix_loop
             (case f of V4 \<Rightarrow> (\<lambda>batch. AssignPrivateIPAddressV2 (X_cloud x) (Nic_ID eni) 0 batch)
                     | V6 \<Rightarrow> (\<lambda>batch. AssignIpv6AddressesV2 (X_cloud x) (Nic_ID eni) 0 batch))
             n (case f of V4 \<Rightarrow> Nic_IPv4Prefix eni | V6 \<Rightarrow> Nic_IPv6Prefix eni) False (N_w s) of
        None \<Rightarrow> None
      | Some (err, ps, changed, w) \<Rightarrow>
          (let s = set_nics (gm_adjust k (\<lambda>nic. case f of V4 \<Rightarrow> nic\<lparr>Nic_IPv4Prefix := ps\<rparr> | V6 \<Rightarrow> nic\<lparr>Nic_IPv6Prefix := ps\<rparr>) (N_nics s))
                     (s\<lparr>N_w := w\<rparr>)
           in Some (err, if changed then set_StatusChanged s else s)))"

definition assignIPv4Prefix ::
  "('w, 'c) nctx \<Rightarrow> string \<Rightarrow> Nic \<Rightarrow> int \<Rightarrow> ('w, 'c) nst \<Rightarrow> (node_err option \<times> ('w, 'c) nst) option" where
  "assignIPv4Prefix x = assign_prefix x V4"

definition assignIPv6Prefix ::
  "('w, 'c) nctx \<Rightarrow> string \<Rightarrow> Nic \<Rightarrow> int \<Rightarrow> ('w, 'c) nst \<Rightarrow> (node_err option \<times> ('w, 'c) nst) option" where
  "assignIPv6Prefix x = assign_prefix x V6"

text \<open>The two calls for one interface; the demand of a family goes down only when its call succeeds.\<close>

definition prefixes_v4 ::
  "('w, 'c) nctx \<Rightarrow> string \<Rightarrow> Nic \<Rightarrow> int \<Rightarrow> node_err list \<Rightarrow> ('w, 'c) nst \<Rightarrow> (int \<times> node_err list \<times> ('w, 'c) nst) option" where
  "prefixes_v4 x k eni d4 errs s =
     (let freeSlots = Cap_IPv4PerAdapter (X_cap x) - (int (length (ips (Nic_IPv4 eni))) + int (length (Nic_IPv4Prefix eni)))
      in if d4 > 0 \<and> freeSlots > 0 then
           (let toAddV4 = min d4 freeSlots
            in case assignIPv4Prefix x k eni toAddV4 s of
                 None \<Rightarrow> None
               | Some (Some e, s) \<Rightarrow> Some (d4, errs @ [e], s)
               | Some (None, s) \<Rightarrow> Some (d4 - toAddV4, errs, s))
         else Some (d4, errs, s))"

definition prefixes_v6 ::
  "('w, 'c) nctx \<Rightarrow> string \<Rightarrow> Nic \<Rightarrow> int \<Rightarrow> node_err list \<Rightarrow> ('w, 'c) nst \<Rightarrow> (int \<times> node_err list \<times> ('w, 'c) nst) option" where
  "prefixes_v6 x k eni d6 errs s =
     (if ES_EnableIPv4 (X_spec x) \<and> ES_EnableIPv6 (X_spec x) then
        (if countOccupiedPrefixes (Nic_IPv6Prefix eni) = 0 \<and> countOccupiedPrefixes (Nic_IPv4Prefix eni) > 0 then
           (case assignIPv6Prefix x k eni 1 s of
              None \<Rightarrow> None
            | Some (Some e, s) \<Rightarrow> Some (d6, errs @ [e], s)
            | Some (None, s) \<Rightarrow> Some (d6, errs, s))
         else Some (d6, errs, s))
      else if ES_EnableIPv6 (X_spec x) \<and> d6 > 0 \<and> countOccupiedPrefixes (Nic_IPv6Prefix eni) = 0 then
        (case assignIPv6Prefix x k eni 1 s of
           None \<Rightarrow> None
         | Some (Some e, s) \<Rightarrow> Some (d6, errs @ [e], s)
         | Some (None, s) \<Rightarrow> Some (d6 - 1, errs, s))
      else Some (d6, errs, s))"

fun sync_prefixes ::
  "('w, 'c) nctx \<Rightarrow> string list \<Rightarrow> int \<Rightarrow> int \<Rightarrow> node_err list \<Rightarrow> ('w, 'c) nst \<Rightarrow> (node_err list \<times> ('w, 'c) nst) option" where
  "sync_prefixes x [] d4 d6 errs s = Some (errs, s)"
| "sync_prefixes x (k # ks) d4 d6 errs s =
     (case map_of (N_nics s) k of
        None \<Rightarrow> sync_prefixes x ks d4 d6 errs s
      | Some eni \<Rightarrow>
          if Nic_Status eni \<noteq> ENIStatusInUse then sync_prefixes x ks d4 d6 errs s
          else if Nic_Unschedulable eni then sync_prefixes x ks d4 d6 errs s
          else
            (case prefixes_v4 x k eni d4 errs s of
               None \<Rightarrow> None
             | Some (d4, errs, s) \<Rightarrow>
                 (let eni = (case map_of (N_nics s) k of None \<Rightarrow> eni | Some eni \<Rightarrow> eni)
                  in case prefixes_v6 x k eni d6 errs s of
                       None \<Rightarrow> None
                     | Some (d6, errs, s) \<Rightarrow> sync_prefixes x ks d4 d6 errs s)))"

definition occupied :: "ipfam \<Rightarrow> Nics \<Rightarrow> int" where
  "occupied f nics =
     sum_list (map (\<lambda>(k, eni).
       if Nic_Unschedulable eni then 0
       else if Nic_Status eni = ENIStatusInUse \<or> Nic_Status eni = ENIStatusAttaching
       then countOccupiedPrefixes (case f of V4 \<Rightarrow> Nic_IPv4Prefix eni | V6 \<Rightarrow> Nic_IPv6Prefix eni)
       else 0) nics)"

definition syncPrefixAllocation :: "('w, 'c) nctx \<Rightarrow> ('w, 'c) nst \<Rightarrow> (node_err list \<times> ('w, 'c) nst) option" where
  "syncPrefixAllocation x s =
     (let isDualStack = (ES_EnableIPv4 (X_spec x) \<and> ES_EnableIPv6 (X_spec x));
          totalDesiredV6Prefixes = (if \<not> isDualStack then ES_IPv6PrefixCount (X_spec x) else 0);
          remainingV4Demand = max 0 (ES_IPv4PrefixCount (X_spec x) - occupied V4 (N_nics s));
          remainingV6Demand = max 0 (totalDesiredV6Prefixes - occupied V6 (N_nics s))
      in sync_prefixes x (X_ord x ''syncPrefixAllocation'' (keys (N_nics s))) remainingV4Demand remainingV6Demand [] s)"

subsection \<open>Adding addresses\<close>

definition addIP ::
  "('w, 'c) nctx \<Rightarrow> PodRequest list \<Rightarrow> ('w, 'c) nst \<Rightarrow> node_err list \<times> ('w, 'c) nst" where
  "addIP x unSucceedPods s =
     (let s = syncTaskQueueStatus x s
      in if X_degradation x = DegradationL0 then ([], s)
         else
           (let spec = X_spec x;
                nics = N_nics s;
                options = getEniOptions (X_ord x ''getEniOptions'') spec (X_flavors x) nics;
                demand = allocationDemand spec (X_pool x) (N_status s) nics unSucceedPods;
                (options, c) = assignEniWithOptions (X_backend x) (X_cap x) spec nics (N_queue s)
                   (validateENI (X_lru x) (X_vpc x) [secondaryKey, trunkKey] (ES_EnableIPv4 spec) nics) demand options (N_c s);
                (options, c) = assignEniWithOptions (X_backend x) (X_cap x) spec nics (N_queue s)
                   (validateENI (X_lru x) (X_vpc x) [rdmaKey] (ES_EnableIPv4 spec) nics) (rdmaDemand unSucceedPods) options c;
                (options, errs, s) = allocateFromOptions x options (s\<lparr>N_c := c\<rparr>);
                s = (case updateNodeCondition (X_now x) (X_k8sNode x) spec (N_nics s) options of
                       None \<Rightarrow> s
                     | Some cond \<Rightarrow> s\<lparr>N_patched := N_patched s @ [cond]\<rparr>)
            in (errs, set_nics (updateCrCondition (X_aggregate x) (X_now x) options (N_nics s)) s)))"

subsection \<open>All the steps for the pods of a node\<close>

definition ipam_of :: "(string, PodRequest) gomap \<Rightarrow> ('w, 'c) nst \<Rightarrow> ipam_st" where
  "ipam_of pods s = \<lparr>IS_nics = N_nics s, IS_pods = pods, IS_LastModifiedTime = St_LastModifiedTime (N_status s)\<rparr>"

definition put_ipam :: "ipam_st \<Rightarrow> ('w, 'c) nst \<Rightarrow> ('w, 'c) nst" where
  "put_ipam st s = s\<lparr>N_status := (N_status s)\<lparr>St_NetworkInterfaces := IS_nics st, St_LastModifiedTime := IS_LastModifiedTime st\<rparr>\<rparr>"

definition sync_prefix_mode ::
  "('w, 'c) nctx \<Rightarrow> (string, PodRequest) gomap \<Rightarrow> ('w, 'c) nst \<Rightarrow> (node_err list \<times> ('w, 'c) nst) option" where
  "sync_prefix_mode x pods s =
     (let (ipv4Map, ipv6Map, st) = buildIPMap (X_ord x ''enis'') (X_ord x ''ips'') (ipam_of pods s);
          st = releasePodNotFound (X_ordS x) (X_runtime x) (X_daemonRuntime x) ipv4Map ipv6Map st;
          s = put_ipam st s;
          options = assignEniPrefixWithOptions (X_cap x) (X_spec x) (N_nics s) (N_queue s)
                      (getEniOptions (X_ord x ''getEniOptions'') (X_spec x) (X_flavors x) (N_nics s));
          (options, errs, s) = allocateFromOptions x options s;
          s = syncTaskQueueStatus x s;
          (nics, changed) = processFrozenExpireAt (X_now x) (N_nics s);
          s = set_nics nics s;
          s = (if changed then set_StatusChanged s else s)
      in case syncPrefixAllocation x s of
           None \<Rightarrow> None
         | Some (errs', s) \<Rightarrow> Some (errs @ errs', handleStatus x s))"

definition syncPods ::
  "('w, 'c) nctx \<Rightarrow> bool \<Rightarrow> (string, PodRequest) gomap \<Rightarrow> ('w, 'c) nst \<Rightarrow> (node_err list \<times> ('w, 'c) nst) go option" where
  "syncPods x prefixMode pods s =
     (if prefixMode then map_option Ret (sync_prefix_mode x pods s)
      else
        (let (ipv4Map, ipv6Map, st) = buildIPMap (X_ord x ''enis'') (X_ord x ''ips'') (ipam_of pods s);
             st = releasePodNotFound (X_ordS x) (X_runtime x) (X_daemonRuntime x) ipv4Map ipv6Map st;
             (st, unSucceed) = assignIPFromLocalPool (X_now x) (\<lambda>p. X_ord x (''v4'' @ p)) (\<lambda>p. X_ord x (''v6'' @ p)) ipv4Map ipv6Map st;
             (errs, s) = addIP x (List.map_filter (map_of (IS_pods st)) unSucceed) (put_ipam st s);
             (ipv4Map, ipv6Map, st) = buildIPMap (X_ord x ''enis2'') (X_ord x ''ips2'') (ipam_of (IS_pods st) s);
             (st, _) = assignIPFromLocalPool (X_now x) (\<lambda>p. X_ord x (''w4'' @ p)) (\<lambda>p. X_ord x (''w6'' @ p)) ipv4Map ipv6Map st;
             s = handleStatus x (put_ipam st s);
             s = s\<lparr>N_status := checkWarmUpCompletion (N_status s)\<rparr>
         in case adjustPool (X_ord x ''adjustPool'') (\<lambda>k. X_ord x (''a4'' @ k)) (\<lambda>k. X_ord x (''a6'' @ k)) (X_parse x) (X_reclaimJitter x)
                   (X_gcPeriod x) (X_now x) (X_degradation x) (X_spec x) (X_pool x) (M_LastGCTime (N_meta s)) (N_status s) of
              Panic \<Rightarrow> Some Panic
            | Ret (status, lastGC) \<Rightarrow> Some (Ret (errs, s\<lparr>N_status := status, N_meta := (N_meta s)\<lparr>M_LastGCTime := lastGC\<rparr>\<rparr>))))"

subsection \<open>The reconciler\<close>

text \<open>What the checks at the start say of a node: nothing to do, not supported, or run with a backend.\<close>

datatype node_check = Skip | Unsupported | Run BackendAPI

definition to_lower :: "string \<Rightarrow> string" where
  "to_lower str = map (\<lambda>c. if 65 \<le> (of_char c :: nat) \<and> (of_char c :: nat) \<le> 90 then char_of ((of_char c :: nat) + 32) else c) str"

definition label_value :: "string \<Rightarrow> (string, string) gomap \<Rightarrow> string" where
  "label_value k m = (case map_of m k of None \<Rightarrow> [] | Some v \<Rightarrow> v)"

definition ExclusiveENIOnly :: "(string, string) gomap \<Rightarrow> bool" where
  "ExclusiveENIOnly lbls \<longleftrightarrow> to_lower (label_value ''k8s.aliyun.com/exclusive-mode-eni-type'' lbls) = to_lower ''eniOnly''"

definition ISLingJunNode :: "(string, string) gomap \<Rightarrow> bool" where
  "ISLingJunNode lb \<longleftrightarrow> label_value ''alibabacloud.com/lingjun-worker'' lb = ''true''"

definition check_node :: "Node \<Rightarrow> node_check" where
  "check_node node =
     (let spec = Node_Spec node; md = NS_NodeMetadata spec
      in if NM_InstanceID md = [] \<or> NM_InstanceType md = [] \<or> NM_RegionID md = [] \<or> NM_ZoneID md = [] \<or>
            NS_ENISpec spec = None \<or> NS_Pool spec = None \<or> Cap_Adapters (NS_NodeCap spec) = 0 then Skip
         else if ExclusiveENIOnly (Node_Labels node) then Skip
         else if ISLingJunNode (Node_Labels node) then
           (let api = label_value ''k8s.aliyun.com/eno-api'' (Node_Annotations node)
            in if api = ''ecs'' then Run BackendAPIECS
               else if api = ''ecs-hdeni'' \<or> api = ''hdeni'' then Unsupported
               else Run BackendAPIEFLO)
         else Run BackendAPIECS)"

definition new_meta :: Meta where
  "new_meta = \<lparr>M_NeedSyncOpenAPI = False, M_StatusChanged = False, M_LastGCTime = 0, M_LastReconcileTime = 0, M_ProcessedTaskIDs = []\<rparr>"

definition sync_due :: "time \<Rightarrow> (string, PodRequest) gomap \<Rightarrow> NodeStatus \<Rightarrow> bool" where
  "sync_due now pods status =
     (if pods \<noteq> [] \<and> St_NetworkInterfaces status = [] then True else St_NextSyncOpenAPITime status < now)"

text \<open>The body for a node that passed the checks: the state after \<^verbatim>\<open>syncWithAPI\<close> and \<^verbatim>\<open>syncPods\<close>, and their errors.\<close>

definition run_node ::
  "('w, 'c) nctx \<Rightarrow> bool \<Rightarrow> (string, PodRequest) gomap \<Rightarrow> ('w, 'c) nst \<Rightarrow> (node_err list \<times> ('w, 'c) nst) go option" where
  "run_node x prefixMode pods s =
     (let s = (if sync_due (X_now x) pods (N_status s) then set_NeedSyncOpenAPI True s else s);
          s = s\<lparr>N_status := initializeWarmUp (Some (X_pool x)) (N_status s)\<rparr>;
          s = ensureAsyncTasks x s;
          (err, s) = syncWithAPI x s;
          errs = (case err of None \<Rightarrow> [] | Some e \<Rightarrow> [e])
      in case syncPods x prefixMode pods s of
           None \<Rightarrow> None
         | Some Panic \<Rightarrow> Some Panic
         | Some (Ret (errs', s)) \<Rightarrow> Some (Ret (errs @ errs', s)))"

text \<open>
  The end of a run: a changed status is written, and the tasks it accounts for leave the queue only
  when the write succeeded (\<open>wrote\<close>); when it failed after a change in the cloud, the next run reads
  the cloud again.
\<close>

definition finish_node :: "bool \<Rightarrow> bool \<Rightarrow> ('w, 'c) nst \<Rightarrow> ('w, 'c) nst" where
  "finish_node changed wrote s =
     (if \<not> changed then s
      else if wrote then
        (if M_ProcessedTaskIDs (N_meta s) \<noteq> [] then s\<lparr>N_queue := DeleteTasks (M_ProcessedTaskIDs (N_meta s)) (N_queue s)\<rparr> else s)
      else if M_StatusChanged (N_meta s) then
        s\<lparr>N_meta := (N_meta s)\<lparr>M_StatusChanged := False, M_NeedSyncOpenAPI := True\<rparr>\<rparr>
      else s)"

datatype rec_result = Requeue duration | RecDone | RecError

datatype node_get = NodeFound Node | NodeNotFound | NodeGetError

datatype node_write = NoWrite | WriteStatus NodeStatus | PatchFinalizers "string list"

abbreviation node_finalizer :: string where
  "node_finalizer \<equiv> ''network.alibabacloud.com/node-controller''"

text \<open>
  A run, with the node and the pods as the API server gives them (no list if it fails), and what the
  controller remembers of the node. \<open>same\<close> compares two statuses, \<open>wrote\<close> says whether the write
  succeeds. The result has what is written, and what is remembered.
\<close>

definition Reconcile ::
  "('w, 'c) nctx \<Rightarrow> (NodeStatus \<Rightarrow> NodeStatus \<Rightarrow> bool) \<Rightarrow> bool \<Rightarrow> node_get \<Rightarrow> K8sPod list option \<Rightarrow> Meta option \<Rightarrow> ('w, 'c) nst \<Rightarrow>
   (rec_result \<times> node_write \<times> Meta option \<times> ('w, 'c) nst) go option" where
  "Reconcile x same wrote got podList prev s =
     (case got of
        NodeNotFound \<Rightarrow> Some (Ret (RecDone, NoWrite, None, s))
      | NodeGetError \<Rightarrow> Some (Ret (RecError, NoWrite, prev, s))
      | NodeFound node \<Rightarrow>
          if Node_DeletionTimestamp node \<noteq> 0 then
            (let s = s\<lparr>N_queue := RemoveTasks (Node_Name node) (N_queue s)\<rparr>
             in if node_finalizer \<in> set (Node_Finalizers node) then
                  Some (Ret (if wrote then RecDone else RecError,
                             PatchFinalizers (filter (\<lambda>f. f \<noteq> node_finalizer) (Node_Finalizers node)), None, s))
                else Some (Ret (RecDone, NoWrite, None, s)))
          else
            (case (check_node node, NS_ENISpec (Node_Spec node), NS_Pool (Node_Spec node)) of
               (Run backend, Some spec, Some pool) \<Rightarrow>
                 (let meta = (case prev of None \<Rightarrow> new_meta | Some m \<Rightarrow> m)\<lparr>M_ProcessedTaskIDs := []\<rparr>;
                      s = s\<lparr>N_status := Node_Status node, N_meta := meta\<rparr>;
                      x = x\<lparr>X_backend := backend, X_name := Node_Name node, X_meta := NS_NodeMetadata (Node_Spec node),
                            X_cap := NS_NodeCap (Node_Spec node), X_spec := spec, X_pool := pool,
                            X_flavors := NS_Flavor (Node_Spec node)\<rparr>;
                      answer = (\<lambda>r w s. Some (Ret (r, w, Some ((N_meta s)\<lparr>M_LastReconcileTime := X_now x\<rparr>), s)))
                  in if X_now x < M_LastReconcileTime meta + 1 * second
                     then Some (Ret (Requeue (1 * second), NoWrite, map_option (\<lambda>_. meta) prev, s))
                     else
                       (case (case podList of None \<Rightarrow> None | Some pods \<Rightarrow> getPods spec pods []) of
                          None \<Rightarrow> answer RecError NoWrite s
                        | Some pods \<Rightarrow>
                            (case run_node x (isPrefixMode node) pods s of
                               None \<Rightarrow> None
                             | Some Panic \<Rightarrow> Some Panic
                             | Some (Ret (errs, s)) \<Rightarrow>
                                 (let changed = (\<not> same (Node_Status node) (N_status s));
                                      again = requeueAfter (X_parse x) (X_gcPeriod x) (X_now x) pool (N_status s);
                                      s = finish_node changed wrote s
                                  in if changed then
                                       (if wrote then answer (Requeue again) (WriteStatus (N_status s)) s else answer RecError NoWrite s)
                                     else if errs \<noteq> [] then answer RecError NoWrite s
                                     else answer (Requeue again) NoWrite s))))
             | (Unsupported, _, _) \<Rightarrow> Some (Ret (RecError, NoWrite, prev, s))
             | _ \<Rightarrow> Some (Ret (RecDone, NoWrite, prev, s))))"

end
