(* ===== verification/NodeRuns.thy ===== *)
theory NodeRuns
  imports NodeReconcile
begin

section \<open>Runs of the node reconciler: correctness\<close>

text \<open>
  Every run returns; it keeps the Node resource well-formed, whatever the cloud answers; cleaning up
  touches only what was marked for it; and what the cloud reports can be lost on the way into the
  resource.
\<close>

subsection \<open>Every run returns\<close>

text \<open>The sizes of the calls for a number of prefixes.\<close>

function batches :: "int \<Rightarrow> int list" where
  "batches n = (if n > 0 then min n maxPrefixPerAPICall # batches (n - min n maxPrefixPerAPICall) else [])"
  by pat_completeness auto

termination
  by (relation "measure nat") (auto simp: maxPrefixPerAPICall_def)

declare batches.simps [simp del]

fun run_batches ::
  "(int \<Rightarrow> 'w \<Rightarrow> (CloudIP list \<times> node_err option) \<times> 'w) \<Rightarrow> int list \<Rightarrow> IPPrefix list \<Rightarrow> bool \<Rightarrow> 'w \<Rightarrow>
   node_err option \<times> IPPrefix list \<times> bool \<times> 'w" where
  "run_batches api [] ps changed w = (None, ps, changed, w)"
| "run_batches api (b # bs) ps changed w =
     (case api b w of
        ((result, Some e), w) \<Rightarrow> (Some e, ps, changed, w)
      | ((result, None), w) \<Rightarrow> run_batches api bs (ps @ got_prefixes result) True w)"

lemma assign_prefix_loop_batches: "assign_prefix_loop api n ps ch w = Some (run_batches api (batches n) ps ch w)"
proof (induction n arbitrary: ps ch w rule: batches.induct)
  case (1 n)
  show ?case
  proof (cases "n > 0")
    case True
    then show ?thesis using 1 [OF True]
      by (subst assign_prefix_loop.simps, subst batches.simps) (simp add: Let_def split: prod.split option.split)
  next
    case False
    then show ?thesis by (subst assign_prefix_loop.simps, subst batches.simps) simp
  qed
qed

lemma batches_spec:
  "list_all (\<lambda>b. 1 \<le> b \<and> b \<le> maxPrefixPerAPICall) (batches n) \<and> sum_list (batches n) = max 0 n \<and>
   int (length (batches n)) * maxPrefixPerAPICall < max 0 n + maxPrefixPerAPICall"
proof (induction n rule: batches.induct)
  case (1 n)
  show ?case
  proof (cases "n > 0")
    case True
    note ih = 1 [OF True]
    have "batches n = min n maxPrefixPerAPICall # batches (n - min n maxPrefixPerAPICall)" using True by (subst batches.simps) simp
    then show ?thesis using ih True by (simp add: maxPrefixPerAPICall_def min_def max_def split: if_splits)
  next
    case False
    then have "batches n = []" by (subst batches.simps) simp
    then show ?thesis using False by (simp add: maxPrefixPerAPICall_def)
  qed
qed

lemma assign_prefix_returns [simp]: "assign_prefix x f k eni n s \<noteq> None"
  by (simp add: assign_prefix_def assign_prefix_loop_batches Let_def split: prod.split)

lemma prefixes_return [simp]: "prefixes_v4 x k eni d errs s \<noteq> None" "prefixes_v6 x k eni d errs s \<noteq> None"
  by (auto simp: prefixes_v4_def prefixes_v6_def assignIPv4Prefix_def assignIPv6Prefix_def Let_def split: option.split)

lemma sync_prefixes_returns [simp]: "sync_prefixes x ks d4 d6 errs s \<noteq> None"
proof (induction ks arbitrary: d4 d6 errs s)
  case (Cons k ks)
  show ?case using Cons.IH by (auto simp: Let_def split: option.split)
qed simp

lemma syncPods_returns [simp]: "syncPods x m pods s \<noteq> None"
  by (auto simp: syncPods_def sync_prefix_mode_def syncPrefixAllocation_def Let_def split: prod.split option.split go.split)

lemma run_node_returns [simp]: "run_node x m pods s \<noteq> None"
  by (auto simp: run_node_def Let_def split: prod.split option.split go.split)


subsection \<open>Well-formed resources\<close>

text \<open>Every address and every interface is filed under its own name, once.\<close>

definition wf_ips :: "IPMap \<Rightarrow> bool" where
  "wf_ips m \<longleftrightarrow> gm_ok m \<and> (\<forall>k ip. map_of m k = Some ip \<longrightarrow> NIP_IP ip = k)"

definition wf_nic :: "string \<Rightarrow> Nic \<Rightarrow> bool" where
  "wf_nic k nic \<longleftrightarrow> Nic_ID nic = k \<and> wf_ips (ips (Nic_IPv4 nic)) \<and> wf_ips (ips (Nic_IPv6 nic))"

definition wf_nics :: "Nics \<Rightarrow> bool" where
  "wf_nics nics \<longleftrightarrow> gm_ok nics \<and> (\<forall>k nic. map_of nics k = Some nic \<longrightarrow> wf_nic k nic)"

named_theorems wf_intros

lemma wf_ips_Nil [wf_intros]: "wf_ips []"
  by (simp add: wf_ips_def)

lemma wf_ips_update [wf_intros]: "wf_ips m \<Longrightarrow> NIP_IP ip = k \<Longrightarrow> wf_ips (AList.update k ip m)"
  by (simp add: wf_ips_def map_of_update)

lemma wf_ips_adjust [wf_intros]: "wf_ips m \<Longrightarrow> (\<And>ip. NIP_IP (g ip) = NIP_IP ip) \<Longrightarrow> wf_ips (gm_adjust k g m)"
  by (auto simp: wf_ips_def map_of_adjust)

lemma wf_ips_gm_map [wf_intros]: "wf_ips m \<Longrightarrow> (\<And>ip. NIP_IP (g ip) = NIP_IP ip) \<Longrightarrow> wf_ips (gm_map g m)"
  by (auto simp: wf_ips_def map_of_gm_map)

lemma wf_ips_foldl:
  assumes "wf_ips m" and "\<And>m x. wf_ips m \<Longrightarrow> wf_ips (h m x)"
  shows "wf_ips (foldl h m xs)"
  using assms(1) by (induction xs arbitrary: m) (simp_all add: assms(2))

lemma wf_ips_mem:
  "wf_ips m \<longleftrightarrow> gm_ok m \<and> (\<forall>k ip. (k, ip) \<in> set m \<longrightarrow> NIP_IP ip = k)"
  unfolding wf_ips_def by (auto dest: map_of_Some_in gm_okD)

lemma wf_ips_filter [wf_intros]: "wf_ips m \<Longrightarrow> wf_ips (filter P m)"
  by (auto simp: wf_ips_mem gm_ok_filter)

lemma wf_convertIPSet [wf_intros]: "wf_ips (convertIPSet inp)"
  unfolding convertIPSet_def
  by (rule wf_ips_foldl) (auto simp: convertIP_def split: prod.split intro!: wf_intros)

lemma merge_local_keeping: "key_keeping (merge_local remote)"
  by (auto simp: key_keeping_def merge_local_def split: if_splits)

lemma wf_mergeIPMap [wf_intros]:
  assumes "wf_ips remote" and "wf_ips (ips current)"
  shows "wf_ips (ips (mergeIPMap remote current))"
proof (cases current)
  case (Some cur)
  let ?cur = "List.map_filter (merge_local remote) cur"
  have ok: "gm_ok ?cur" using gm_ok_map_filter [OF merge_local_keeping] assms(2) Some by (simp add: wf_ips_def)
  have ip: "NIP_IP ip = k" if "(k, ip) \<in> set ?cur" for k ip
    using that assms(2) Some by (auto simp: map_filter_mem wf_ips_mem merge_local_def split: if_splits)
  have "set (keys ?cur) \<inter> set (keys (filter (\<lambda>(k, v). map_of ?cur k = None) remote)) = {}"
    by (force simp: map_of_None_keys)
  then have "gm_ok (?cur @ filter (\<lambda>(k, v). map_of ?cur k = None) remote)"
    using ok assms(1) by (simp add: gm_ok_append gm_ok_filter wf_ips_def)
  then show ?thesis using Some ip assms(1) by (auto simp: mergeIPMap_def Let_def wf_ips_mem)
qed (simp add: wf_intros)

lemma wf_nic_fields [simp]:
  "wf_nic k (nic\<lparr>Nic_Unschedulable := b\<rparr>) = wf_nic k nic" "wf_nic k (nic\<lparr>Nic_Status := st\<rparr>) = wf_nic k nic"
  "wf_nic k (nic\<lparr>Nic_IPv4Prefix := ps\<rparr>) = wf_nic k nic" "wf_nic k (nic\<lparr>Nic_IPv6Prefix := ps\<rparr>) = wf_nic k nic"
  "wf_nic k (nic\<lparr>Nic_IPv4CIDR := a\<rparr>) = wf_nic k nic" "wf_nic k (nic\<lparr>Nic_IPv6CIDR := a\<rparr>) = wf_nic k nic"
  "wf_nic k (nic\<lparr>Nic_Conditions := cs\<rparr>) = wf_nic k nic"
  by (simp_all add: wf_nic_def)

lemma wf_nicsD: "wf_nics nics \<Longrightarrow> map_of nics k = Some nic \<Longrightarrow> wf_nic k nic"
  by (simp add: wf_nics_def)

lemma wf_nics_adjust [wf_intros]:
  assumes "wf_nics nics" and "\<And>nic. map_of nics k = Some nic \<Longrightarrow> wf_nic k nic \<Longrightarrow> wf_nic k (g nic)"
  shows "wf_nics (gm_adjust k g nics)"
  using assms by (auto simp: wf_nics_def map_of_adjust)

lemma wf_nics_update [wf_intros]: "wf_nics nics \<Longrightarrow> wf_nic k nic \<Longrightarrow> wf_nics (AList.update k nic nics)"
  by (simp add: wf_nics_def map_of_update)

lemma wf_nics_delete [wf_intros]: "wf_nics nics \<Longrightarrow> wf_nics (AList.delete k nics)"
  by (simp add: wf_nics_def map_of_delete)

lemma wf_nics_gm_map [wf_intros]:
  "wf_nics nics \<Longrightarrow> (\<And>k nic. wf_nic k nic \<Longrightarrow> wf_nic k (g nic)) \<Longrightarrow> wf_nics (gm_map g nics)"
  by (auto simp: wf_nics_def map_of_gm_map)

lemma foldl_inv: "P s \<Longrightarrow> (\<And>s x. P s \<Longrightarrow> P (h s x)) \<Longrightarrow> P (foldl h s xs)"
  by (induction xs arbitrary: s) simp_all

lemma wf_nic_write [wf_intros]:
  "wf_nic k nic \<Longrightarrow> (\<And>m. wf_ips m \<Longrightarrow> wf_ips (g m)) \<Longrightarrow> wf_nic k (nic_write f g nic)"
  by (cases f; cases "Nic_IPv4 nic"; cases "Nic_IPv6 nic") (simp_all add: wf_nic_def nic_write_def)

lemma wf_ip_write [wf_intros]:
  "wf_nics nics \<Longrightarrow> (\<And>ip. NIP_IP (g ip) = NIP_IP ip) \<Longrightarrow> wf_nics (ip_write f r g nics)"
  unfolding ip_write_def by (intro wf_intros) auto

text \<open>Reading the cloud.\<close>

lemma wf_sync_remote [wf_intros]: "wf_nic (NI_NetworkInterfaceID item) (sync_remote item)"
  by (simp add: sync_remote_def newENIFromAPI_def wf_nic_def Let_def wf_intros)

lemma wf_merge_eni [wf_intros]: "wf_nic k nic \<Longrightarrow> wf_nic k (merge_eni item nic)"
  using wf_sync_remote [of item] by (simp add: merge_eni_def wf_nic_def Let_def wf_intros)

lemma wf_clearPendingDelete [wf_intros]: "wf_nic k nic \<Longrightarrow> wf_nic k (clearPendingDelete st nic)"
proof -
  have "NIP_IP (undelete_ip ip) = NIP_IP ip" for ip by (simp add: undelete_ip_def)
  then have "wf_ips (ips m) \<Longrightarrow> wf_ips (ips (map_option (gm_map undelete_ip) m))" for m
    by (cases m) (simp_all add: wf_intros)
  then show "wf_nic k nic \<Longrightarrow> wf_nic k (clearPendingDelete st nic)"
    by (simp add: clearPendingDelete_def wf_nic_def Let_def)
qed

lemma wf_mark_blocked [wf_intros]: "wf_nic k nic \<Longrightarrow> wf_nic k (mark_blocked bl erdma item nic)"
  by (simp add: mark_blocked_def Let_def wf_clearPendingDelete)

lemma wf_sync_items:
  assumes "wf_nics nics" and "sync_items lru client items nics c = (ok, nics', c')"
  shows "wf_nics nics'"
  using assms
proof (induction items arbitrary: nics c)
  case (Cons item items)
  show ?case
  proof (cases "map_of nics (NI_NetworkInterfaceID item)")
    case None
    show ?thesis
    proof (cases "GetByID lru client (Nic_VSwitchID (sync_remote item)) c")
      case (Pair v c1)
      have upd: "wf_nics (AList.update (NI_NetworkInterfaceID item) ((sync_remote item)\<lparr>Nic_IPv4CIDR := a, Nic_IPv6CIDR := b\<rparr>) nics)" for a b
        using Cons.prems(1) by (intro wf_nics_update) (simp_all add: wf_sync_remote)
      show ?thesis using Cons.prems None Pair Cons.IH [OF upd] by (cases v) auto
    qed
  next
    case (Some nic)
    have "wf_nics (gm_adjust (NI_NetworkInterfaceID item) (merge_eni item) nics)" using Cons.prems(1) by (intro wf_intros)
    then show ?thesis using Cons.prems(2) Some by (auto intro: Cons.IH)
  qed
qed simp

lemma drop_gone_inv:
  assumes step: "\<And>nics k. P nics \<Longrightarrow> P (AList.delete k nics)"
  shows "P nics \<Longrightarrow> drop_gone cl inst tags ids ks err nics w = (nics', w') \<Longrightarrow> P nics'"
proof (induction cl inst tags ids ks err nics w rule: drop_gone.induct)
  case (2 cl inst tags ids k ks err nics w)
  have del: "P (AList.delete k nics)" using 2 by (intro step)
  show ?case using "2.prems"
    by (auto split: option.splits if_splits prod.splits sum.splits list.splits intro: "2.IH" del)
qed simp

lemma wf_drop_gone:
  "wf_nics nics \<Longrightarrow> drop_gone cl inst tags ids ks err nics w = (nics', w') \<Longrightarrow> wf_nics nics'"
  by (erule drop_gone_inv [rotated]) (auto intro: wf_nics_delete)

abbreviation wf_nst :: "('w, 'c) nst \<Rightarrow> bool" where
  "wf_nst s \<equiv> wf_nics (N_nics s)"

lemma N_nics_simps [simp]:
  "N_nics (set_nics nics s) = nics" "N_nics (set_StatusChanged s) = N_nics s" "N_nics (set_NeedSyncOpenAPI b s) = N_nics s"
  by (simp_all add: set_nics_def set_StatusChanged_def set_NeedSyncOpenAPI_def)

lemma syncWithAPI_inv:
  assumes base: "Q (N_nics s)" and weak: "\<And>nics. Q nics \<Longrightarrow> R nics"
    and items: "\<And>its nics c ok nics' c'. Q nics \<Longrightarrow> sync_items (X_lru x) (X_vpc x) its nics c = (ok, nics', c') \<Longrightarrow> Q nics'"
    and mark: "\<And>bl e item nics. Q nics \<Longrightarrow> Q (gm_adjust (NI_NetworkInterfaceID item) (mark_blocked bl e item) nics)"
    and gone: "\<And>inst tags ids ks err nics w nics' w'. Q nics \<Longrightarrow> drop_gone (X_cloud x) inst tags ids ks err nics w = (nics', w') \<Longrightarrow> R nics'"
    and call: "syncWithAPI x s = (err, s')"
  shows "R (N_nics s')"
proof -
  have fold: "Q nics \<Longrightarrow> Q (foldl (\<lambda>nics item. gm_adjust (NI_NetworkInterfaceID item) (mark_blocked bl erdma item) nics) nics its)"
    for nics bl erdma its
    by (erule foldl_inv [where P = Q]) (rule mark)
  show ?thesis
  proof (cases "M_NeedSyncOpenAPI (N_meta s) \<and> X_degradation x \<noteq> DegradationL0 \<and> X_degradation x \<noteq> DegradationL1")
    case True
    let ?f = "filter (\<lambda>item. if NI_Type item = ENITypePrimary then False else \<not> IsLENIPrimary item)"
    let ?bl = "if ES_TagBlockList (X_spec x) \<noteq> [] then ES_TagBlockList (X_spec x) else DefaultENITagBlockList"
    obtain r w where d: "DescribeNetworkInterfaceV2 (X_cloud x) (Some (NM_InstanceID (X_meta x))) None (ES_TagFilter (X_spec x)) (N_w s) = (r, w)"
      by (meson surj_pair)
    show ?thesis
    proof (cases r)
      case (Inl e)
      then have "N_nics s' = N_nics s" using call True d by (auto simp: syncWithAPI_def)
      then show ?thesis using weak [OF base] by simp
    next
      case (Inr enis)
      obtain ok nics c where its: "sync_items (X_lru x) (X_vpc x) (?f enis) (N_nics s) (N_c s) = (ok, nics, c)" by (rule prod_cases3)
      let ?marked = "foldl (\<lambda>nics item. gm_adjust (NI_NetworkInterfaceID item) (mark_blocked ?bl (ES_EnableERDMA (X_spec x)) item) nics) nics (?f enis)"
      obtain nics1 w1 where drop: "drop_gone (X_cloud x) (NM_InstanceID (X_meta x)) (ES_TagFilter (X_spec x))
          (map NI_NetworkInterfaceID (?f enis)) (X_ord x ''syncWithAPI'' (keys ?marked)) None ?marked w = (nics1, w1)" by (meson surj_pair)
      have q: "Q nics" using items [OF base its] .
      have r: "R nics1" using gone [OF fold [OF q] drop] .
      have "N_nics s' = nics \<or> N_nics s' = nics1"
        using call True d its drop Inr
        by (simp add: syncWithAPI_def Let_def set_nics_def set_NeedSyncOpenAPI_def split: bool.splits if_split_asm) auto
      then show ?thesis using weak [OF q] r by auto
    qed
  next
    case False
    then have "syncWithAPI x s = (None, s)" unfolding syncWithAPI_def by (simp split: if_split)
    then show ?thesis using call weak [OF base] by simp
  qed
qed

lemma wf_syncWithAPI:
  assumes "wf_nst s" and "syncWithAPI x s = (err, s')"
  shows "wf_nst s'"
  by (rule syncWithAPI_inv [where Q = wf_nics and R = wf_nics, OF assms(1) _ _ _ _ assms(2)])
    (auto intro!: wf_nics_adjust wf_mark_blocked elim: wf_sync_items wf_drop_gone)

text \<open>The attach queue.\<close>

lemma wf_merge_or_set [wf_intros]: "wf_ips r \<Longrightarrow> wf_ips (ips m) \<Longrightarrow> wf_ips (ips (merge_or_set r m))"
  using wf_mergeIPMap [of r m] by (cases m) (simp_all add: merge_or_set_def)

lemma wf_attach_done [wf_intros]: "wf_nic k nic \<Longrightarrow> wf_nic k (attach_done info nic)"
  by (simp add: attach_done_def wf_nic_def wf_intros)

lemma warm_up_count_nics [simp]: "St_NetworkInterfaces (warm_up_count n status) = St_NetworkInterfaces status"
  by (simp add: warm_up_count_def)

lemma wf_task_status:
  assumes "wf_nics (St_NetworkInterfaces status)" and "map_of (St_NetworkInterfaces status) (TR_ENIID task) = Some nic"
  shows "wf_nics (St_NetworkInterfaces (task_status spec task nic status))"
proof -
  have "wf_nic (TR_ENIID task) (attach_done info nic)" for info using assms by (intro wf_intros) (rule wf_nicsD)
  then show ?thesis using assms(1) by (auto simp: task_status_def Let_def split: ENITaskStatus.split option.split intro!: wf_nics_adjust)
qed

lemma wf_sync_task: "wf_nst s \<Longrightarrow> wf_nst (sync_task spec s task)"
  by (auto simp: sync_task_def Let_def wf_task_status set_StatusChanged_def split: option.split)

lemma wf_syncTaskQueueStatus: "wf_nst s \<Longrightarrow> wf_nst (syncTaskQueueStatus x s)"
  unfolding syncTaskQueueStatus_def by (erule foldl_inv) (rule wf_sync_task)

lemma submit_status [simp]: "N_status (submit x e a b c d s) = N_status s"
  by (simp add: submit_def split: prod.split option.split)

lemma ensureAsyncTasks_status [simp]: "N_status (ensureAsyncTasks x s) = N_status s"
proof -
  have "N_status (foldl (\<lambda>s (eniID, nic). if Nic_Status nic = ENIStatusAttaching
      then (case GetTaskStatus eniID (N_queue s) of Some _ \<Rightarrow> s | None \<Rightarrow> submit x eniID 1 1 0 0 s) else s) s l) = N_status s"
    for l and s :: "('a, 'b) nst" by (induction l arbitrary: s) (auto split: option.split)
  from this [of "s\<lparr>N_queue := _\<rparr>"] show ?thesis unfolding ensureAsyncTasks_def Let_def by simp
qed

text \<open>Creating and assigning.\<close>

lemma wf_addIPToMap [wf_intros]: "wf_ips m \<Longrightarrow> wf_ips (addIPToMap m ip)"
  unfolding addIPToMap_def by (auto intro!: wf_intros simp: Let_def split: option.split)

lemma wf_add_failed [wf_intros]: "wf_ips m \<Longrightarrow> wf_ips (add_failed result m)"
  unfolding add_failed_def by (rule wf_ips_foldl) (auto intro!: wf_intros)

lemma wf_add_assigned [wf_intros]: "wf_ips m \<Longrightarrow> wf_ips (add_assigned result m)"
  unfolding add_assigned_def by (rule wf_ips_foldl) (auto intro!: wf_intros)

lemma wf_ensure_map [wf_intros]: "wf_nic k nic \<Longrightarrow> wf_nic k (ensure_map f nic)"
  by (cases f) (simp_all add: ensure_map_def wf_nic_def)

lemma wf_zero_ips: "wf_ips (ips (Nic_IPv4 zero_Nic))" "wf_ips (ips (Nic_IPv6 zero_Nic))"
  by (simp_all add: zero_Nic_def wf_intros)

lemma wf_createENI: "wf_nst s \<Longrightarrow> createENI x opt s = (err, s') \<Longrightarrow> wf_nst s'"
  by (auto simp: createENI_def Let_def wf_nic_def wf_zero_ips split: option.splits prod.splits sum.splits if_splits intro!: wf_nics_update)

lemma wf_assign_fam:
  assumes "wf_nst s" and "assign_fam x f k n s = (err, s')"
  shows "wf_nst s'"
proof -
  have "wf_nics (gm_adjust k (ensure_map f) (N_nics s))" using assms(1) by (intro wf_intros)
  then have wf: "wf_nics (gm_adjust k (nic_write f (add_failed r)) (gm_adjust k (ensure_map f) (N_nics s)))"
    "wf_nics (gm_adjust k (nic_write f (add_assigned r)) (gm_adjust k (ensure_map f) (N_nics s)))" for r
    by (simp_all add: wf_nics_adjust wf_nic_write wf_add_failed wf_add_assigned)
  show ?thesis
  proof (cases "n \<le> 0 \<or> map_of (N_nics s) k = None")
    case True
    then show ?thesis using assms by (auto simp: assign_fam_def split: option.splits)
  next
    case False
    then obtain nic where nic: "map_of (N_nics s) k = Some nic" by blast
    obtain result e w where r: "(case f of V4 \<Rightarrow> AssignPrivateIPAddressV2 (X_cloud x) (Nic_ID nic) n 0 (N_w s)
        | V6 \<Rightarrow> AssignIpv6AddressesV2 (X_cloud x) (Nic_ID nic) n 0 (N_w s)) = ((result, e), w)"
      by (metis surj_pair)
    have "N_nics s' = gm_adjust k (nic_write f (add_failed result)) (gm_adjust k (ensure_map f) (N_nics s)) \<or>
      N_nics s' = gm_adjust k (nic_write f (add_assigned result)) (gm_adjust k (ensure_map f) (N_nics s))"
      using assms(2) False nic r
      by (cases f; cases e) (auto simp: assign_fam_def Let_def set_nics_def set_StatusChanged_def split: if_split_asm)
    then show ?thesis using wf by auto
  qed
qed

lemma wf_assignIP:
  assumes "wf_nst s" and "assignIP x k opt s = (err, s')"
  shows "wf_nst s'"
proof -
  obtain e s1 where first: "assign_fam x V4 k (EO_addIPv4N opt) s = (e, s1)" by (meson surj_pair)
  have wf: "wf_nst s1" using wf_assign_fam [OF assms(1) first] .
  show ?thesis
  proof (cases e)
    case None
    then have "assign_fam x V6 k (EO_addIPv6N opt) s1 = (err, s')" using assms(2) first by (simp add: assignIP_def)
    then show ?thesis using wf_assign_fam [OF wf] by simp
  next
    case (Some a)
    then show ?thesis using assms(2) first wf by (simp add: assignIP_def)
  qed
qed

lemma wf_run_job:
  assumes "wf_nst (snd (snd acc))"
  shows "wf_nst (snd (snd (run_job x acc i)))"
proof (cases acc)
  case (fields opts errs s)
  obtain err s' where r: "(case EO_eniRef (opts ! i) of None \<Rightarrow> createENI x (opts ! i) s | Some k \<Rightarrow> assignIP x k (opts ! i) s) = (err, s')"
    by (meson surj_pair)
  then have "wf_nst s'" using assms fields by (auto split: option.splits dest: wf_createENI wf_assignIP)
  then show ?thesis using fields r by (auto simp: run_job_def Let_def split: option.split)
qed

lemma wf_run_jobs: "wf_nst s \<Longrightarrow> wf_nst (snd (snd (foldl (run_job x) (opts, errs, s) js)))"
  by (rule foldl_inv [where P = "\<lambda>acc. wf_nst (snd (snd acc))"]) (simp_all add: wf_run_job)

lemma wf_allocateFromOptions:
  assumes "wf_nst s" and "allocateFromOptions x opts s = (opts', errs, s')"
  shows "wf_nst s'"
proof -
  have "wf_nst (if b then s else s\<lparr>N_status := (N_status s)\<lparr>St_LastModifiedTime := t\<rparr>\<rparr>)" for b t using assms(1) by simp
  from wf_run_jobs [OF this] have "wf_nst (snd (snd (allocateFromOptions x opts s)))" unfolding allocateFromOptions_def Let_def .
  then show ?thesis using assms(2) by simp
qed

text \<open>Cleaning up.\<close>

lemma wf_waitIPGone: "wf_nst s \<Longrightarrow> wf_nst (waitIPGone x n k e v4 v6 s)"
proof (induction n arbitrary: s)
  case (Suc n)
  have "wf_nics (gm_adjust k (\<lambda>nic. nic_write V6 (delete_gone r6 v6) (nic_write V4 (delete_gone r4 v4) nic)) (N_nics s))" for r4 r6
    using Suc.prems by (auto intro!: wf_intros simp: delete_gone_def)
  then show ?case using Suc by (auto simp: Let_def split: prod.split sum.split list.split)
qed simp

lemma unassign_step_status [simp]: "N_status (snd (unassign_step api b e xs s)) = N_status s"
  by (simp add: unassign_step_def set_StatusChanged_def set_NeedSyncOpenAPI_def Let_def split: prod.split option.split)

lemma handle_inuse_cases:
  "\<exists>s1. N_nics s1 = N_nics s \<and>
     (handle_inuse x k eni s = s1 \<or>
      handle_inuse x k eni s = waitIPGone x (X_waitSteps x) k (Nic_ID eni)
        (take (nat (batchSize (X_backend x))) (deleting_ips (X_ord x (''v4'' @ k)) (ips (Nic_IPv4 eni))))
        (take (nat (batchSize (X_backend x))) (deleting_ips (X_ord x (''v6'' @ k)) (ips (Nic_IPv6 eni)))) s1)"
proof -
  let ?n = "nat (batchSize (X_backend x))" and ?e = "Nic_ID eni"
  let ?v4 = "take ?n (deleting_ips (X_ord x (''v4'' @ k)) (ips (Nic_IPv4 eni)))"
  let ?v6 = "take ?n (deleting_ips (X_ord x (''v6'' @ k)) (ips (Nic_IPv6 eni)))"
  let ?u4 = "UnAssignPrivateIPAddressesV2 (X_cloud x)" and ?u6 = "UnAssignIpv6AddressesV2 (X_cloud x)"
  obtain b1 s1 where 1: "unassign_step ?u4 False ?e ?v4 s = (b1, s1)" by (meson surj_pair)
  obtain b2 s2 where 2: "unassign_step ?u6 False ?e ?v6 s1 = (b2, s2)" by (meson surj_pair)
  obtain b3 s3 where 3: "unassign_step ?u4 True ?e (take ?n (deleting_prefixes (Nic_IPv4Prefix eni))) s2 = (b3, s3)" by (meson surj_pair)
  obtain b4 s4 where 4: "unassign_step ?u6 True ?e (take ?n (deleting_prefixes (Nic_IPv6Prefix eni))) s3 = (b4, s4)" by (meson surj_pair)
  have st: "N_status s1 = N_status s" "N_status s2 = N_status s1" "N_status s3 = N_status s2" "N_status s4 = N_status s3"
    using unassign_step_status [of ?u4 False ?e ?v4 s] unassign_step_status [of ?u6 False ?e ?v6 s1]
      unassign_step_status [of ?u4 True ?e "take ?n (deleting_prefixes (Nic_IPv4Prefix eni))" s2]
      unassign_step_status [of ?u6 True ?e "take ?n (deleting_prefixes (Nic_IPv6Prefix eni))" s3]
    unfolding 1 2 3 4 by simp_all
  have "handle_inuse x k eni s = (if b1 then if b2 then if b3 then if b4 then
      waitIPGone x (X_waitSteps x) k ?e ?v4 ?v6 s4 else s4 else s3 else s2 else s1)"
    unfolding handle_inuse_def Let_def 1 prod.case
    by (cases b1; cases b2; cases b3; cases b4) (simp_all only: 2 3 4 prod.case bool.case if_True if_False)
  then consider "handle_inuse x k eni s \<in> {s1, s2, s3, s4}"
    | "handle_inuse x k eni s = waitIPGone x (X_waitSteps x) k ?e ?v4 ?v6 s4"
    by (metis insertCI)
  then show ?thesis
  proof cases
    case 1
    then have "N_nics (handle_inuse x k eni s) = N_nics s" using st by (elim insertE) simp_all
    then show ?thesis by blast
  next
    case 2
    moreover have "N_nics s4 = N_nics s" using st by simp
    ultimately show ?thesis by blast
  qed
qed

lemma wf_handle_inuse: "wf_nst s \<Longrightarrow> wf_nst (handle_inuse x k eni s)"
  using handle_inuse_cases [of s x k eni] wf_waitIPGone by metis

lemma wf_delete_eni: "wf_nst s \<Longrightarrow> wf_nst (delete_eni x eni s)"
  by (simp add: delete_eni_def wf_nics_delete split: prod.split option.split)

lemma wf_handle_eni: "wf_nst s \<Longrightarrow> wf_nst (handle_eni x s k)"
  by (auto simp: handle_eni_def wf_handle_inuse wf_delete_eni wf_nics_adjust split: option.split prod.split)

lemma wf_handleStatus: "wf_nst s \<Longrightarrow> wf_nst (handleStatus x s)"
  unfolding handleStatus_def by (erule foldl_inv) (rule wf_handle_eni)

subsection \<open>What cleaning up leaves alone\<close>

text \<open>Nothing but addresses marked for deletion may go.\<close>

definition cleaned :: "Nic \<Rightarrow> Nic \<Rightarrow> bool" where
  "cleaned nic nic' \<longleftrightarrow> nic'\<lparr>Nic_IPv4 := Nic_IPv4 nic, Nic_IPv6 := Nic_IPv6 nic\<rparr> = nic \<and>
     (\<forall>f a ip. map_of (nic_ips f nic') a = Some ip \<longrightarrow> map_of (nic_ips f nic) a = Some ip) \<and>
     (\<forall>f a ip. map_of (nic_ips f nic) a = Some ip \<longrightarrow> NIP_Status ip \<noteq> IPStatusDeleting \<longrightarrow> map_of (nic_ips f nic') a = Some ip)"

lemma cleaned_refl [simp]: "cleaned nic nic"
  by (simp add: cleaned_def)

lemma cleaned_fields: "cleaned nic nic' \<Longrightarrow> Nic_Status nic' = Nic_Status nic \<and> Nic_Unschedulable nic' = Nic_Unschedulable nic \<and> Nic_ID nic' = Nic_ID nic"
  unfolding cleaned_def by (cases nic; cases nic') simp

lemma cleaned_trans:
  assumes "cleaned a b" and "cleaned b c"
  shows "cleaned a c"
proof -
  have ab: "b\<lparr>Nic_IPv4 := Nic_IPv4 a, Nic_IPv6 := Nic_IPv6 a\<rparr> = a" using assms(1) unfolding cleaned_def by (rule conjunct1)
  have bc: "c\<lparr>Nic_IPv4 := Nic_IPv4 b, Nic_IPv6 := Nic_IPv6 b\<rparr> = b" using assms(2) unfolding cleaned_def by (rule conjunct1)
  have "c\<lparr>Nic_IPv4 := Nic_IPv4 a, Nic_IPv6 := Nic_IPv6 a\<rparr> = (c\<lparr>Nic_IPv4 := Nic_IPv4 b, Nic_IPv6 := Nic_IPv6 b\<rparr>)\<lparr>Nic_IPv4 := Nic_IPv4 a, Nic_IPv6 := Nic_IPv6 a\<rparr>"
    by simp
  also have "\<dots> = a" unfolding bc by (rule ab)
  finally show ?thesis using assms unfolding cleaned_def by blast
qed

lemma map_of_delete_gone:
  assumes "gm_ok m"
  shows "map_of (delete_gone remote xs m) a = (if list_ex (\<lambda>ip. CI_IPAddress ip = a) xs \<and> map_of remote a = None then None else map_of m a)"
  unfolding delete_gone_def using map_of_filter_key [of m "\<lambda>k. \<not> (list_ex (\<lambda>ip. CI_IPAddress ip = k) xs \<and> map_of remote k = None)" a] assms
  by (simp split: if_splits)

text \<open>The addresses to give back are marked for deletion on the interface.\<close>

definition marked :: "ipfam \<Rightarrow> CloudIP list \<Rightarrow> Nic \<Rightarrow> bool" where
  "marked f xs nic \<longleftrightarrow> (\<forall>c \<in> set xs. \<forall>ip. map_of (nic_ips f nic) (CI_IPAddress c) = Some ip \<longrightarrow> NIP_Status ip = IPStatusDeleting)"

lemma marked_cleaned: "marked f xs nic \<Longrightarrow> cleaned nic nic' \<Longrightarrow> marked f xs nic'"
  unfolding marked_def cleaned_def by blast

lemma marked_deleting:
  assumes "wf_nic k nic"
  shows "marked f (take n (deleting_ips ord (nic_ips f nic))) nic"
proof -
  have wf: "wf_ips (nic_ips f nic)" using assms by (cases f) (simp_all add: wf_nic_def nic_ips_def)
  have "NIP_Status ip = IPStatusDeleting"
    if "c \<in> set (deleting_ips ord (nic_ips f nic))" "map_of (nic_ips f nic) (CI_IPAddress c) = Some ip" for c ip
  proof -
    from that(1) obtain a v where v: "(a, v) \<in> set (range_list ord (nic_ips f nic))" "NIP_Status v = IPStatusDeleting" "CI_IPAddress c = NIP_IP v"
      by (auto simp: deleting_ips_def)
    then have "map_of (nic_ips f nic) a = Some v" by (auto simp: range_list_def map_filter_mem)
    then show ?thesis using v wf that(2) by (auto simp: wf_ips_def)
  qed
  then show ?thesis unfolding marked_def by (meson in_set_takeD)
qed

lemma cleaned_write:
  assumes "wf_nic k nic" and "marked f xs nic"
  shows "cleaned nic (nic_write f (delete_gone remote xs) nic)"
proof -
  have ok: "gm_ok (nic_ips f nic)" using assms(1) by (cases f) (simp_all add: wf_nic_def nic_ips_def wf_ips_def)
  have eq: "nic_ips g (nic_write f (delete_gone remote xs) nic) = (if g = f then delete_gone remote xs (nic_ips f nic) else nic_ips g nic)" for g
    by (cases f; cases g; cases "Nic_IPv4 nic"; cases "Nic_IPv6 nic") (simp_all add: nic_ips_def nic_write_def delete_gone_def)
  have "(nic_write f (delete_gone remote xs) nic)\<lparr>Nic_IPv4 := Nic_IPv4 nic, Nic_IPv6 := Nic_IPv6 nic\<rparr> = nic"
    by (cases f) (simp_all add: nic_write_def)
  then show ?thesis unfolding cleaned_def eq using assms(2)
    by (auto simp: map_of_delete_gone [OF ok] marked_def list_ex_iff split: if_splits)
qed

abbreviation gone_step :: "IPMap \<Rightarrow> IPMap \<Rightarrow> CloudIP list \<Rightarrow> CloudIP list \<Rightarrow> Nic \<Rightarrow> Nic" where
  "gone_step r4 r6 v4 v6 nic \<equiv> nic_write V6 (delete_gone r6 v6) (nic_write V4 (delete_gone r4 v4) nic)"

lemma waitIPGone_Suc:
  "\<exists>s1. (N_nics s1 = N_nics s \<or> (\<exists>r4 r6. N_nics s1 = gm_adjust k (gone_step r4 r6 v4 v6) (N_nics s))) \<and>
     (waitIPGone x (Suc n) k e v4 v6 s = s1 \<or> waitIPGone x (Suc n) k e v4 v6 s = waitIPGone x n k e v4 v6 s1)"
proof (cases "v4 = [] \<and> v6 = []")
  case True
  then show ?thesis by auto
next
  case False
  obtain r w where d: "DescribeNetworkInterfaceV2 (X_cloud x) None (Some [e]) [] (N_w s) = (r, w)" by (meson surj_pair)
  show ?thesis
  proof (cases "\<exists>y ys. r = Inr (y # ys)")
    case no: False
    then have "waitIPGone x (Suc n) k e v4 v6 s = s\<lparr>N_w := w\<rparr>"
      using False d by (cases r) (auto split: list.split)
    then show ?thesis by (intro exI [of _ "s\<lparr>N_w := w\<rparr>"]) simp
  next
    case True
    then obtain y ys where r: "r = Inr (y # ys)" by blast
    let ?r4 = "convertIPSet (NI_PrivateIPSets y)" and ?r6 = "convertIPSet (NI_IPv6Set y)"
    let ?s = "set_nics (gm_adjust k (gone_step ?r4 ?r6 v4 v6) (N_nics s)) (s\<lparr>N_w := w\<rparr>)"
    have eq: "waitIPGone x (Suc n) k e v4 v6 s = waitIPGone x n k e v4 v6 ?s \<or> waitIPGone x (Suc n) k e v4 v6 s = ?s"
      unfolding waitIPGone.simps if_not_P [OF False] d r prod.case sum.case list.case Let_def by simp
    have st: "N_nics ?s = gm_adjust k (gone_step ?r4 ?r6 v4 v6) (N_nics s)" by simp
    then show ?thesis using eq by blast
  qed
qed

lemma cleaned_gone_step:
  assumes wf: "wf_nic k nic" and "marked V4 v4 nic" and "marked V6 v6 nic"
  shows "cleaned nic (gone_step r4 r6 v4 v6 nic)"
proof -
  have c4: "cleaned nic (nic_write V4 (delete_gone r4 v4) nic)" by (rule cleaned_write [OF wf assms(2)])
  have wf4: "wf_nic k (nic_write V4 (delete_gone r4 v4) nic)" using wf by (auto intro!: wf_intros simp: delete_gone_def)
  show ?thesis by (rule cleaned_trans [OF c4 cleaned_write [OF wf4 marked_cleaned [OF assms(3) c4]]])
qed

text \<open>Interface \<^term>\<open>k\<close> is cleaned, the others are as they were.\<close>

definition cleans :: "string \<Rightarrow> Nic \<Rightarrow> (string, Nic) gomap \<Rightarrow> (string, Nic) gomap \<Rightarrow> bool" where
  "cleans k nic nics nics' \<longleftrightarrow>
     (\<exists>nic'. map_of nics' k = Some nic' \<and> cleaned nic nic') \<and> (\<forall>j. j \<noteq> k \<longrightarrow> map_of nics' j = map_of nics j)"

lemma cleans_refl: "map_of nics k = Some nic \<Longrightarrow> cleans k nic nics nics"
  by (simp add: cleans_def)

lemma cleans_adjust: "map_of nics k = Some nic \<Longrightarrow> cleaned nic (g nic) \<Longrightarrow> cleans k nic nics (gm_adjust k g nics)"
  by (simp add: cleans_def map_of_adjust)

lemma waitIPGone_cleans:
  assumes "wf_nst s" and "map_of (N_nics s) k = Some nic" and "marked V4 v4 nic" and "marked V6 v6 nic"
  shows "cleans k nic (N_nics s) (N_nics (waitIPGone x n k e v4 v6 s))"
  using assms
proof (induction n arbitrary: s nic)
  case 0
  then show ?case by (simp add: cleans_refl)
next
  case (Suc n)
  have wf: "wf_nic k nic" using Suc.prems by (auto dest: wf_nicsD)
  obtain s1 where s1: "N_nics s1 = N_nics s \<or> (\<exists>r4 r6. N_nics s1 = gm_adjust k (gone_step r4 r6 v4 v6) (N_nics s))"
    and w: "waitIPGone x (Suc n) k e v4 v6 s = s1 \<or> waitIPGone x (Suc n) k e v4 v6 s = waitIPGone x n k e v4 v6 s1"
    using waitIPGone_Suc by blast
  have "cleans k nic (N_nics s) (gm_adjust k (gone_step r4 r6 v4 v6) (N_nics s))" for r4 r6
    using Suc.prems(2) cleaned_gone_step [OF wf Suc.prems(3,4)] by (rule cleans_adjust)
  then have one: "cleans k nic (N_nics s) (N_nics s1)" using s1 cleans_refl [OF Suc.prems(2)] by metis
  have "wf_nics (gm_adjust k (gone_step r4 r6 v4 v6) (N_nics s))" for r4 r6
    using Suc.prems(1) by (auto intro!: wf_intros simp: delete_gone_def)
  then have wf1: "wf_nst s1" using s1 Suc.prems(1) by metis
  obtain nic1 where nic1: "map_of (N_nics s1) k = Some nic1" "cleaned nic nic1" using one unfolding cleans_def by blast
  note ih = Suc.IH [OF wf1 nic1(1) marked_cleaned [OF Suc.prems(3) nic1(2)] marked_cleaned [OF Suc.prems(4) nic1(2)]]
  obtain nic2 where nic2: "map_of (N_nics (waitIPGone x n k e v4 v6 s1)) k = Some nic2" "cleaned nic1 nic2"
    using ih unfolding cleans_def by blast
  have "cleans k nic (N_nics s) (N_nics (waitIPGone x n k e v4 v6 s1))"
    using nic2(1) cleaned_trans [OF nic1(2) nic2(2)] one ih unfolding cleans_def by metis
  then show ?case using w one by (elim disjE) (simp_all only:)
qed

text \<open>An interface that stays, whatever the cloud answers: it is not to be deleted, or not terway's to touch.\<close>

definition stays :: "Nic \<Rightarrow> bool" where
  "stays nic \<longleftrightarrow> Nic_Unschedulable nic \<or>
     \<not> (leni_failed (Nic_Status nic) \<or> Nic_Status nic = ENIStatusDeleting \<or> Nic_Status nic = ENIStatusDetaching)"

definition spared :: "(string, Nic) gomap \<Rightarrow> (string, Nic) gomap \<Rightarrow> bool" where
  "spared nics nics' \<longleftrightarrow> (\<forall>k nic. map_of nics k = Some nic \<longrightarrow> stays nic \<longrightarrow>
     (\<exists>nic'. map_of nics' k = Some nic' \<and> cleaned nic nic' \<and> (Nic_Unschedulable nic \<longrightarrow> nic' = nic)))"

lemma spared_trans:
  assumes "spared a b" and "spared b c"
  shows "spared a c"
  unfolding spared_def
proof (intro allI impI)
  fix k nic assume nic: "map_of a k = Some nic" "stays nic"
  obtain nic1 where 1: "map_of b k = Some nic1" "cleaned nic nic1" "Nic_Unschedulable nic \<longrightarrow> nic1 = nic"
    using assms(1) nic unfolding spared_def by blast
  have "stays nic1" using nic(2) cleaned_fields [OF 1(2)] by (simp add: stays_def)
  then obtain nic2 where 2: "map_of c k = Some nic2" "cleaned nic1 nic2" "Nic_Unschedulable nic1 \<longrightarrow> nic2 = nic1"
    using assms(2) 1(1) unfolding spared_def by blast
  show "\<exists>nic'. map_of c k = Some nic' \<and> cleaned nic nic' \<and> (Nic_Unschedulable nic \<longrightarrow> nic' = nic)"
    using 2 1 cleaned_trans [OF 1(2) 2(2)] by blast
qed

lemma spared_refl [simp]: "spared nics nics"
  by (simp add: spared_def)

lemma spared_cleans:
  assumes "map_of nics k = Some nic" and "\<not> Nic_Unschedulable nic" and "cleans k nic nics nics'"
  shows "spared nics nics'"
  using assms unfolding spared_def cleans_def by (metis cleaned_refl option.inject)

lemma spared_other:
  assumes "map_of nics k = Some nic" and "\<not> stays nic" and "\<And>j. j \<noteq> k \<Longrightarrow> map_of nics' j = map_of nics j"
  shows "spared nics nics'"
  unfolding spared_def using assms by (metis cleaned_refl option.inject)

lemma delete_eni_other:
  assumes "wf_nst s" and "map_of (N_nics s) k = Some nic" and "j \<noteq> k"
  shows "map_of (N_nics (delete_eni x nic s)) j = map_of (N_nics s) j"
proof -
  have "Nic_ID nic = k" using assms by (auto dest: wf_nicsD simp: wf_nic_def)
  then show ?thesis using assms(3) by (auto simp: delete_eni_def delete_conv' split: prod.split option.split)
qed

lemma handle_inuse_cleans:
  assumes "wf_nst s" and "map_of (N_nics s) k = Some nic"
  shows "cleans k nic (N_nics s) (N_nics (handle_inuse x k nic s))"
proof -
  have wf: "wf_nic k nic" using assms by (auto dest: wf_nicsD)
  let ?d = "\<lambda>f. take (nat (batchSize (X_backend x))) (deleting_ips (X_ord x (if f = V4 then ''v4'' @ k else ''v6'' @ k)) (nic_ips f nic))"
  obtain s1 where s1: "N_nics s1 = N_nics s"
    and h: "handle_inuse x k nic s = s1 \<or> handle_inuse x k nic s = waitIPGone x (X_waitSteps x) k (Nic_ID nic) (?d V4) (?d V6) s1"
    using handle_inuse_cases [of s x k nic] by (auto simp: nic_ips_def)
  have "cleans k nic (N_nics s1) (N_nics (waitIPGone x (X_waitSteps x) k (Nic_ID nic) (?d V4) (?d V6) s1))"
    by (rule waitIPGone_cleans) (use assms s1 marked_deleting [OF wf] in simp_all)
  then show ?thesis using h s1 cleans_refl [OF assms(2)] by (elim disjE) (simp_all only:)
qed

lemma handle_eni_spares:
  assumes wf: "wf_nst s"
  shows "spared (N_nics s) (N_nics (handle_eni x s k))"
proof (cases "map_of (N_nics s) k")
  case (Some nic)
  show ?thesis
  proof (cases "stays nic")
    case True
    then have "handle_eni x s k = (if \<not> Nic_Unschedulable nic \<and> Nic_Status nic = ENIStatusInUse then handle_inuse x k nic s else s)"
      unfolding handle_eni_def Some option.case stays_def by (cases "Nic_Unschedulable nic") simp_all
    then show ?thesis using spared_cleans [OF Some _ handle_inuse_cleans [OF wf Some]] by simp
  next
    case False
    have "map_of (N_nics (handle_eni x s k)) j = map_of (N_nics s) j" if j: "j \<noteq> k" for j
    proof -
      have d: "map_of (N_nics (delete_eni x nic (s\<lparr>N_w := w\<rparr>))) j = map_of (N_nics s) j" for w
        using delete_eni_other [of "s\<lparr>N_w := w\<rparr>" k nic j x] wf Some j by simp
      show ?thesis
      proof (cases "leni_failed (Nic_Status nic)")
        case True
        then show ?thesis using False j by (simp add: handle_eni_def Some stays_def map_of_adjust)
      next
        case fail: False
        have un: "\<not> Nic_Unschedulable nic" and st: "Nic_Status nic = ENIStatusDeleting \<or> Nic_Status nic = ENIStatusDetaching"
          using False fail unfolding stays_def by blast+
        show ?thesis
          unfolding handle_eni_def Some option.case if_not_P [OF un] if_not_P [OF fail] if_P [OF st]
          using d delete_eni_other [OF wf Some j] by (simp split: prod.split option.split)
      qed
    qed
    then show ?thesis by (rule spared_other [OF Some False])
  qed
qed (simp add: handle_eni_def)

lemma handleStatus_spares:
  assumes "wf_nst s"
  shows "spared (N_nics s) (N_nics (handleStatus x s))"
proof -
  have "wf_nst s \<Longrightarrow> spared (N_nics s) (N_nics (foldl (handle_eni x) s ks)) \<and> wf_nst (foldl (handle_eni x) s ks)" for ks
  proof (induction ks arbitrary: s)
    case (Cons k ks)
    note ih = Cons.IH [OF wf_handle_eni [OF Cons.prems]]
    show ?case using spared_trans [OF handle_eni_spares [OF Cons.prems] conjunct1 [OF ih]] conjunct2 [OF ih] by simp
  qed simp
  then show ?thesis using assms unfolding handleStatus_def by blast
qed

subsection \<open>A run keeps the resource well-formed\<close>

text \<open>Prefixes and conditions are outside of the invariant.\<close>

lemma wf_assign_prefix: "wf_nst s \<Longrightarrow> assign_prefix x f k eni n s = Some (err, s') \<Longrightarrow> wf_nst s'"
  by (cases f) (auto simp: assign_prefix_def Let_def wf_nics_adjust split: option.splits prod.splits if_splits)

lemma wf_prefixes_v4: "wf_nst s \<Longrightarrow> prefixes_v4 x k eni d errs s = Some (d', errs', s') \<Longrightarrow> wf_nst s'"
  by (auto simp: prefixes_v4_def assignIPv4Prefix_def Let_def dest: wf_assign_prefix split: option.splits if_splits)

lemma wf_prefixes_v6: "wf_nst s \<Longrightarrow> prefixes_v6 x k eni d errs s = Some (d', errs', s') \<Longrightarrow> wf_nst s'"
  by (auto simp: prefixes_v6_def assignIPv6Prefix_def Let_def dest: wf_assign_prefix split: option.splits if_splits)

lemma wf_sync_prefixes: "wf_nst s \<Longrightarrow> sync_prefixes x ks d4 d6 errs s = Some (errs', s') \<Longrightarrow> wf_nst s'"
proof (induction ks arbitrary: d4 d6 errs s)
  case (Cons k ks)
  note ih = Cons.IH
  show ?case
  proof (cases "map_of (N_nics s) k")
    case None
    then show ?thesis using Cons.prems(2) ih [OF Cons.prems(1)] by simp
  next
    case (Some eni)
    show ?thesis
    proof (cases "Nic_Status eni \<noteq> ENIStatusInUse \<or> Nic_Unschedulable eni")
      case True
      then have "sync_prefixes x ks d4 d6 errs s = Some (errs', s')" using Cons.prems(2) Some by (simp split: if_splits)
      then show ?thesis by (rule ih [OF Cons.prems(1)])
    next
      case False
      obtain d4' errs1 s1 where v4: "prefixes_v4 x k eni d4 errs s = Some (d4', errs1, s1)"
        using prefixes_return(1) [of x k eni d4 errs s] by (metis not_None_eq prod_cases3)
      let ?eni = "case map_of (N_nics s1) k of None \<Rightarrow> eni | Some eni \<Rightarrow> eni"
      obtain d6' errs2 s2 where v6: "prefixes_v6 x k ?eni d6 errs1 s1 = Some (d6', errs2, s2)"
        using prefixes_return(2) [of x k ?eni d6 errs1 s1] by (metis not_None_eq prod_cases3)
      have "sync_prefixes x ks d4' d6' errs2 s2 = Some (errs', s')"
        using Cons.prems(2) False unfolding sync_prefixes.simps Some option.case Let_def v4 prod.case v6 by simp
      then show ?thesis by (rule ih [OF wf_prefixes_v6 [OF wf_prefixes_v4 [OF Cons.prems(1) v4] v6]])
    qed
  qed
qed simp

lemma wf_cr_conditions [wf_intros]: "wf_nic k nic \<Longrightarrow> wf_nic k (cr_conditions aggregate now errs nic)"
  by (simp add: cr_conditions_def Let_def)

lemma wf_updateCrCondition: "wf_nics nics \<Longrightarrow> wf_nics (updateCrCondition aggregate now opts nics)"
  unfolding updateCrCondition_def
  by (rule foldl_inv [where P = wf_nics]) (auto intro!: wf_nics_adjust wf_cr_conditions split: option.split)

lemma wf_processFrozenExpireAt: "wf_nics nics \<Longrightarrow> wf_nics (fst (processFrozenExpireAt now nics))"
  by (auto simp: processFrozenExpireAt_def intro!: wf_nics_gm_map)

text \<open>Handing out and taking back addresses.\<close>

lemma buildIPMap_nics: "buildIPMap ordE ordI st = (m4, m6, st') \<Longrightarrow> IS_nics st' = IS_nics st"
  by (auto simp: buildIPMap_def Let_def split: prod.splits)

lemma release_ip_IP [simp]: "NIP_IP (release_ip ordS b rt pods ip) = NIP_IP ip"
  by (simp add: release_ip_def split: option.split)

lemma wf_releasePodNotFound: "wf_nics (IS_nics st) \<Longrightarrow> wf_nics (IS_nics (releasePodNotFound ordS got b m4 m6 st))"
proof -
  assume wf: "wf_nics (IS_nics st)"
  have step: "wf_nics (foldl (\<lambda>nics r. ip_write f r (release_ip ordS b rt pods) nics) nics rs)" if "wf_nics nics" for f b rt pods nics rs
    by (rule foldl_inv [where P = wf_nics, OF that]) (simp add: wf_ip_write)
  show ?thesis unfolding releasePodNotFound_def Let_def
    by (simp add: step [OF step [OF wf]] wf split: runtime_get.split)
qed

lemma wf_give: "wf_nics (IS_nics st) \<Longrightarrow> wf_nics (IS_nics (give f podID uid r st))"
  by (simp add: give_def wf_ip_write)

lemma wf_take_over: "wf_nics (IS_nics st) \<Longrightarrow> wf_nics (IS_nics (take_over f m podID st))"
  by (simp add: take_over_def wf_give split: option.split)

lemma wf_pick: "wf_nics (IS_nics st) \<Longrightarrow> wf_nics (IS_nics (pick now f ord m podID info st))"
  by (simp add: pick_def wf_give split: option.split)

lemma wf_serve: "wf_nics (IS_nics st) \<Longrightarrow> wf_nics (IS_nics (fst (serve now f ord m podID st)))"
  by (simp add: serve_def wf_pick Let_def split: option.split)

lemma wf_roll_back: "wf_nics (IS_nics st) \<Longrightarrow> wf_nics (IS_nics (roll_back podID st))"
  by (simp add: roll_back_def wf_ip_write split: option.split)

lemma wf_serve_pod:
  assumes "wf_nics (IS_nics (fst acc))"
  shows "wf_nics (IS_nics (fst (serve_pod now ord4 ord6 m4 m6 podID acc)))"
proof -
  obtain st uns where acc: "acc = (st, uns)" by (meson surj_pair)
  obtain st4 b4 where v4: "serve now V4 (ord4 podID) m4 podID st = (st4, b4)" by (meson surj_pair)
  obtain st6 b6 where v6: "serve now V6 (ord6 podID) m6 podID st4 = (st6, b6)" by (meson surj_pair)
  have 4: "wf_nics (IS_nics st4)" using wf_serve [of st now V4 "ord4 podID" m4 podID] assms acc v4 by simp
  have 6: "wf_nics (IS_nics st6)" using wf_serve [OF 4, of now V6 "ord6 podID" m6 podID] v6 by simp
  show ?thesis unfolding serve_pod_def acc prod.case v4 using 4 6 wf_roll_back [OF 6] v6 by (cases b4; cases b6) simp_all
qed

lemma wf_assignIPFromLocalPool:
  assumes "wf_nics (IS_nics st)" and "assignIPFromLocalPool now ord4 ord6 m4 m6 st = (st', uns)"
  shows "wf_nics (IS_nics st')"
proof -
  let ?ids = "pending_ids (IS_pods st)"
  let ?st = "foldl (\<lambda>st podID. take_over V6 m6 podID (take_over V4 m4 podID st)) st ?ids"
  have "wf_nics (IS_nics ?st)"
    by (rule foldl_inv [where P = "\<lambda>st. wf_nics (IS_nics st)", OF assms(1)]) (simp add: wf_take_over)
  then have "wf_nics (IS_nics (fst (foldl (\<lambda>acc podID. serve_pod now ord4 ord6 m4 m6 podID acc) (?st, []) ?ids)))"
    by (intro foldl_inv [where P = "\<lambda>acc. wf_nics (IS_nics (fst acc))"]) (simp_all add: wf_serve_pod)
  then show ?thesis using assms(2) by (simp add: assignIPFromLocalPool_def Let_def)
qed

text \<open>Shrinking the pool.\<close>

lemma wf_mark_idle: "wf_ips m \<Longrightarrow> mark_idle ks n m = (m', c) \<Longrightarrow> wf_ips m'"
proof (induction ks n m arbitrary: m' c rule: mark_idle.induct)
  case (2 k ks n m)
  have "wf_ips (gm_adjust k (\<lambda>v. v\<lparr>NIP_Status := IPStatusDeleting\<rparr>) m)" using "2.prems"(1) by (intro wf_ips_adjust) simp_all
  then show ?case using 2 by (auto split: option.splits if_splits prod.splits)
qed simp

lemma wf_releaseUnUsedIP:
  assumes "wf_nic k nic"
  shows "wf_nic k (fst (releaseUnUsedIP ord4 ord6 nic toDel spec))"
proof -
  have m: "wf_ips (fst (mark_idle (ord (keys (ips m))) n (ips m)))" if "wf_ips (ips m)" for ord n m
    using wf_mark_idle [OF that] by (metis prod.collapse)
  have "wf_nic k (nic\<lparr>Nic_IPv4 := map_option (\<lambda>_. fst (mark_idle (ord4 (keys (ips (Nic_IPv4 nic)))) a (ips (Nic_IPv4 nic)))) (Nic_IPv4 nic),
      Nic_IPv6 := map_option (\<lambda>_. fst (mark_idle (ord6 (keys (ips (Nic_IPv6 nic)))) b (ips (Nic_IPv6 nic)))) (Nic_IPv6 nic)\<rparr>)" for a b
    using assms m [of "Nic_IPv4 nic" ord4 a] m [of "Nic_IPv6 nic" ord6 b]
    by (cases "Nic_IPv4 nic"; cases "Nic_IPv6 nic") (simp_all add: wf_nic_def)
  then show ?thesis using assms by (simp add: releaseUnUsedIP_def Let_def split_def)
qed

lemma wf_shrink:
  "wf_nics nics \<Longrightarrow> \<forall>(k, nic) \<in> set l. wf_nic k nic \<Longrightarrow> wf_nics (shrink ord4 ord6 spec l toDel nics)"
proof (induction l arbitrary: toDel nics)
  case (Cons e l)
  obtain k nic where e: "e = (k, nic)" by (meson surj_pair)
  obtain nic' c where r: "releaseUnUsedIP (ord4 k) (ord6 k) nic toDel spec = (nic', c)" by (meson surj_pair)
  have "wf_nic k nic'" using wf_releaseUnUsedIP [of k nic "ord4 k" "ord6 k" toDel spec] Cons.prems(2) e r by simp
  then have "wf_nics (gm_adjust k (\<lambda>_. nic') nics)" using Cons.prems(1) by (intro wf_nics_adjust)
  then show ?case using Cons.IH Cons.prems(2) e r by (simp add: Let_def)
qed simp

lemma calculateToDel_nics: "calculateToDel jitter now spec pool nics status = Ret (n, status') \<Longrightarrow> St_NetworkInterfaces status' = St_NetworkInterfaces status"
  by (auto simp: calculateToDel_def Let_def split: option.splits if_splits)

lemma wf_adjustPool:
  assumes wf: "wf_nics (St_NetworkInterfaces status)"
    and "adjustPool ord ord4 ord6 pd jitter gcp now deg spec pool lastGC status = Ret (status', lastGC')"
  shows "wf_nics (St_NetworkInterfaces status')"
proof -
  have mem: "\<forall>(k, nic) \<in> set (rev (sortNetworkInterface ord spec nics)). wf_nic k nic" if "wf_nics nics" for nics
    using that by (auto simp: sortNetworkInterface_def range_list_def map_filter_mem dest: wf_nicsD)
  show ?thesis
    using assms(2) wf wf_shrink [OF wf mem [OF wf]] unfolding adjustPool_def
    by (auto simp: Let_def dest!: calculateToDel_nics split: if_splits go.splits)
qed

text \<open>The steps together.\<close>

lemma put_ipam_nics [simp]: "N_nics (put_ipam st s) = IS_nics st"
  by (simp add: put_ipam_def)

lemma ipam_of_nics [simp]: "IS_nics (ipam_of pods s) = N_nics s"
  by (simp add: ipam_of_def)

lemma wf_addIP:
  assumes "wf_nst s" and "addIP x uns s = (errs, s')"
  shows "wf_nst s'"
proof -
  let ?s = "syncTaskQueueStatus x s"
  have wf: "wf_nst ?s" using assms(1) by (rule wf_syncTaskQueueStatus)
  show ?thesis
  proof (cases "X_degradation x = DegradationL0")
    case True
    then show ?thesis using assms(2) wf by (simp add: addIP_def)
  next
    case False
    let ?nics = "N_nics ?s" and ?spec = "X_spec x"
    obtain opts1 c1 where 1: "assignEniWithOptions (X_backend x) (X_cap x) ?spec ?nics (N_queue ?s)
        (validateENI (X_lru x) (X_vpc x) [secondaryKey, trunkKey] (ES_EnableIPv4 ?spec) ?nics)
        (allocationDemand ?spec (X_pool x) (N_status ?s) ?nics uns)
        (getEniOptions (X_ord x ''getEniOptions'') ?spec (X_flavors x) ?nics) (N_c ?s) = (opts1, c1)" by (meson surj_pair)
    obtain opts2 c2 where 2: "assignEniWithOptions (X_backend x) (X_cap x) ?spec ?nics (N_queue ?s)
        (validateENI (X_lru x) (X_vpc x) [rdmaKey] (ES_EnableIPv4 ?spec) ?nics) (rdmaDemand uns) opts1 c1 = (opts2, c2)" by (meson surj_pair)
    obtain opts3 errs3 s3 where 3: "allocateFromOptions x opts2 (?s\<lparr>N_c := c2\<rparr>) = (opts3, errs3, s3)" by (rule prod_cases3)
    have wf3: "wf_nst s3" by (rule wf_allocateFromOptions [OF _ 3]) (simp add: wf)
    have "N_nics s' = updateCrCondition (X_aggregate x) (X_now x) opts3 (N_nics s3)"
      using assms(2) False unfolding addIP_def Let_def 1 2 3 prod.case by (auto split: option.splits)
    then show ?thesis using wf_updateCrCondition [OF wf3] by simp
  qed
qed

lemma wf_sync_prefix_mode:
  assumes "wf_nst s" and "sync_prefix_mode x pods s = Some (errs, s')"
  shows "wf_nst s'"
proof -
  obtain m4 m6 st where b: "buildIPMap (X_ord x ''enis'') (X_ord x ''ips'') (ipam_of pods s) = (m4, m6, st)" by (rule prod_cases3)
  let ?st = "releasePodNotFound (X_ordS x) (X_runtime x) (X_daemonRuntime x) m4 m6 st"
  have wf1: "wf_nics (IS_nics ?st)" using wf_releasePodNotFound buildIPMap_nics [OF b] assms(1) by simp
  let ?s = "put_ipam ?st s"
  obtain opts errs1 s1 where a: "allocateFromOptions x (assignEniPrefixWithOptions (X_cap x) (X_spec x) (N_nics ?s) (N_queue ?s)
      (getEniOptions (X_ord x ''getEniOptions'') (X_spec x) (X_flavors x) (N_nics ?s))) ?s = (opts, errs1, s1)" by (rule prod_cases3)
  let ?s2 = "syncTaskQueueStatus x s1"
  have wf2: "wf_nst ?s2" by (rule wf_syncTaskQueueStatus, rule wf_allocateFromOptions [OF _ a]) (simp add: wf1)
  obtain nics changed where f: "processFrozenExpireAt (X_now x) (N_nics ?s2) = (nics, changed)" by (meson surj_pair)
  let ?s3 = "if changed then set_StatusChanged (set_nics nics ?s2) else set_nics nics ?s2"
  have wf3: "wf_nst ?s3" using wf_processFrozenExpireAt [OF wf2, of "X_now x"] f by simp
  obtain errs2 s4 where p: "syncPrefixAllocation x ?s3 = Some (errs2, s4)"
    using sync_prefixes_returns unfolding syncPrefixAllocation_def Let_def by (metis not_None_eq surj_pair)
  have wf4: "wf_nst s4" using wf_sync_prefixes [OF wf3] p unfolding syncPrefixAllocation_def Let_def by blast
  have "s' = handleStatus x s4"
    using assms(2) unfolding sync_prefix_mode_def Let_def b prod.case a f p option.case by simp
  then show ?thesis using wf_handleStatus [OF wf4] by simp
qed

lemma checkWarmUpCompletion_nics [simp]: "St_NetworkInterfaces (checkWarmUpCompletion status) = St_NetworkInterfaces status"
  by (simp add: checkWarmUpCompletion_def)

lemma initializeWarmUp_nics [simp]: "St_NetworkInterfaces (initializeWarmUp pool status) = St_NetworkInterfaces status"
  by (simp add: initializeWarmUp_def split: option.split)

lemma wf_syncPods:
  assumes "wf_nst s" and "syncPods x mode pods s = Some (Ret (errs, s'))"
  shows "wf_nst s'"
proof (cases mode)
  case True
  then have "sync_prefix_mode x pods s = Some (errs, s')" using assms(2) by (simp add: syncPods_def)
  then show ?thesis by (rule wf_sync_prefix_mode [OF assms(1)])
next
  case False
  obtain m4 m6 st where b: "buildIPMap (X_ord x ''enis'') (X_ord x ''ips'') (ipam_of pods s) = (m4, m6, st)" by (rule prod_cases3)
  let ?st = "releasePodNotFound (X_ordS x) (X_runtime x) (X_daemonRuntime x) m4 m6 st"
  have wf1: "wf_nics (IS_nics ?st)" using wf_releasePodNotFound buildIPMap_nics [OF b] assms(1) by simp
  obtain st1 uns where a: "assignIPFromLocalPool (X_now x) (\<lambda>p. X_ord x (''v4'' @ p)) (\<lambda>p. X_ord x (''v6'' @ p)) m4 m6 ?st = (st1, uns)"
    by (meson surj_pair)
  obtain errs1 s1 where add: "addIP x (List.map_filter (map_of (IS_pods st1)) uns) (put_ipam st1 s) = (errs1, s1)" by (meson surj_pair)
  have wf2: "wf_nst s1" by (rule wf_addIP [OF _ add]) (simp add: wf_assignIPFromLocalPool [OF wf1 a])
  obtain n4 n6 st2 where b2: "buildIPMap (X_ord x ''enis2'') (X_ord x ''ips2'') (ipam_of (IS_pods st1) s1) = (n4, n6, st2)" by (rule prod_cases3)
  obtain st3 uns3 where a2: "assignIPFromLocalPool (X_now x) (\<lambda>p. X_ord x (''w4'' @ p)) (\<lambda>p. X_ord x (''w6'' @ p)) n4 n6 st2 = (st3, uns3)"
    by (meson surj_pair)
  have wf3: "wf_nics (IS_nics st3)" by (rule wf_assignIPFromLocalPool [OF _ a2]) (simp add: buildIPMap_nics [OF b2] wf2)
  let ?s = "handleStatus x (put_ipam st3 s1)"
  let ?s3 = "?s\<lparr>N_status := checkWarmUpCompletion (N_status ?s)\<rparr>"
  have wf4: "wf_nics (N_nics ?s3)" using wf_handleStatus [of "put_ipam st3 s1" x] wf3 by simp
  obtain status gc where adj: "adjustPool (X_ord x ''adjustPool'') (\<lambda>k. X_ord x (''a4'' @ k)) (\<lambda>k. X_ord x (''a6'' @ k)) (X_parse x)
      (X_reclaimJitter x) (X_gcPeriod x) (X_now x) (X_degradation x) (X_spec x) (X_pool x) (M_LastGCTime (N_meta ?s3)) (N_status ?s3) = Ret (status, gc)"
    and s': "N_status s' = status"
    using assms(2) False unfolding syncPods_def Let_def b prod.case a add b2 a2 by (auto split: go.splits)
  show ?thesis using wf_adjustPool [OF wf4 adj] s' by simp
qed

lemma wf_run_node:
  assumes "wf_nst s" and "run_node x mode pods s = Some (Ret (errs, s'))"
  shows "wf_nst s'"
proof -
  let ?s = "if sync_due (X_now x) pods (N_status s) then set_NeedSyncOpenAPI True s else s"
  let ?s1 = "ensureAsyncTasks x (?s\<lparr>N_status := initializeWarmUp (Some (X_pool x)) (N_status ?s)\<rparr>)"
  obtain err s2 where sync: "syncWithAPI x ?s1 = (err, s2)" by (meson surj_pair)
  have wf2: "wf_nst s2" by (rule wf_syncWithAPI [OF _ sync]) (simp add: assms(1))
  obtain errs2 where "syncPods x mode pods s2 = Some (Ret (errs2, s'))"
    using assms(2) unfolding run_node_def Let_def sync prod.case by (auto split: option.splits go.splits)
  then show ?thesis by (rule wf_syncPods [OF wf2])
qed

text \<open>
  C26: a run keeps the Node resource well-formed. Whatever the cloud reports and whichever of its calls
  fail, the status that is written files every interface under its own name and every address of an
  interface under the address itself, each once; and it is written only when it differs from the
  status that was read.
\<close>

theorem Reconcile_wf:
  assumes wf: "wf_nics (St_NetworkInterfaces (Node_Status node))"
    and run: "Reconcile x same wrote (NodeFound node) podList prev s = Some (Ret (r, WriteStatus st, m, s'))"
  shows "wf_nics (St_NetworkInterfaces st) \<and> \<not> same (Node_Status node) st"
proof -
  have finish: "N_status (finish_node a b s) = N_status s" for a b and s :: "('a, 'b) nst" by (simp add: finish_node_def)
  show ?thesis using run wf unfolding Reconcile_def Let_def
    by (auto simp: finish dest!: wf_run_node [rotated] split: if_splits node_check.splits option.splits go.splits)
qed

text \<open>
  C27: cleaning up touches only what was marked. An interface that terway may not touch
  (unschedulable) is unchanged; one that is not being deleted and has not failed stays with all its
  fields, no address is added, and every address that is not marked for deletion stays as it was.
\<close>

theorem handleStatus_keeps:
  assumes "wf_nics (N_nics s)" and "map_of (N_nics s) k = Some nic" and "stays nic"
  shows "\<exists>nic'. map_of (N_nics (handleStatus x s)) k = Some nic' \<and> cleaned nic nic' \<and> (Nic_Unschedulable nic \<longrightarrow> nic' = nic)"
  using handleStatus_spares [OF assms(1)] assms(2,3) unfolding spared_def by blast

subsection \<open>Addresses that are lost\<close>

definition nil_as :: "Nic \<Rightarrow> Nic \<Rightarrow> bool" where
  "nil_as nic nic' \<longleftrightarrow> (Nic_IPv4 nic = None \<longrightarrow> Nic_IPv4 nic' = None) \<and> (Nic_IPv6 nic = None \<longrightarrow> Nic_IPv6 nic' = None)"

lemma nil_as_merge: "nil_as nic nic' \<Longrightarrow> nil_as nic (merge_eni item nic')"
  by (simp add: nil_as_def merge_eni_def mergeIPMap_def Let_def)

lemma nil_as_mark: "nil_as nic nic' \<Longrightarrow> nil_as nic (mark_blocked bl e item nic')"
  by (simp add: nil_as_def mark_blocked_def clearPendingDelete_def Let_def)

lemma nil_as_sync_items:
  assumes "\<exists>nic'. map_of nics k = Some nic' \<and> nil_as nic nic'" and "sync_items lru client items nics c = (ok, nics', c')"
  shows "\<exists>nic'. map_of nics' k = Some nic' \<and> nil_as nic nic'"
  using assms
proof (induction items arbitrary: nics c)
  case (Cons item items)
  show ?case
  proof (cases "map_of nics (NI_NetworkInterfaceID item)")
    case None
    obtain v c1 where g: "GetByID lru client (Nic_VSwitchID (sync_remote item)) c = (v, c1)" by (meson surj_pair)
    have "\<exists>nic'. map_of (AList.update (NI_NetworkInterfaceID item) y nics) k = Some nic' \<and> nil_as nic nic'" for y
      using Cons.prems(1) None by (auto simp: update_conv')
    from Cons.IH [OF this] show ?thesis using Cons.prems None g by (cases v) auto
  next
    case (Some old)
    have "\<exists>nic'. map_of (gm_adjust (NI_NetworkInterfaceID item) (merge_eni item) nics) k = Some nic' \<and> nil_as nic nic'"
      using Cons.prems(1) by (auto simp: map_of_adjust nil_as_merge)
    from Cons.IH [OF this] show ?thesis using Cons.prems(2) Some by simp
  qed
qed simp

lemma drop_gone_sub:
  assumes "drop_gone cl inst tags ids ks err nics w = (nics', w')" and "map_of nics' k = Some nic"
  shows "map_of nics k = Some nic"
proof -
  have "\<forall>v. map_of nics' k = Some v \<longrightarrow> map_of nics k = Some v"
    by (rule drop_gone_inv [OF _ _ assms(1)]) (auto simp: map_of_delete split: if_splits)
  then show ?thesis using assms(2) by blast
qed

text \<open>
  C40: an interface whose map of addresses of a family is nil never gets one from the cloud. The map is
  created in the called function only, so whatever addresses of that family the cloud reports for the
  interface, the resource has none of them after the synchronisation.
\<close>

theorem nil_map_lost:
  assumes "map_of (N_nics s) k = Some nic" and "syncWithAPI x s = (err, s')" and "map_of (N_nics s') k = Some nic'"
  shows "(Nic_IPv4 nic = None \<longrightarrow> Nic_IPv4 nic' = None) \<and> (Nic_IPv6 nic = None \<longrightarrow> Nic_IPv6 nic' = None)"
proof -
  let ?Q = "\<lambda>nics. \<exists>nic'. map_of nics k = Some nic' \<and> nil_as nic nic'"
  let ?R = "\<lambda>nics. \<forall>nic'. map_of nics k = Some nic' \<longrightarrow> nil_as nic nic'"
  have "?R (N_nics s')"
  proof (rule syncWithAPI_inv [where Q = ?Q and R = ?R, OF _ _ _ _ _ assms(2)])
    show "?Q (N_nics s)" using assms(1) by (simp add: nil_as_def)
    show "?R nics" if "?Q nics" for nics using that by auto
    show "?Q nics'" if "?Q nics" "sync_items (X_lru x) (X_vpc x) its nics c = (ok, nics', c')" for its nics c ok nics' c'
      using that by (rule nil_as_sync_items)
    show "?Q (gm_adjust (NI_NetworkInterfaceID item) (mark_blocked bl e item) nics)" if "?Q nics" for bl e item nics
      using that by (auto simp: map_of_adjust nil_as_mark)
    show "?R nics'" if "?Q nics" "drop_gone (X_cloud x) inst tags ids ks err nics w = (nics', w')" for inst tags ids ks err nics w nics' w'
      using that(1) drop_gone_sub [OF that(2)] by (metis option.inject)
  qed
  then show ?thesis using assms(3) unfolding nil_as_def by blast
qed

subsection \<open>Examples\<close>

text \<open>
  A cloud that holds a list of interfaces, refuses to create one, and assigns and takes back addresses. The
  node has one interface, with an address marked for deletion, and a pod that waits for an address.
\<close>

lemma wf_ips_code [code]: "wf_ips m \<longleftrightarrow> gm_ok m \<and> list_all (\<lambda>(k, ip). NIP_IP ip = k) m"
  by (auto simp: wf_ips_mem list_all_iff)

lemma wf_nics_code [code]: "wf_nics nics \<longleftrightarrow> gm_ok nics \<and> list_all (\<lambda>(k, nic). wf_nic k nic) nics"
  unfolding wf_nics_def list_all_iff by (auto dest: map_of_Some_in gm_okD)

abbreviation rn_ci :: "string \<Rightarrow> bool \<Rightarrow> CloudIP" where
  "rn_ci a p \<equiv> \<lparr>CI_Primary = p, CI_IPAddress = a, CI_IPName = [], CI_IPStatus = [], CI_Prefix = []\<rparr>"

abbreviation rn_on :: "string \<Rightarrow> (NetworkInterface \<Rightarrow> NetworkInterface) \<Rightarrow> NetworkInterface list \<Rightarrow> NetworkInterface list" where
  "rn_on e g \<equiv> map (\<lambda>ni. if NI_NetworkInterfaceID ni = e then g ni else ni)"

definition rn_cloud :: "NetworkInterface list cloud" where
  "rn_cloud =
     \<lparr>DescribeNetworkInterfaceV2 = (\<lambda>inst sel tags w. (Inr (case sel of None \<Rightarrow> w | Some es \<Rightarrow> filter (\<lambda>ni. NI_NetworkInterfaceID ni \<in> set es) w), w)),
      CreateNetworkInterfaceV2 = (\<lambda>kind opts w. (Inl (NOther ''quota''), w)),
      DetachNetworkInterface = (\<lambda>e inst w. (None, w)),
      WaitForNetworkInterfaceV2 = (\<lambda>e st w. (None, w)),
      DeleteNetworkInterfaceV2 = (\<lambda>e w. (None, filter (\<lambda>ni. NI_NetworkInterfaceID ni \<noteq> e) w)),
      AssignPrivateIPAddressV2 = (\<lambda>e n p w. (([rn_ci ''10.0.0.9'' False], None),
        rn_on e (\<lambda>ni. ni\<lparr>NI_PrivateIPSets := NI_PrivateIPSets ni @ [rn_ci ''10.0.0.9'' False]\<rparr>) w)),
      AssignIpv6AddressesV2 = (\<lambda>e n p w. (([], Some (NOther ''no IPv6'')), w)),
      UnAssignPrivateIPAddressesV2 = (\<lambda>e xs w. (None,
        rn_on e (\<lambda>ni. ni\<lparr>NI_PrivateIPSets := filter (\<lambda>a. CI_IPAddress a \<notin> set (map CI_IPAddress xs)) (NI_PrivateIPSets ni)\<rparr>) w)),
      UnAssignIpv6AddressesV2 = (\<lambda>e xs w. (None, w))\<rparr>"

definition rn_spec :: ENISpec where
  "rn_spec = zero_ENISpec\<lparr>ES_EnableIPv4 := True, ES_VSwitchOptions := [''vsw-1'']\<rparr>"

definition rn_pool :: PoolSpec where
  "rn_pool = \<lparr>PS_MaxPoolSize = 5, PS_MinPoolSize = 1, PS_PoolSyncPeriod = [], PS_Reclaim = None, PS_WarmUpSize = 0\<rparr>"

definition rn_ctx :: "(NetworkInterface list, (string, Switch) gomap) nctx" where
  "rn_ctx =
     \<lparr>X_cloud = rn_cloud, X_lru = map_lru, X_vpc = wit_vpc, X_shuffle = (\<lambda>is. is), X_sortSwitches = (\<lambda>vs. vs),
      X_backend = BackendAPIECS, X_name = ''node'', X_meta = NS_NodeMetadata zero_NodeSpec, X_cap = NS_NodeCap zero_NodeSpec,
      X_spec = rn_spec, X_pool = rn_pool, X_flavors = [], X_now = 10 * minute, X_degradation = [], X_waitSteps = 2,
      X_fullSync = 12 * minute, X_gcPeriod = minute, X_eniBatchSize = 5, X_jitter = (\<lambda>d. d), X_reclaimJitter = (\<lambda>d _. d),
      X_parse = (\<lambda>_. None), X_ord = (\<lambda>_ ks. ks), X_ordS = (\<lambda>ks. ks), X_sched = (\<lambda>js. js), X_runtime = RuntimeFound [],
      X_daemonRuntime = True, X_k8sNode = None, X_aggregate = (\<lambda>_. ''errors'')\<rparr>"

definition rn_ip :: "string \<Rightarrow> bool \<Rightarrow> IPStatus \<Rightarrow> string \<times> NodeIP" where
  "rn_ip a primary st = (a, \<lparr>NIP_IP = a, NIP_Primary = primary, NIP_Status = st, NIP_PodID = [], NIP_PodUID = [], NIP_IPName = []\<rparr>)"

definition rn_nic :: Nic where
  "rn_nic = zero_Nic\<lparr>Nic_ID := ''eni-1'', Nic_Status := ENIStatusInUse, Nic_VSwitchID := ''vsw-1'',
     Nic_NetworkInterfaceTrafficMode := NetworkInterfaceTrafficModeStandard, Nic_NetworkInterfaceType := ENITypeSecondary,
     Nic_IPv4 := Some [rn_ip ''10.0.0.1'' True IPStatusValid, rn_ip ''10.0.0.2'' False IPStatusDeleting]\<rparr>"

definition rn_node :: Node where
  "rn_node = zero_Node\<lparr>Node_Name := ''node'',
     Node_Spec := zero_NodeSpec\<lparr>
       NS_NodeMetadata := \<lparr>NM_RegionID = ''r'', NM_InstanceType = ''t'', NM_InstanceID = ''i-1'', NM_ZoneID = ''a''\<rparr>,
       NS_NodeCap := (NS_NodeCap zero_NodeSpec)\<lparr>Cap_Adapters := 2, Cap_IPv4PerAdapter := 4\<rparr>,
       NS_ENISpec := Some rn_spec, NS_Pool := Some rn_pool,
       NS_Flavor := [\<lparr>Fl_NetworkInterfaceType = ENITypeSecondary, Fl_NetworkInterfaceTrafficMode = NetworkInterfaceTrafficModeStandard, Fl_Count = 1\<rparr>]\<rparr>,
     Node_Status := zero_NodeStatus\<lparr>St_NetworkInterfaces := [(''eni-1'', rn_nic)]\<rparr>\<rparr>"

definition rn_state :: "(NetworkInterface list, (string, Switch) gomap) nst" where
  "rn_state =
     \<lparr>N_status = Node_Status rn_node, N_queue = NewENITaskQueue 1, N_spawned = [], N_meta = new_meta\<lparr>M_NeedSyncOpenAPI := True\<rparr>, N_patched = [],
      N_w = [zero_NetworkInterface\<lparr>NI_NetworkInterfaceID := ''eni-1'', NI_Status := ENIStatusInUse, NI_VSwitchID := ''vsw-1'',
        NI_NetworkInterfaceTrafficMode := NetworkInterfaceTrafficModeStandard,
        NI_PrivateIPSets := [rn_ci ''10.0.0.1'' True, rn_ci ''10.0.0.2'' False], NI_IPv6Set := [rn_ci ''fd00::1'' True]\<rparr>],
      N_c = []\<rparr>"

definition rn_pods :: "K8sPod list" where
  "rn_pods = [\<lparr>KP_Namespace = ''n'', KP_Name = ''a'', KP_UID = ''u'', KP_HostNetwork = False, KP_PodENI = None, KP_Phase = ''Pending'',
     KP_ERDMALimits = [], KP_PodIP = [], KP_PodIPs = []\<rparr>]"

definition rn_run :: "(rec_result \<times> node_write \<times> Meta option \<times> (NetworkInterface list, (string, Switch) gomap) nst) go option" where
  "rn_run = Reconcile rn_ctx (=) True (NodeFound rn_node) (Some rn_pods) None rn_state"

definition rn_written :: NodeStatus where
  "rn_written = (case rn_run of Some (Ret (r, WriteStatus st, m, s)) \<Rightarrow> st | _ \<Rightarrow> zero_NodeStatus)"

definition rn_owners :: "(string \<times> string) list" where
  "rn_owners = (case map_of (St_NetworkInterfaces rn_written) ''eni-1'' of
     None \<Rightarrow> [] | Some nic \<Rightarrow> map (\<lambda>(a, ip). (a, NIP_PodID ip)) (ips (Nic_IPv4 nic)))"

text \<open>The pod gets the idle address, the marked one is given back, and a new one fills the pool.\<close>

theorem Reconcile_wf_witness:
  "wf_nics (St_NetworkInterfaces rn_written) \<and> rn_written \<noteq> Node_Status rn_node \<and> rn_owners = [(''10.0.0.1'', ''n/a''), (''10.0.0.9'', [])]"
proof -
  have wf: "wf_nics (St_NetworkInterfaces (Node_Status rn_node))" by code_simp
  have owners: "rn_owners = [(''10.0.0.1'', ''n/a''), (''10.0.0.9'', [])]" by code_simp
  have "case rn_run of Some (Ret (r, WriteStatus st, m, s)) \<Rightarrow> True | _ \<Rightarrow> False" by code_simp
  then obtain r st m s where run: "rn_run = Some (Ret (r, WriteStatus st, m, s))"
    by (auto split: option.splits go.splits prod.splits node_write.splits)
  moreover have "st = rn_written" unfolding rn_written_def run by simp
  ultimately have "rn_run = Some (Ret (r, WriteStatus rn_written, m, s))" by simp
  from Reconcile_wf [OF wf this [unfolded rn_run_def]] show ?thesis using owners by auto
qed

theorem handleStatus_keeps_witness:
  "\<exists>nic'. map_of (N_nics (handleStatus rn_ctx rn_state)) ''eni-1'' = Some nic' \<and> cleaned rn_nic nic' \<and> keys (ips (Nic_IPv4 nic')) = [''10.0.0.1'']"
proof -
  have wf: "wf_nics (N_nics rn_state)" by code_simp
  have nic: "map_of (N_nics rn_state) ''eni-1'' = Some rn_nic" by code_simp
  have st: "stays rn_nic" by code_simp
  have "map_option (\<lambda>nic. keys (ips (Nic_IPv4 nic))) (map_of (N_nics (handleStatus rn_ctx rn_state)) ''eni-1'') = Some [''10.0.0.1'']" by code_simp
  then show ?thesis using handleStatus_keeps [OF wf nic st, of rn_ctx] by auto
qed

definition rn_synced :: "(NetworkInterface list, (string, Switch) gomap) nst" where
  "rn_synced = snd (syncWithAPI rn_ctx rn_state)"

theorem nil_map_lost_witness:
  "map_option Nic_IPv6 (map_of (N_nics rn_synced) ''eni-1'') = Some None \<and>
   map (\<lambda>ni. (NI_NetworkInterfaceID ni, map CI_IPAddress (NI_IPv6Set ni))) (N_w rn_synced) = [(''eni-1'', [''fd00::1''])]"
proof -
  have nic: "map_of (N_nics rn_state) ''eni-1'' = Some rn_nic" and none: "Nic_IPv6 rn_nic = None"
    and cloud: "map (\<lambda>ni. (NI_NetworkInterfaceID ni, map CI_IPAddress (NI_IPv6Set ni))) (N_w rn_synced) = [(''eni-1'', [''fd00::1''])]"
    by code_simp+
  have sync: "syncWithAPI rn_ctx rn_state = (fst (syncWithAPI rn_ctx rn_state), rn_synced)" by (simp add: rn_synced_def)
  have "map_of (N_nics rn_synced) ''eni-1'' \<noteq> None" by code_simp
  then obtain nic' where "map_of (N_nics rn_synced) ''eni-1'' = Some nic'" by blast
  then show ?thesis using nil_map_lost [OF nic sync] none cloud by simp
qed

end
