(* ===== verification/Storage.thy ===== *)
theory Storage
  imports Prelude
begin

section \<open>The storage of the daemon (pkg/storage/store.go)\<close>

text \<open>
  The daemon keeps the resources of its pods in a \<^verbatim>\<open>Storage\<close>: a map in memory (\<open>MemoryStorage\<close>), or one
  with a database behind it (\<open>DiskStorage\<close>) that is read again when the daemon starts. An operation
  returns its error, if any, and the storage after it. The locks make every operation atomic. The
  database (bbolt) and the functions that turn a value into bytes and back are parameters: a record of
  the transactions the code runs, with the laws \<open>bolt_laws\<close> and \<open>codec_laws\<close>.
\<close>

datatype store_err = ErrNotFound | ErrDisk | ErrSerialize

subsection \<open>In memory\<close>

type_synonym 'v MemoryStorage = "(string, 'v) gomap"

definition NewMemoryStorage :: "'v MemoryStorage" where
  "NewMemoryStorage = []"

definition Memory_Put :: "string \<Rightarrow> 'v \<Rightarrow> 'v MemoryStorage \<Rightarrow> store_err option \<times> 'v MemoryStorage" where
  "Memory_Put key value m = (None, AList.update key value m)"

definition Memory_Get :: "string \<Rightarrow> 'v MemoryStorage \<Rightarrow> store_err + 'v" where
  "Memory_Get key m = (case map_of m key of None \<Rightarrow> Inl ErrNotFound | Some value \<Rightarrow> Inr value)"

definition Memory_List :: "(string list \<Rightarrow> string list) \<Rightarrow> 'v MemoryStorage \<Rightarrow> 'v list" where
  "Memory_List ord m = vals (range_list ord m)"

definition Memory_Delete :: "string \<Rightarrow> 'v MemoryStorage \<Rightarrow> store_err option \<times> 'v MemoryStorage" where
  "Memory_Delete key m = (None, AList.delete key m)"

subsection \<open>On disk\<close>

text \<open>
  The transactions: the bucket is created if it is missing, a key is written, a key is removed (each
  succeeds or not), and the entries are read in the order of the cursor, unless the read fails.
\<close>

record ('b, 'd) bolt =
  db_create :: "string \<Rightarrow> 'd \<Rightarrow> bool \<times> 'd"
  db_put :: "string \<Rightarrow> string \<Rightarrow> 'b \<Rightarrow> 'd \<Rightarrow> bool \<times> 'd"
  db_delete :: "string \<Rightarrow> string \<Rightarrow> 'd \<Rightarrow> bool \<times> 'd"
  db_view :: "string \<Rightarrow> 'd \<Rightarrow> (string \<times> 'b) list option"

record ('v, 'b, 'd) DiskStorage =
  DS_db :: 'd
  DS_name :: string
  DS_memory :: "'v MemoryStorage"
  DS_serializer :: "'v \<Rightarrow> 'b option"
  DS_deserializer :: "'b \<Rightarrow> 'v option"

definition Disk_Put ::
  "('b, 'd) bolt \<Rightarrow> string \<Rightarrow> 'v \<Rightarrow> ('v, 'b, 'd) DiskStorage \<Rightarrow> store_err option \<times> ('v, 'b, 'd) DiskStorage" where
  "Disk_Put db key value d =
     (case DS_serializer d value of
        None \<Rightarrow> (Some ErrSerialize, d)
      | Some data \<Rightarrow>
          (case db_put db (DS_name d) key data (DS_db d) of
             (False, s) \<Rightarrow> (Some ErrDisk, d\<lparr>DS_db := s\<rparr>)
           | (True, s) \<Rightarrow>
               (case Memory_Put key value (DS_memory d) of (err, m) \<Rightarrow> (err, d\<lparr>DS_db := s, DS_memory := m\<rparr>))))"

fun load_entries :: "('b \<Rightarrow> 'v option) \<Rightarrow> (string \<times> 'b) list \<Rightarrow> 'v MemoryStorage \<Rightarrow> store_err option \<times> 'v MemoryStorage" where
  "load_entries deserializer [] m = (None, m)"
| "load_entries deserializer ((k, v) # es) m =
     (case deserializer v of
        None \<Rightarrow> (Some ErrSerialize, m)
      | Some obj \<Rightarrow>
          (case Memory_Put k obj m of
             (Some err, m) \<Rightarrow> (Some err, m)
           | (None, m) \<Rightarrow> load_entries deserializer es m))"

definition Disk_load :: "('b, 'd) bolt \<Rightarrow> ('v, 'b, 'd) DiskStorage \<Rightarrow> store_err option \<times> ('v, 'b, 'd) DiskStorage" where
  "Disk_load db d =
     (case db_create db (DS_name d) (DS_db d) of
        (False, s) \<Rightarrow> (Some ErrDisk, d\<lparr>DS_db := s\<rparr>)
      | (True, s) \<Rightarrow>
          (case db_view db (DS_name d) s of
             None \<Rightarrow> (Some ErrDisk, d\<lparr>DS_db := s\<rparr>)
           | Some es \<Rightarrow>
               (case load_entries (DS_deserializer d) es (DS_memory d) of
                  (err, m) \<Rightarrow> (err, d\<lparr>DS_db := s, DS_memory := m\<rparr>))))"

text \<open>\<open>mkdir\<close> says whether the directory could be made, \<open>opened\<close> is the database if it could be opened.\<close>

definition NewDiskStorage ::
  "('b, 'd) bolt \<Rightarrow> bool \<Rightarrow> 'd option \<Rightarrow> string \<Rightarrow> ('v \<Rightarrow> 'b option) \<Rightarrow> ('b \<Rightarrow> 'v option) \<Rightarrow> store_err + ('v, 'b, 'd) DiskStorage" where
  "NewDiskStorage db mkdir opened name serializer deserializer =
     (if \<not> mkdir then Inl ErrDisk
      else
        (case opened of
           None \<Rightarrow> Inl ErrDisk
         | Some s \<Rightarrow>
             (case Disk_load db \<lparr>DS_db = s, DS_name = name, DS_memory = NewMemoryStorage,
                                 DS_serializer = serializer, DS_deserializer = deserializer\<rparr> of
                (Some err, d) \<Rightarrow> Inl err
              | (None, d) \<Rightarrow> Inr d)))"

definition Disk_Get :: "string \<Rightarrow> ('v, 'b, 'd) DiskStorage \<Rightarrow> store_err + 'v" where
  "Disk_Get key d = Memory_Get key (DS_memory d)"

definition Disk_List :: "(string list \<Rightarrow> string list) \<Rightarrow> ('v, 'b, 'd) DiskStorage \<Rightarrow> 'v list" where
  "Disk_List ord d = Memory_List ord (DS_memory d)"

definition Disk_Delete ::
  "('b, 'd) bolt \<Rightarrow> string \<Rightarrow> ('v, 'b, 'd) DiskStorage \<Rightarrow> store_err option \<times> ('v, 'b, 'd) DiskStorage" where
  "Disk_Delete db key d =
     (case db_delete db (DS_name d) key (DS_db d) of
        (False, s) \<Rightarrow> (Some ErrDisk, d\<lparr>DS_db := s\<rparr>)
      | (True, s) \<Rightarrow> (case Memory_Delete key (DS_memory d) of (err, m) \<Rightarrow> (err, d\<lparr>DS_db := s, DS_memory := m\<rparr>)))"

subsection \<open>The contract of a storage\<close>

datatype 'v kv_op = KPut string 'v | KDelete string

fun kv_run ::
  "(string \<Rightarrow> 'v \<Rightarrow> 's \<Rightarrow> store_err option \<times> 's) \<Rightarrow> (string \<Rightarrow> 's \<Rightarrow> store_err option \<times> 's) \<Rightarrow>
   'v kv_op list \<Rightarrow> 's \<Rightarrow> store_err option list \<times> 's" where
  "kv_run put del [] s = ([], s)"
| "kv_run put del (KPut k v # ops) s =
     (case put k v s of (e, s) \<Rightarrow> (case kv_run put del ops s of (es, s) \<Rightarrow> (e # es, s)))"
| "kv_run put del (KDelete k # ops) s =
     (case del k s of (e, s) \<Rightarrow> (case kv_run put del ops s of (es, s) \<Rightarrow> (e # es, s)))"

text \<open>What the operations mean: those that reported no error change a map, the others nothing.\<close>

fun kv_effect :: "'v kv_op \<Rightarrow> (string \<Rightarrow> 'v option) \<Rightarrow> string \<Rightarrow> 'v option" where
  "kv_effect (KPut k v) m = m(k \<mapsto> v)"
| "kv_effect (KDelete k) m = m(k := None)"

fun kv_spec :: "'v kv_op list \<Rightarrow> store_err option list \<Rightarrow> (string \<Rightarrow> 'v option) \<Rightarrow> string \<Rightarrow> 'v option" where
  "kv_spec (op # ops) (None # es) m = kv_spec ops es (kv_effect op m)"
| "kv_spec (op # ops) (Some e # es) m = kv_spec ops es m"
| "kv_spec ops es m = m"

locale kv_store =
  fixes inv :: "'s \<Rightarrow> bool"
    and abs :: "'s \<Rightarrow> string \<Rightarrow> 'v option"
    and put :: "string \<Rightarrow> 'v \<Rightarrow> 's \<Rightarrow> store_err option \<times> 's"
    and del :: "string \<Rightarrow> 's \<Rightarrow> store_err option \<times> 's"
    and get :: "string \<Rightarrow> 's \<Rightarrow> store_err + 'v"
    and items :: "(string list \<Rightarrow> string list) \<Rightarrow> 's \<Rightarrow> 'v list"
  assumes put_spec: "inv s \<Longrightarrow> put k v s = (e, s') \<Longrightarrow> inv s' \<and> abs s' = (if e = None then (abs s)(k \<mapsto> v) else abs s)"
    and del_spec: "inv s \<Longrightarrow> del k s = (e, s') \<Longrightarrow> inv s' \<and> abs s' = (if e = None then (abs s)(k := None) else abs s)"
    and get_spec: "inv s \<Longrightarrow> get k s = (case abs s k of None \<Rightarrow> Inl ErrNotFound | Some v \<Rightarrow> Inr v)"
    and items_spec: "inv s \<Longrightarrow> range_order ord \<Longrightarrow> set (items ord s) = ran (abs s)"
begin

lemma run_spec:
  "inv s \<Longrightarrow> kv_run put del ops s = (es, s') \<Longrightarrow> inv s' \<and> abs s' = kv_spec ops es (abs s) \<and> length es = length ops"
proof (induction ops arbitrary: s es s')
  case (Cons op ops)
  let ?step = "case op of KPut k v \<Rightarrow> put k v s | KDelete k \<Rightarrow> del k s"
  obtain e s1 where step: "?step = (e, s1)" by (meson surj_pair)
  obtain es1 s2 where rest: "kv_run put del ops s1 = (es1, s2)" by (meson surj_pair)
  have es: "es = e # es1" and s': "s' = s2" using Cons.prems(2) step rest by (cases op; simp)+
  have s1: "inv s1 \<and> abs s1 = (if e = None then kv_effect op (abs s) else abs s)"
  proof (cases op)
    case (KPut k v)
    then show ?thesis using put_spec [OF Cons.prems(1), of k v e s1] step by simp
  next
    case (KDelete k)
    then show ?thesis using del_spec [OF Cons.prems(1), of k e s1] step by simp
  qed
  show ?case using Cons.IH [OF conjunct1 [OF s1] rest] conjunct2 [OF s1] unfolding es s' by (cases e) simp_all
qed simp

end

interpretation mem: kv_store gm_ok map_of Memory_Put Memory_Delete Memory_Get Memory_List
proof unfold_locales
  fix m :: "'v MemoryStorage" and ord :: "string list \<Rightarrow> string list"
  assume "gm_ok m" "range_order ord"
  then show "set (Memory_List ord m) = ran (map_of m)"
    by (simp add: Memory_List_def range_list_set gm_ok_def ran_distinct)
qed (auto simp: Memory_Put_def Memory_Delete_def Memory_Get_def gm_simps fun_eq_iff)

subsection \<open>The disk storage keeps the contract\<close>

text \<open>
  What bbolt documents, with \<open>content\<close> the buckets of a database: a transaction takes effect as a whole
  or, when it fails, not at all; a cursor yields every entry of the bucket once.
\<close>

definition bolt_laws :: "('b, 'd) bolt \<Rightarrow> ('d \<Rightarrow> string \<Rightarrow> (string \<Rightarrow> 'b option) option) \<Rightarrow> bool" where
  "bolt_laws db content \<longleftrightarrow>
     (\<forall>n d ok d'. db_create db n d = (ok, d') \<longrightarrow>
        content d' = (if ok then (content d)(n := Some (case content d n of None \<Rightarrow> Map.empty | Some m \<Rightarrow> m)) else content d)) \<and>
     (\<forall>n k b d ok d' m. content d n = Some m \<longrightarrow> db_put db n k b d = (ok, d') \<longrightarrow>
        content d' = (if ok then (content d)(n := Some (m(k \<mapsto> b))) else content d)) \<and>
     (\<forall>n k d ok d' m. content d n = Some m \<longrightarrow> db_delete db n k d = (ok, d') \<longrightarrow>
        content d' = (if ok then (content d)(n := Some (m(k := None))) else content d)) \<and>
     (\<forall>n d es m. content d n = Some m \<longrightarrow> db_view db n d = Some es \<longrightarrow> distinct (map fst es) \<and> map_of es = m)"

definition codec_laws :: "('v \<Rightarrow> 'b option) \<Rightarrow> ('b \<Rightarrow> 'v option) \<Rightarrow> bool" where
  "codec_laws ser des \<longleftrightarrow> (\<forall>v b. ser v = Some b \<longrightarrow> des b = Some v)"

text \<open>The memory holds what the bucket of the storage decodes to.\<close>

definition decodes :: "('b \<Rightarrow> 'v option) \<Rightarrow> (string \<Rightarrow> 'b option) \<Rightarrow> (string \<Rightarrow> 'v option) \<Rightarrow> bool" where
  "decodes des bucket m \<longleftrightarrow> (\<forall>k. m k = Option.bind (bucket k) des) \<and> (\<forall>k b. bucket k = Some b \<longrightarrow> des b \<noteq> None)"

lemma decodes_unique: "decodes des bucket m \<Longrightarrow> decodes des bucket m' \<Longrightarrow> m = m'"
  by (simp add: decodes_def fun_eq_iff)

lemma decodes_upd: "decodes des bucket m \<Longrightarrow> des b = Some v \<Longrightarrow> decodes des (bucket(k \<mapsto> b)) (m(k \<mapsto> v))"
  by (simp add: decodes_def)

lemma decodes_del: "decodes des bucket m \<Longrightarrow> decodes des (bucket(k := None)) (m(k := None))"
  by (simp add: decodes_def)

definition disk_inv ::
  "('d \<Rightarrow> string \<Rightarrow> (string \<Rightarrow> 'b option) option) \<Rightarrow> ('v \<Rightarrow> 'b option) \<Rightarrow> ('b \<Rightarrow> 'v option) \<Rightarrow> string \<Rightarrow>
   ('v, 'b, 'd) DiskStorage \<Rightarrow> bool" where
  "disk_inv content ser des bname d \<longleftrightarrow>
     DS_serializer d = ser \<and> DS_deserializer d = des \<and> DS_name d = bname \<and> gm_ok (DS_memory d) \<and>
     (\<exists>bucket. content (DS_db d) bname = Some bucket \<and> decodes des bucket (map_of (DS_memory d)))"

locale bolt_store =
  fixes db :: "('b, 'd) bolt" and content :: "'d \<Rightarrow> string \<Rightarrow> (string \<Rightarrow> 'b option) option"
    and ser :: "'v \<Rightarrow> 'b option" and des :: "'b \<Rightarrow> 'v option" and bname :: string
  assumes laws: "bolt_laws db content" and codec: "codec_laws ser des"
begin

lemma create_law:
  "db_create db n d = (ok, d') \<Longrightarrow>
   content d' = (if ok then (content d)(n := Some (case content d n of None \<Rightarrow> Map.empty | Some m \<Rightarrow> m)) else content d)"
  by (rule laws [unfolded bolt_laws_def, THEN conjunct1, rule_format])

lemma put_law:
  "content d n = Some m \<Longrightarrow> db_put db n k b d = (ok, d') \<Longrightarrow>
   content d' = (if ok then (content d)(n := Some (m(k \<mapsto> b))) else content d)"
  using laws unfolding bolt_laws_def by blast

lemma delete_law:
  "content d n = Some m \<Longrightarrow> db_delete db n k d = (ok, d') \<Longrightarrow>
   content d' = (if ok then (content d)(n := Some (m(k := None))) else content d)"
  using laws unfolding bolt_laws_def by blast

lemma view_law: "content d n = Some m \<Longrightarrow> db_view db n d = Some es \<Longrightarrow> distinct (map fst es) \<and> map_of es = m"
  using laws unfolding bolt_laws_def by blast

lemma codec_law: "ser v = Some b \<Longrightarrow> des b = Some v"
  using codec by (simp add: codec_laws_def)

lemma disk_invE:
  assumes "disk_inv content ser des bname d"
  obtains bucket where "DS_serializer d = ser" "DS_deserializer d = des" "DS_name d = bname" "gm_ok (DS_memory d)"
    "content (DS_db d) bname = Some bucket" "decodes des bucket (map_of (DS_memory d))"
  using assms unfolding disk_inv_def by blast

lemma Disk_Put_spec:
  assumes "disk_inv content ser des bname d" and "Disk_Put db k v d = (e, d')"
  shows "disk_inv content ser des bname d' \<and> map_of (DS_memory d') = (if e = None then (map_of (DS_memory d))(k \<mapsto> v) else map_of (DS_memory d))"
proof (cases "ser v")
  case None
  moreover have "DS_serializer d = ser" using assms(1) by (rule disk_invE)
  ultimately have "e = Some ErrSerialize" "d' = d" using assms(2) by (simp_all add: Disk_Put_def)
  then show ?thesis using assms(1) by simp
next
  case (Some b)
  obtain bucket where d: "DS_serializer d = ser" "DS_deserializer d = des" "DS_name d = bname" "gm_ok (DS_memory d)"
    and bucket: "content (DS_db d) bname = Some bucket" "decodes des bucket (map_of (DS_memory d))"
    using assms(1) by (rule disk_invE)
  obtain ok s where p: "db_put db bname k b (DS_db d) = (ok, s)" by (meson surj_pair)
  have c: "content s bname = Some (if ok then bucket(k \<mapsto> b) else bucket)" using put_law [OF bucket(1) p] bucket(1) by simp
  have m: "map_of (AList.update k v (DS_memory d)) = (map_of (DS_memory d))(k \<mapsto> v)" by (simp add: gm_simps fun_eq_iff)
  show ?thesis
  proof (cases ok)
    case True
    then have "e = None" "d' = d\<lparr>DS_db := s, DS_memory := AList.update k v (DS_memory d)\<rparr>"
      using assms(2) d p Some by (simp_all add: Disk_Put_def Memory_Put_def)
    then show ?thesis using d c True decodes_upd [OF bucket(2) codec_law [OF Some]] by (simp add: disk_inv_def m)
  next
    case False
    then have "e = Some ErrDisk" "d' = d\<lparr>DS_db := s\<rparr>" using assms(2) d p Some by (simp_all add: Disk_Put_def)
    then show ?thesis using d c False bucket(2) by (simp add: disk_inv_def)
  qed
qed

lemma Disk_Delete_spec:
  assumes "disk_inv content ser des bname d" and "Disk_Delete db k d = (e, d')"
  shows "disk_inv content ser des bname d' \<and> map_of (DS_memory d') = (if e = None then (map_of (DS_memory d))(k := None) else map_of (DS_memory d))"
proof -
  obtain bucket where d: "DS_serializer d = ser" "DS_deserializer d = des" "DS_name d = bname" "gm_ok (DS_memory d)"
    and bucket: "content (DS_db d) bname = Some bucket" "decodes des bucket (map_of (DS_memory d))"
    using assms(1) by (rule disk_invE)
  obtain ok s where p: "db_delete db bname k (DS_db d) = (ok, s)" by (meson surj_pair)
  have c: "content s bname = Some (if ok then bucket(k := None) else bucket)" using delete_law [OF bucket(1) p] bucket(1) by simp
  have m: "map_of (AList.delete k (DS_memory d)) = (map_of (DS_memory d))(k := None)" by (simp add: gm_simps fun_eq_iff)
  show ?thesis
  proof (cases ok)
    case True
    then have "e = None" "d' = d\<lparr>DS_db := s, DS_memory := AList.delete k (DS_memory d)\<rparr>"
      using assms(2) d p by (simp_all add: Disk_Delete_def Memory_Delete_def)
    then show ?thesis using d c True decodes_del [OF bucket(2)] by (simp add: disk_inv_def m)
  next
    case False
    then have "e = Some ErrDisk" "d' = d\<lparr>DS_db := s\<rparr>" using assms(2) d p by (simp_all add: Disk_Delete_def)
    then show ?thesis using d c False bucket(2) by (simp add: disk_inv_def)
  qed
qed

end

sublocale bolt_store \<subseteq> disk: kv_store "disk_inv content ser des bname" "\<lambda>d. map_of (DS_memory d)" "Disk_Put db" "Disk_Delete db" Disk_Get Disk_List
proof unfold_locales
  fix d :: "('v, 'b, 'd) DiskStorage" and k ord
  assume "disk_inv content ser des bname d"
  then have ok: "gm_ok (DS_memory d)" by (rule disk_invE)
  show "Disk_Get k d = (case map_of (DS_memory d) k of None \<Rightarrow> Inl ErrNotFound | Some v \<Rightarrow> Inr v)"
    unfolding Disk_Get_def using ok by (rule mem.get_spec)
  show "set (Disk_List ord d) = ran (map_of (DS_memory d))" if "range_order ord"
    unfolding Disk_List_def using ok that by (rule mem.items_spec)
qed (rule Disk_Put_spec Disk_Delete_spec; assumption)+

subsection \<open>Opening the database\<close>

lemma load_entries_spec:
  assumes "load_entries des es m = (e, m')" and "gm_ok m" and "distinct (keys es)" and "e = None"
  shows "gm_ok m' \<and> (\<forall>k b. map_of es k = Some b \<longrightarrow> des b \<noteq> None) \<and>
    map_of m' = (\<lambda>k. case map_of es k of None \<Rightarrow> map_of m k | Some b \<Rightarrow> des b)"
  using assms
proof (induction es arbitrary: m)
  case (Cons x es)
  obtain k b where x: "x = (k, b)" by (meson surj_pair)
  obtain v where v: "des b = Some v" using Cons.prems(1,4) x by (cases "des b") auto
  have rest: "load_entries des es (AList.update k v m) = (e, m')" using Cons.prems(1) x v by (simp add: Memory_Put_def)
  have k: "map_of es k = None" using Cons.prems(3) x by (simp add: map_of_eq_None_iff)
  have ih: "gm_ok m' \<and> (\<forall>k b. map_of es k = Some b \<longrightarrow> des b \<noteq> None) \<and>
    map_of m' = (\<lambda>j. case map_of es j of None \<Rightarrow> map_of (AList.update k v m) j | Some b \<Rightarrow> des b)"
    by (rule Cons.IH [OF rest]) (use Cons.prems x in simp_all)
  then show ?case using v k x by (auto simp: fun_eq_iff gm_simps split: option.split if_splits)
qed simp

context bolt_store
begin

lemma opened_inv:
  assumes "NewDiskStorage db mk (Some s) bname ser des = Inr d"
  shows "disk_inv content ser des bname d"
    and "content (DS_db d) bname = Some (case content s bname of None \<Rightarrow> Map.empty | Some m \<Rightarrow> m)"
proof -
  obtain ok s1 where c: "db_create db bname s = (ok, s1)" by (meson surj_pair)
  have ok: ok using assms c by (auto simp: NewDiskStorage_def Disk_load_def split: if_splits bool.splits)
  obtain es where v: "db_view db bname s1 = Some es"
    using assms c ok by (auto simp: NewDiskStorage_def Disk_load_def split: if_splits option.splits)
  obtain e m where l: "load_entries des es NewMemoryStorage = (e, m)" by (meson surj_pair)
  have e: "e = None" and d: "d = \<lparr>DS_db = s1, DS_name = bname, DS_memory = m, DS_serializer = ser, DS_deserializer = des\<rparr>"
    using assms c ok v l by (auto simp: NewDiskStorage_def Disk_load_def split: if_splits option.splits)
  let ?b = "case content s bname of None \<Rightarrow> Map.empty | Some m \<Rightarrow> m"
  have b: "content s1 bname = Some ?b" using create_law [OF c] ok by simp
  have es: "distinct (keys es)" "map_of es = ?b" using view_law [OF b v] by blast+
  have "gm_ok NewMemoryStorage" by (simp add: NewMemoryStorage_def)
  note m = load_entries_spec [OF l this es(1) e]
  have "decodes des ?b (map_of m)"
    unfolding decodes_def using m es(2) by (auto simp: NewMemoryStorage_def fun_eq_iff split: option.split)
  then show "disk_inv content ser des bname d" using m b unfolding disk_inv_def d by auto
  show "content (DS_db d) bname = Some ?b" using b d by simp
qed

text \<open>Reading the database again gives what was in memory.\<close>

lemma reopened:
  assumes "disk_inv content ser des bname d" and "NewDiskStorage db mk (Some (DS_db d)) bname ser des = Inr d'"
  shows "map_of (DS_memory d') = map_of (DS_memory d)"
proof -
  obtain bucket where b: "content (DS_db d) bname = Some bucket" "decodes des bucket (map_of (DS_memory d))"
    using assms(1) by (rule disk_invE)
  have "content (DS_db d') bname = Some bucket" using opened_inv(2) [OF assms(2)] b(1) by simp
  then have "decodes des bucket (map_of (DS_memory d'))" using opened_inv(1) [OF assms(2)] unfolding disk_inv_def by auto
  from decodes_unique [OF this b(2)] show ?thesis .
qed

lemma disk_refines:
  assumes "range_order ord" and "NewDiskStorage db mk (Some s) bname ser des = Inr d0"
    and "kv_run (Disk_Put db) (Disk_Delete db) ops d0 = (es, d)"
    and "NewDiskStorage db mk' (Some (DS_db d)) bname ser des = Inr d1"
  shows "map_of (DS_memory d) = kv_spec ops es (map_of (DS_memory d0)) \<and> length es = length ops \<and>
    Disk_Get k d = (case map_of (DS_memory d) k of None \<Rightarrow> Inl ErrNotFound | Some v \<Rightarrow> Inr v) \<and>
    set (Disk_List ord d) = ran (map_of (DS_memory d)) \<and>
    map_of (DS_memory d1) = map_of (DS_memory d)"
proof -
  have run: "disk_inv content ser des bname d \<and> map_of (DS_memory d) = kv_spec ops es (map_of (DS_memory d0)) \<and> length es = length ops"
    by (rule disk.run_spec [OF opened_inv(1) [OF assms(2)] assms(3)])
  then have inv: "disk_inv content ser des bname d" by (rule conjunct1)
  show ?thesis using run disk.get_spec [OF inv, of k] disk.items_spec [OF inv assms(1)] reopened [OF inv assms(4)] by simp
qed

end

text \<open>
  C36: the storage on disk is a map that survives a restart. After any sequence of writes and deletions on
  an opened storage, its content is that of a plain map on which exactly the operations that
  reported no error were carried out; \<^verbatim>\<open>Get\<close> and \<^verbatim>\<open>List\<close> read this map; and opening the database again
  yields the same map.
\<close>

theorem DiskStorage_refines:
  assumes "bolt_laws db content" and "codec_laws ser des" and "range_order ord"
    and "NewDiskStorage db mk (Some s) bname ser des = Inr d0"
    and "kv_run (Disk_Put db) (Disk_Delete db) ops d0 = (es, d)"
    and "NewDiskStorage db mk' (Some (DS_db d)) bname ser des = Inr d1"
  shows "map_of (DS_memory d) = kv_spec ops es (map_of (DS_memory d0)) \<and> length es = length ops \<and>
    Disk_Get k d = (case map_of (DS_memory d) k of None \<Rightarrow> Inl ErrNotFound | Some v \<Rightarrow> Inr v) \<and>
    set (Disk_List ord d) = ran (map_of (DS_memory d)) \<and>
    map_of (DS_memory d1) = map_of (DS_memory d)"
proof -
  have "bolt_store db content ser des" using assms(1,2) by unfold_locales
  from bolt_store.disk_refines [OF this assms(3-6)] show ?thesis .
qed

subsection \<open>A database\<close>

text \<open>Buckets as association lists; like bbolt it refuses an empty key.\<close>

type_synonym 'b map_db = "(string, (string, 'b) gomap) gomap"

definition map_bolt :: "('b, 'b map_db) bolt" where
  "map_bolt =
     \<lparr>db_create = (\<lambda>n d. (True, if map_of d n = None then AList.update n [] d else d)),
      db_put = (\<lambda>n k b d. if k = [] then (False, d) else (True, gm_adjust n (AList.update k b) d)),
      db_delete = (\<lambda>n k d. (True, gm_adjust n (AList.delete k) d)),
      db_view = (\<lambda>n d. map_option (\<lambda>es. map (\<lambda>k. (k, the (map_of es k))) (remdups (keys es))) (map_of d n))\<rparr>"

definition map_content :: "'b map_db \<Rightarrow> string \<Rightarrow> (string \<Rightarrow> 'b option) option" where
  "map_content d n = map_option map_of (map_of d n)"

lemma map_of_view: "map_of (map (\<lambda>k. (k, the (map_of es k))) (remdups (keys es))) = map_of es"
  by (auto simp: map_of_map_restrict restrict_map_def fun_eq_iff map_of_eq_None_iff dest!: map_of_SomeD split: option.split)
    (metis image_eqI fst_conv map_of_eq_None_iff option.exhaust_sel)+

definition quote :: "string \<Rightarrow> string option" where
  "quote v = Some (CHR ''q'' # v)"

definition unquote :: "string \<Rightarrow> string option" where
  "unquote b = (case b of [] \<Rightarrow> None | c # v \<Rightarrow> if c = CHR ''q'' then Some v else None)"

lemma map_of_update_map: "map_of (AList.update k b m) = (map_of m)(k \<mapsto> b)" "map_of (AList.delete k m) = (map_of m)(k := None)"
  by (simp_all add: gm_simps fun_eq_iff)

lemma map_bolt_laws: "bolt_laws map_bolt map_content"
  unfolding bolt_laws_def
proof (intro conjI allI impI)
  fix n k d ok d' m
  show "map_content d' = (if ok then (map_content d)(n := Some (case map_content d n of None \<Rightarrow> Map.empty | Some m \<Rightarrow> m)) else map_content d)"
    if "db_create map_bolt n d = (ok, d')"
    using that by (auto simp: map_bolt_def map_content_def gm_simps fun_eq_iff split: if_splits)
  show "map_content d' = (if ok then (map_content d)(n := Some (m(k \<mapsto> b))) else map_content d)"
    if "map_content d n = Some m" "db_put map_bolt n k b d = (ok, d')" for b
    using that by (auto simp: map_bolt_def map_content_def map_of_adjust map_of_update_map fun_eq_iff split: if_splits)
  show "map_content d' = (if ok then (map_content d)(n := Some (m(k := None))) else map_content d)"
    if "map_content d n = Some m" "db_delete map_bolt n k d = (ok, d')"
    using that by (auto simp: map_bolt_def map_content_def map_of_adjust map_of_update_map fun_eq_iff split: if_splits)
  show "distinct (keys es)" "map_of es = m" if "map_content d n = Some m" "db_view map_bolt n d = Some es" for es
    using that by (auto simp: map_bolt_def map_content_def map_of_view comp_def)
qed

lemma quote_laws: "codec_laws quote unquote"
  by (simp add: codec_laws_def quote_def unquote_def)

interpretation mb: bolt_store map_bolt map_content quote unquote bname for bname
  using map_bolt_laws quote_laws by unfold_locales

definition wit_store :: "string map_db \<Rightarrow> string MemoryStorage \<Rightarrow> (string, string, string map_db) DiskStorage" where
  "wit_store d m = \<lparr>DS_db = d, DS_name = ''pods'', DS_memory = m, DS_serializer = quote, DS_deserializer = unquote\<rparr>"

lemmas wit_store_simps = NewDiskStorage_def Disk_load_def Disk_Put_def Disk_Delete_def map_bolt_def wit_store_def NewMemoryStorage_def
  Memory_Put_def Memory_Delete_def quote_def unquote_def gm_adjust_def

theorem DiskStorage_refines_witness:
  "kv_run (Disk_Put map_bolt) (Disk_Delete map_bolt) [KPut ''a'' ''1'', KPut [] ''2'', KPut ''b'' ''3'', KPut ''a'' ''4'', KDelete ''b''] (wit_store [(''pods'', [])] []) =
     ([None, Some ErrDisk, None, None, None], wit_store [(''pods'', [(''a'', ''q4'')])] [(''a'', ''4'')]) \<and>
   kv_spec [KPut ''a'' ''1'', KPut [] ''2'', KPut ''b'' ''3'', KPut ''a'' ''4'', KDelete ''b''] [None, Some ErrDisk, None, None, None] Map.empty = [''a'' \<mapsto> ''4''] \<and>
   Disk_Get ''a'' (wit_store [(''pods'', [(''a'', ''q4'')])] [(''a'', ''4'')]) = Inr ''4''"
proof -
  let ?ops = "[KPut ''a'' ''1'', KPut [] ''2'', KPut ''b'' ''3'', KPut ''a'' ''4'', KDelete ''b'']"
  let ?final = "wit_store [(''pods'', [(''a'', ''q4'')])] [(''a'', ''4'')]"
  have new: "NewDiskStorage map_bolt True (Some []) ''pods'' quote unquote = Inr (wit_store [(''pods'', [])] [])"
    by (simp add: wit_store_simps)
  have again: "NewDiskStorage map_bolt True (Some (DS_db ?final)) ''pods'' quote unquote = Inr ?final"
    by (simp add: wit_store_simps)
  have run: "kv_run (Disk_Put map_bolt) (Disk_Delete map_bolt) ?ops (wit_store [(''pods'', [])] []) = ([None, Some ErrDisk, None, None, None], ?final)"
    by (simp add: wit_store_simps)
  have "map_of (DS_memory ?final) = [''a'' \<mapsto> ''4'']" "map_of (DS_memory (wit_store [(''pods'', [])] [])) = Map.empty"
    by (simp_all add: wit_store_def fun_eq_iff)
  then show ?thesis using DiskStorage_refines [OF map_bolt_laws quote_laws range_order_id new run again, of "''a''"] run by simp
qed

end
